(* ===== verification/Vless_Prelude.thy ===== *)
theory Vless_Prelude
  imports Main "HOL-Library.Word"
begin

text \<open>
  What every theory of the development shares: the byte and string types, the C++
  integer conversions the sources use, exceptions as values, and the coroutine results.

  A \<open>std::vector<uint8_t>\<close> is a list of 8-bit words, a \<open>std::string\<close> an Isabelle
  \<open>string\<close> (its characters are bytes), a \<open>std::array<uint8_t, n>\<close> a byte list
  whose length is part of the well-formedness predicates.

  A coroutine of type \<open>Task<T>\<close> that works on a state is a function into
  \<open>((exn + 'a) \<times> 's) option\<close>: \<open>None\<close> when it never returns (it stays suspended, or it
  loops), otherwise the thrown exception or the value together with the state at that moment.
  An exception does not undo the state changes made before it.
\<close>

unbundle bit_operations_syntax

named_theorems byte_simps \<open>round trips between bytes, characters and 16-bit integers\<close>
named_theorems co_simps \<open>evaluation rules of the coroutine combinators\<close>

type_synonym byte = "8 word"
type_synonym bytes = "8 word list"

section \<open>Bytes, characters, 16-bit big-endian integers\<close>

text \<open>\<open>reinterpret_cast<const char*>\<close> and back.\<close>

definition byte_char :: "byte \<Rightarrow> char" where
  "byte_char b = char_of (unat b)"

definition char_byte :: "char \<Rightarrow> byte" where
  "char_byte c = of_char c"

definition bytes_string :: "bytes \<Rightarrow> string" where
  "bytes_string bs = map byte_char bs"

definition string_bytes :: "string \<Rightarrow> bytes" where
  "string_bytes s = map char_byte s"

lemma unat_char_byte: "unat (char_byte c) = of_char c"
proof -
  have "(of_char c :: nat) < 2 ^ 8"
    by simp
  moreover have "char_byte c = of_nat (of_char c)"
    by (simp add: char_byte_def of_char_def)
  ultimately show ?thesis
    by (simp add: unat_of_nat take_bit_nat_eq_self)
qed

lemma byte_char_char_byte [simp, byte_simps]: "byte_char (char_byte c) = c"
  by (simp add: byte_char_def unat_char_byte)

lemma unat_byte_less: "unat (b :: byte) < 256"
  using unsigned_less[of b, where ?'a = nat] by simp

lemma char_byte_byte_char [simp, byte_simps]: "char_byte (byte_char b) = b"
  using unat_byte_less[of b] by (simp add: word_unat_eq_iff unat_char_byte byte_char_def)

lemma bytes_string_bytes [simp, byte_simps]: "bytes_string (string_bytes s) = s"
  by (induction s) (simp_all add: bytes_string_def string_bytes_def)

lemma string_bytes_string [simp, byte_simps]: "string_bytes (bytes_string b) = b"
  by (induction b) (simp_all add: bytes_string_def string_bytes_def)

lemma length_bytes_string [simp]: "length (bytes_string b) = length b"
  by (simp add: bytes_string_def)

lemma length_string_bytes [simp]: "length (string_bytes s) = length s"
  by (simp add: string_bytes_def)

text \<open>
  The two bytes of a \<open>uint16_t\<close>, \<open>(x >> 8) & 0xFF\<close> and \<open>x & 0xFF\<close>, and the value read
  back from them, \<open>(static_cast<uint16_t>(hi) << 8) | static_cast<uint16_t>(lo)\<close>.
\<close>

definition hi8 :: "16 word \<Rightarrow> byte" where
  "hi8 x = ucast (drop_bit 8 x AND 0xFF)"

definition lo8 :: "16 word \<Rightarrow> byte" where
  "lo8 x = ucast (x AND 0xFF)"

definition be16 :: "byte \<Rightarrow> byte \<Rightarrow> 16 word" where
  "be16 h l = push_bit 8 (ucast h) OR ucast l"

lemma mask8_16: "(0xFF :: 16 word) = mask 8"
  by (simp add: mask_eq_exp_minus_1)

lemma hi8_be16 [simp, byte_simps]: "hi8 (be16 h l) = h"
  unfolding hi8_def be16_def mask8_16
  by (rule bit_word_eqI) (auto simp: bit_simps dest: bit_imp_le_length)

lemma lo8_be16 [simp, byte_simps]: "lo8 (be16 h l) = l"
  unfolding lo8_def be16_def mask8_16
  by (rule bit_word_eqI) (auto simp: bit_simps dest: bit_imp_le_length)

lemma be16_hi8_lo8 [simp, byte_simps]: "be16 (hi8 x) (lo8 x) = x"
  unfolding hi8_def lo8_def be16_def mask8_16
  by (rule bit_word_eqI) (auto simp: bit_simps)

lemma unat_be16: "unat (be16 h l) = 256 * unat h + unat l"
proof -
  have disj: "push_bit 8 (ucast h :: 16 word) AND ucast l = 0"
    by (rule bit_word_eqI) (auto simp: bit_simps dest: bit_imp_le_length)
  have h: "unat h < 256" and l: "unat l < 256"
    by (rule unat_byte_less)+
  have "be16 h l = push_bit 8 (ucast h) + ucast l"
    using disj by (simp add: be16_def disjunctive_add_eq_or)
  moreover have "unat (ucast h :: 16 word) = unat h" and "unat (ucast l :: 16 word) = unat l"
    using h l by (simp_all add: unsigned_ucast_eq take_bit_eq_mod)
  ultimately show ?thesis
    using h l
    by (simp add: unat_word_ariths push_bit_eq_mult mult.commute)
qed

lemma be16_eq_zero_iff [simp]: "be16 h l = 0 \<longleftrightarrow> h = 0 \<and> l = 0"
proof
  assume "be16 h l = 0"
  then have "256 * unat h + unat l = 0"
    by (metis unat_be16 unsigned_0)
  then show "h = 0 \<and> l = 0"
    by (simp add: word_unat_eq_iff)
qed (simp add: be16_def)

section \<open>Lists\<close>

lemma take_eq_append: "length xs = n \<Longrightarrow> take n (xs @ ys) = xs"
  by simp

lemma drop_eq_append: "length xs = n \<Longrightarrow> drop n (xs @ ys) = ys"
  by simp

text \<open>A separator determines the split, from the front and from the back.\<close>

lemma split_first:
  "a @ c # r = b @ c # s \<Longrightarrow> c \<notin> set a \<Longrightarrow> c \<notin> set b \<Longrightarrow> a = b \<and> r = s"
proof (induction a arbitrary: b)
  case Nil
  then show ?case by (cases b) auto
next
  case (Cons x a)
  then show ?case by (cases b) auto
qed

lemma split_last:
  assumes "a @ c # r = b @ c # s" and "c \<notin> set r" and "c \<notin> set s"
  shows "a = b \<and> r = s"
proof -
  from arg_cong [OF assms(1), of rev] have "rev r @ c # rev a = rev s @ c # rev b"
    by simp
  with split_first [of "rev r" c "rev a" "rev s" "rev b"] assms show ?thesis
    by simp
qed

section \<open>Decimal numerals\<close>

text \<open>\<open>std::to_string\<close> and \<open>operator<<\<close> of a non-negative integer, and of any integer.\<close>

definition dec_digit :: "nat \<Rightarrow> char" where
  "dec_digit d = char_of (48 + d)"

fun dec_nat :: "nat \<Rightarrow> string" where
  "dec_nat n = (if n < 10 then [dec_digit n] else dec_nat (n div 10) @ [dec_digit (n mod 10)])"

declare dec_nat.simps [simp del]

definition dec_int :: "int \<Rightarrow> string" where
  "dec_int i = (if i < 0 then CHR ''-'' # dec_nat (nat (- i)) else dec_nat (nat i))"

definition is_digit :: "char \<Rightarrow> bool" where
  "is_digit c \<longleftrightarrow> 48 \<le> (of_char c :: nat) \<and> (of_char c :: nat) \<le> 57"

definition digit_val :: "char \<Rightarrow> nat" where
  "digit_val c = of_char c - 48"

definition undec :: "string \<Rightarrow> nat" where
  "undec s = foldl (\<lambda>a c. 10 * a + digit_val c) 0 s"

lemma is_digit_dec_digit [simp]: "d < 10 \<Longrightarrow> is_digit (dec_digit d)"
  by (simp add: is_digit_def dec_digit_def)

lemma digit_val_dec_digit [simp]: "d < 10 \<Longrightarrow> digit_val (dec_digit d) = d"
  by (simp add: digit_val_def dec_digit_def)

lemma dec_nat_nonempty [simp]: "dec_nat n \<noteq> []"
  by (subst dec_nat.simps) simp

lemma dec_nat_digits: "c \<in> set (dec_nat n) \<Longrightarrow> is_digit c"
proof (induction n rule: dec_nat.induct)
  case (1 n)
  then show ?case
    by (subst (asm) (2) dec_nat.simps) (auto split: if_splits)
qed

lemma dec_nat_no [simp]: "\<not> is_digit c \<Longrightarrow> c \<notin> set (dec_nat n)"
  using dec_nat_digits by blast

lemma not_digit [simp]: "\<not> is_digit CHR ''.''" "\<not> is_digit CHR '':''" "\<not> is_digit CHR ''|''"
  by (simp_all add: is_digit_def)

lemma undec_dec_nat [simp]: "undec (dec_nat n) = n"
proof (induction n rule: dec_nat.induct)
  case (1 n)
  show ?case
  proof (cases "n < 10")
    case True
    then show ?thesis by (simp add: dec_nat.simps [of n] undec_def)
  next
    case False
    with 1 show ?thesis by (simp add: dec_nat.simps [of n] undec_def)
  qed
qed

lemma dec_nat_inject [simp]: "dec_nat m = dec_nat n \<longleftrightarrow> m = n"
  by (metis undec_dec_nat)

section \<open>Exceptions and coroutine results\<close>

text \<open>\<open>std::runtime_error\<close> with its message is the only exception the sources throw.\<close>

datatype exn = RuntimeError string

type_synonym ('s, 'a) co = "'s \<Rightarrow> ((exn + 'a) \<times> 's) option"

definition co_return :: "'a \<Rightarrow> ('s, 'a) co" where
  "co_return a s = Some (Inr a, s)"

definition co_throw :: "string \<Rightarrow> ('s, 'a) co" where
  "co_throw msg s = Some (Inl (RuntimeError msg), s)"

text \<open>\<open>co_await\<close> of one coroutine inside another: a suspension or an exception propagates.\<close>

definition co_bind :: "('s, 'a) co \<Rightarrow> ('a \<Rightarrow> ('s, 'b) co) \<Rightarrow> ('s, 'b) co" where
  "co_bind m f s =
     (case m s of
        None \<Rightarrow> None
      | Some (r, s') \<Rightarrow> (case r of Inl e \<Rightarrow> Some (Inl e, s') | Inr a \<Rightarrow> f a s'))"

definition co_get :: "('s \<Rightarrow> 'a) \<Rightarrow> ('s, 'a) co" where
  "co_get f s = Some (Inr (f s), s)"

definition co_modify :: "('s \<Rightarrow> 's) \<Rightarrow> ('s, unit) co" where
  "co_modify f s = Some (Inr (), f s)"

lemma co_return_eval [simp, co_simps]: "co_return a s = Some (Inr a, s)"
  by (simp add: co_return_def)

lemma co_throw_eval [simp, co_simps]: "co_throw msg s = Some (Inl (RuntimeError msg), s)"
  by (simp add: co_throw_def)

lemma co_get_eval [simp, co_simps]: "co_get f s = Some (Inr (f s), s)"
  by (simp add: co_get_def)

lemma co_modify_eval [simp, co_simps]: "co_modify f s = Some (Inr (), f s)"
  by (simp add: co_modify_def)

lemma co_bind_None [co_simps]: "m s = None \<Longrightarrow> co_bind m f s = None"
  by (simp add: co_bind_def)

lemma co_bind_Inl [co_simps]: "m s = Some (Inl e, s') \<Longrightarrow> co_bind m f s = Some (Inl e, s')"
  by (simp add: co_bind_def)

lemma co_bind_Inr [co_simps]: "m s = Some (Inr a, s') \<Longrightarrow> co_bind m f s = f a s'"
  by (simp add: co_bind_def)

lemma co_bind_return [simp]: "co_bind (co_return a) f = f a"
  by (rule ext) (simp add: co_bind_def)

lemma co_bind_throw [simp]: "co_bind (co_throw msg) f = co_throw msg"
  by (rule ext) (simp add: co_bind_def co_throw_def)

lemma co_bind_assoc: "co_bind (co_bind m f) g = co_bind m (\<lambda>a. co_bind (f a) g)"
  by (rule ext) (auto simp: co_bind_def split: option.splits sum.splits)

text \<open>How a coroutine that returned a value got there.\<close>

lemma co_bind_Inr_E:
  assumes "co_bind m f s = Some (Inr b, s'')"
  obtains a s' where "m s = Some (Inr a, s')" and "f a s' = Some (Inr b, s'')"
  using assms by (auto simp: co_bind_def split: option.splits sum.splits)

text \<open>Partial correctness of the returned value, whatever the state: the rules of the combinators.\<close>

definition co_yields :: "('s, 'a) co \<Rightarrow> ('a \<Rightarrow> bool) \<Rightarrow> bool" where
  "co_yields m P \<longleftrightarrow> (\<forall>s a s'. m s = Some (Inr a, s') \<longrightarrow> P a)"

named_theorems co_yields_intros \<open>introduction rules for co_yields\<close>

lemma co_yieldsD: "co_yields m P \<Longrightarrow> m s = Some (Inr a, s') \<Longrightarrow> P a"
  by (auto simp: co_yields_def)

lemma co_yieldsI: "(\<And>s a s'. m s = Some (Inr a, s') \<Longrightarrow> P a) \<Longrightarrow> co_yields m P"
  by (auto simp: co_yields_def)

lemma co_yields_return [co_yields_intros]: "P a \<Longrightarrow> co_yields (co_return a) P"
  by (simp add: co_yields_def)

lemma co_yields_throw [co_yields_intros]: "co_yields (co_throw msg) P"
  by (simp add: co_yields_def)

lemma co_yields_if [co_yields_intros]:
  "(c \<Longrightarrow> co_yields m P) \<Longrightarrow> (\<not> c \<Longrightarrow> co_yields k P) \<Longrightarrow> co_yields (if c then m else k) P"
  by simp

lemma co_yields_bind:
  assumes "co_yields m Q" and "\<And>a. Q a \<Longrightarrow> co_yields (f a) P"
  shows "co_yields (co_bind m f) P"
  by (rule co_yieldsI, erule co_bind_Inr_E)
    (rule co_yieldsD [OF assms(2) [OF co_yieldsD [OF assms(1)]]])

lemma co_yields_mono: "co_yields m Q \<Longrightarrow> (\<And>a. Q a \<Longrightarrow> P a) \<Longrightarrow> co_yields m P"
  by (auto simp: co_yields_def)

text \<open>Coroutines that always finish.\<close>

definition co_total :: "('s, 'a) co \<Rightarrow> bool" where
  "co_total m \<longleftrightarrow> (\<forall>s. m s \<noteq> None)"

named_theorems co_total_intros \<open>introduction rules for co_total\<close>

lemma co_totalD: "co_total m \<Longrightarrow> m s \<noteq> None"
  by (simp add: co_total_def)

lemma co_total_return [co_total_intros]: "co_total (co_return a)"
  by (simp add: co_total_def)

lemma co_total_throw [co_total_intros]: "co_total (co_throw msg)"
  by (simp add: co_total_def)

lemma co_total_if [co_total_intros]:
  "(c \<Longrightarrow> co_total m) \<Longrightarrow> (\<not> c \<Longrightarrow> co_total k) \<Longrightarrow> co_total (if c then m else k)"
  by simp

lemma co_total_bind [co_total_intros]:
  "co_total m \<Longrightarrow> (\<And>a. co_total (f a)) \<Longrightarrow> co_total (co_bind m f)"
  by (auto simp: co_total_def co_bind_def split: option.split sum.split)

text \<open>Monotonicity, so that the loops of the sources can be defined through \<open>co_bind\<close>.\<close>

lemma co_bind_mono [partial_function_mono]:
  assumes "\<And>s. mono_option (\<lambda>f. B f s)" and "\<And>a s. mono_option (\<lambda>f. C f a s)"
  shows "mono_option (\<lambda>f. co_bind (B f) (C f) s)"
proof -
  have eq: "co_bind m k s =
      Option.bind (m s) (\<lambda>(r, s'). case r of Inl e \<Rightarrow> Some (Inl e, s') | Inr a \<Rightarrow> k a s')"
    for m :: "('x, 'y) co" and k :: "'y \<Rightarrow> ('x, 'z) co" and s
    by (simp add: co_bind_def split: option.split)
  show ?thesis
    unfolding eq
  proof (rule bind_mono [OF assms(1)])
    fix y
    show "mono_option (\<lambda>f. case y of (Inl e, s') \<Rightarrow> Some (Inl e, s') | (Inr a, s') \<Rightarrow> C f a s')"
      by (cases y; cases "fst y") (auto intro: assms(2) option.const_mono)
  qed
qed

end
