(* ===== verification/Streams.thy ===== *)
theory Streams
  imports Vless_Prelude
begin

text \<open>
  The byte streams: \<open>RecvResult\<close> (include/coro/uring_awaitable.h), the \<open>net::Stream\<close>
  interface (include/net/stream.h), \<open>AsyncStream\<close> (src/coro/async_stream.cpp),
  \<open>copyStream\<close> (include/coro/async_stream.h) and \<open>UringBufferedStream\<close>
  (src/coro/buffered_stream.cpp).

  The kernel is an explicit script: for every fd the completions its receive and send
  operations will get, in order. An operation whose completion is not in the script stays
  suspended (\<open>None\<close>).

  Two interfaces are locales: \<open>stream_reader\<close> (what \<open>Stream::read\<close> promises) and
  \<open>byte_source\<close> (what \<open>BufferedStream::read\<close> promises to the protocol parsers).
  \<open>byte_source\<close> carries the simulation argument by which a parser over any buffered
  stream behaves as the same parser over the plain byte list that is still to come.
\<close>

section \<open>Receive results\<close>

record recv_result =
  rr_data :: bytes
  rr_result :: int

definition rr_eof :: "recv_result \<Rightarrow> bool" where
  "rr_eof r \<longleftrightarrow> rr_result r = 0"

definition rr_error :: "recv_result \<Rightarrow> bool" where
  "rr_error r \<longleftrightarrow> rr_result r < 0"

definition rr_ok :: "recv_result \<Rightarrow> bool" where
  "rr_ok r \<longleftrightarrow> rr_result r > 0"

lemmas rr_defs = rr_eof_def rr_error_def rr_ok_def

lemma rr_trichotomy: "\<not> rr_eof r \<Longrightarrow> \<not> rr_error r \<Longrightarrow> rr_ok r"
  by (auto simp: rr_defs)

text \<open>
  A completion of a receive: the CQE's \<open>res\<close> and what the kernel wrote to the buffer.
  \<open>RecvOp::complete\<close> copies the first \<open>res\<close> bytes of the buffer when \<open>res > 0\<close>.
\<close>

type_synonym recv_cqe = "int \<times> bytes"

definition recv_complete :: "recv_cqe \<Rightarrow> recv_result" where
  "recv_complete c = (case c of (res, buf) \<Rightarrow>
     \<lparr>rr_data = (if res > 0 then take (nat res) buf else []), rr_result = res\<rparr>)"

lemma recv_complete_result [simp]: "rr_result (recv_complete (res, buf)) = res"
  by (simp add: recv_complete_def)

section \<open>The Stream interface\<close>

record 's stream_ops =
  st_read :: "nat \<Rightarrow> ('s, recv_result) co"
  st_writeFull :: "bytes \<Rightarrow> ('s, int) co"
  st_shutdownWrite :: "('s, int) co"

section \<open>AsyncStream over the kernel script\<close>

record net =
  rx :: "int \<Rightarrow> recv_cqe list"
  tx :: "int \<Rightarrow> int list"
  sd :: "int \<Rightarrow> int"
  sent :: "int \<Rightarrow> bytes"
  sends :: "int \<Rightarrow> bytes list"
  wr_shut :: "int \<Rightarrow> bool"

definition async_recv :: "int \<Rightarrow> nat \<Rightarrow> (net, recv_result) co" where
  "async_recv fd maxBytes w =
     (case rx w fd of
        [] \<Rightarrow> None
      | c # cs \<Rightarrow> Some (Inr (recv_complete c), w\<lparr>rx := (rx w)(fd := cs)\<rparr>))"

text \<open>
  A send that returns \<open>r > 0\<close> has handed the first \<open>r\<close> bytes to the socket;
  \<open>sends\<close> logs the sends one by one (on a UDP socket each is a datagram), \<open>sent\<close> is
  the byte stream they make.
\<close>

definition async_send :: "int \<Rightarrow> bytes \<Rightarrow> (net, int) co" where
  "async_send fd data w =
     (case tx w fd of
        [] \<Rightarrow> None
      | r # rs \<Rightarrow> Some (Inr r,
          w\<lparr>tx := (tx w)(fd := rs), sent := (sent w)(fd := sent w fd @ take (nat r) data),
            sends := (sends w)(fd := sends w fd @ (if r > 0 then [take (nat r) data] else []))\<rparr>))"

definition async_shutdown :: "int \<Rightarrow> (net, int) co" where
  "async_shutdown fd w = Some (Inr (sd w fd), w\<lparr>wr_shut := (wr_shut w)(fd := True)\<rparr>)"

text \<open>The loop of \<open>AsyncStream::writeFull\<close>, from the current \<open>offset\<close>.\<close>

function write_full_from :: "(bytes \<Rightarrow> ('s, int) co) \<Rightarrow> bytes \<Rightarrow> nat \<Rightarrow> ('s, int) co" where
  "write_full_from send data offset s =
     (if offset < length data then
        (case send (drop offset data) s of
           None \<Rightarrow> None
         | Some (Inl e, s') \<Rightarrow> Some (Inl e, s')
         | Some (Inr r, s') \<Rightarrow>
             (if r \<le> 0 then Some (Inr (if offset > 0 then int offset else r), s')
              else write_full_from send data (offset + nat r) s'))
      else Some (Inr (int (length data)), s))"
  by pat_completeness auto
termination
  by (relation "measure (\<lambda>(send, data, offset, s). length data - offset)") auto

declare write_full_from.simps [simp del]

definition async_writeFull :: "int \<Rightarrow> bytes \<Rightarrow> (net, int) co" where
  "async_writeFull fd data = write_full_from (async_send fd) data 0"

definition async_stream :: "int \<Rightarrow> net stream_ops" where
  "async_stream fd =
     \<lparr>st_read = async_recv fd, st_writeFull = async_writeFull fd,
      st_shutdownWrite = async_shutdown fd\<rparr>"

section \<open>copyStream\<close>

partial_function (option) copy_stream ::
  "'s stream_ops \<Rightarrow> 's stream_ops \<Rightarrow> ('s \<Rightarrow> bool) \<Rightarrow> 's \<Rightarrow> ((exn + bool) \<times> 's) option" where
  "copy_stream dst src stop s =
     (if stop s then Some (Inr False, s)
      else co_bind (st_read src 8192) (\<lambda>rr s.
        if rr_eof rr then
          co_bind (st_shutdownWrite dst) (\<lambda>_. co_return True) s
        else if rr_error rr then
          co_bind (st_shutdownWrite dst) (\<lambda>_. co_return False) s
        else
          co_bind (st_writeFull dst (rr_data rr)) (\<lambda>written s.
            if written \<le> 0 then Some (Inr False, s)
            else copy_stream dst src stop s) s) s)"

section \<open>UringBufferedStream\<close>

record 's ubs =
  ubs_buffer :: bytes
  ubs_consumed :: nat
  ubs_inner :: 's

definition ubs_init :: "'s \<Rightarrow> 's ubs" where
  "ubs_init s = \<lparr>ubs_buffer = [], ubs_consumed = 0, ubs_inner = s\<rparr>"

definition ubs_available :: "'s ubs \<Rightarrow> nat" where
  "ubs_available b = length (ubs_buffer b) - ubs_consumed b"

definition ubs_consume :: "nat \<Rightarrow> 's ubs \<Rightarrow> bytes \<times> 's ubs" where
  "ubs_consume n b =
     (let result = take n (drop (ubs_consumed b) (ubs_buffer b));
          b' = b\<lparr>ubs_consumed := ubs_consumed b + n\<rparr>
      in (result,
          if ubs_consumed b' = length (ubs_buffer b')
          then b'\<lparr>ubs_buffer := [], ubs_consumed := 0\<rparr> else b'))"

partial_function (option) ubs_read ::
  "(nat \<Rightarrow> ('s, recv_result) co) \<Rightarrow> nat \<Rightarrow> 's ubs \<Rightarrow> ((exn + bytes) \<times> 's ubs) option" where
  "ubs_read rd need b =
     (if ubs_available b < need then
        (case rd 8192 (ubs_inner b) of
           None \<Rightarrow> None
         | Some (r, w) \<Rightarrow>
             (case r of
                Inl e \<Rightarrow> Some (Inl e, b\<lparr>ubs_inner := w\<rparr>)
              | Inr rr \<Rightarrow>
                  (if rr_error rr \<or> rr_eof rr then
                     (let b' = b\<lparr>ubs_inner := w\<rparr> in
                      if ubs_available b' > 0 then
                        (let (out, b'') = ubs_consume (ubs_available b') b' in Some (Inr out, b''))
                      else Some (Inr [], b'))
                   else
                     ubs_read rd need
                       (b\<lparr>ubs_inner := w, ubs_buffer := ubs_buffer b @ rr_data rr\<rparr>))))
      else (let (out, b') = ubs_consume need b in Some (Inr out, b')))"

definition ubs_readByte :: "(nat \<Rightarrow> ('s, recv_result) co) \<Rightarrow> ('s ubs, byte) co" where
  "ubs_readByte rd = co_bind (ubs_read rd 1) (\<lambda>data.
     if data = [] then co_return 0 else co_return (hd data))"

definition ubs_drainRemaining :: "('s ubs, bytes) co" where
  "ubs_drainRemaining b =
     Some (Inr (drop (ubs_consumed b) (ubs_buffer b)),
       b\<lparr>ubs_consumed := length (ubs_buffer b)\<rparr>)"

text \<open>\<open>readExact\<close> of the parsers: a short read becomes the given exception.\<close>

definition read_exact :: "(nat \<Rightarrow> ('s, bytes) co) \<Rightarrow> nat \<Rightarrow> string \<Rightarrow> ('s, bytes) co" where
  "read_exact rd n err = co_bind (rd n) (\<lambda>data.
     if length data \<noteq> n then co_throw err else co_return data)"

section \<open>What the buffered stream promises\<close>

text \<open>
  The bytes a script of receive results still delivers before the first EOF or error, and
  whether there is one.
\<close>

fun ok_data :: "recv_result list \<Rightarrow> bytes" where
  "ok_data [] = []"
| "ok_data (r # rs) = (if rr_ok r then rr_data r @ ok_data rs else [])"

fun has_end :: "recv_result list \<Rightarrow> bool" where
  "has_end [] = False"
| "has_end (r # rs) = (\<not> rr_ok r \<or> has_end rs)"

definition ubs_ok :: "'s ubs \<Rightarrow> bool" where
  "ubs_ok b \<longleftrightarrow> ubs_consumed b \<le> length (ubs_buffer b)"

definition ubs_pending :: "('s \<Rightarrow> recv_result list) \<Rightarrow> 's ubs \<Rightarrow> bytes" where
  "ubs_pending script b = drop (ubs_consumed b) (ubs_buffer b) @ ok_data (script (ubs_inner b))"

definition ubs_ended :: "('s \<Rightarrow> recv_result list) \<Rightarrow> 's ubs \<Rightarrow> bool" where
  "ubs_ended script b \<longleftrightarrow> has_end (script (ubs_inner b))"

lemma ubs_ok_init [simp]: "ubs_ok (ubs_init s)"
  by (simp add: ubs_ok_def ubs_init_def)

lemma ubs_pending_init [simp]: "ubs_pending script (ubs_init s) = ok_data (script s)"
  by (simp add: ubs_pending_def ubs_init_def)

lemma ubs_consume_spec:
  assumes "ubs_ok b" and "n \<le> ubs_available b"
  obtains b' where "ubs_consume n b = (take n (ubs_pending script b), b')"
    and "ubs_pending script b' = drop n (ubs_pending script b)"
    and "ubs_ok b'" and "ubs_inner b' = ubs_inner b"
proof -
  let ?b' = "snd (ubs_consume n b)"
  have "ubs_consume n b = (take n (ubs_pending script b), ?b')"
    using assms
    by (simp add: ubs_consume_def ubs_pending_def ubs_available_def ubs_ok_def Let_def)
  moreover have "ubs_pending script ?b' = drop n (ubs_pending script b)"
    using assms
    by (auto simp: ubs_consume_def ubs_pending_def ubs_available_def ubs_ok_def Let_def add.commute)
  moreover have "ubs_ok ?b'" and "ubs_inner ?b' = ubs_inner b"
    using assms by (auto simp: ubs_consume_def ubs_available_def ubs_ok_def Let_def)
  ultimately show thesis
    by (rule that)
qed

text \<open>\<open>Stream::read\<close> delivers a script of results one by one and suspends at its end.\<close>

locale stream_reader =
  fixes rd :: "nat \<Rightarrow> ('s, recv_result) co"
    and script :: "'s \<Rightarrow> recv_result list"
  assumes read_nil: "script s = [] \<Longrightarrow> rd n s = None"
    and read_cons: "script s = r # rs \<Longrightarrow> \<exists>s'. rd n s = Some (Inr r, s') \<and> script s' = rs"
begin

lemma read_consE:
  assumes "script s = r # rs"
  obtains s' where "rd n s = Some (Inr r, s')" and "script s' = rs"
  using read_cons [OF assms] by blast

lemma ubs_read_enough:
  assumes "ubs_ok b" and "n \<le> length (ubs_pending script b)"
  shows "\<exists>b'. ubs_read rd n b = Some (Inr (take n (ubs_pending script b)), b') \<and>
           ubs_pending script b' = drop n (ubs_pending script b) \<and> ubs_ok b' \<and>
           ubs_ended script b' = ubs_ended script b"
  using assms
proof (induction "script (ubs_inner b)" arbitrary: b)
  case Nil
  then have av: "n \<le> ubs_available b"
    by (simp add: ubs_pending_def ubs_available_def flip: Nil(1))
  obtain b' where b': "ubs_consume n b = (take n (ubs_pending script b), b')"
    "ubs_pending script b' = drop n (ubs_pending script b)"
    "ubs_ok b'" "ubs_inner b' = ubs_inner b"
    by (rule ubs_consume_spec [OF Nil(2) av, of script])
  with av show ?case
    by (simp add: ubs_read.simps [of rd n b] ubs_ended_def)
next
  case (Cons r rs)
  show ?case
  proof (cases "ubs_available b < n")
    case False
    then have av: "n \<le> ubs_available b" by simp
    obtain b' where b': "ubs_consume n b = (take n (ubs_pending script b), b')"
      "ubs_pending script b' = drop n (ubs_pending script b)"
      "ubs_ok b'" "ubs_inner b' = ubs_inner b"
      by (rule ubs_consume_spec [OF Cons.prems(1) av, of script])
    with av show ?thesis
      by (simp add: ubs_read.simps [of rd n b] ubs_ended_def)
  next
    case True
    have ok: "rr_ok r"
      using Cons.prems True
      by (auto simp: ubs_pending_def ubs_available_def ubs_ok_def simp flip: Cons.hyps(2) split: if_splits)
    from Cons.hyps(2) obtain w where w: "rd 8192 (ubs_inner b) = Some (Inr r, w)" "script w = rs"
      by (metis read_consE)
    let ?b = "b\<lparr>ubs_inner := w, ubs_buffer := ubs_buffer b @ rr_data r\<rparr>"
    have pend: "ubs_pending script ?b = ubs_pending script b"
      using Cons.prems(1) ok w
      by (simp add: ubs_pending_def ubs_ok_def flip: Cons.hyps(2))
    have ended: "ubs_ended script ?b = ubs_ended script b"
      using ok w by (simp add: ubs_ended_def flip: Cons.hyps(2))
    have "ubs_ok ?b"
      using Cons.prems(1) by (simp add: ubs_ok_def)
    with Cons.hyps(1) [of ?b] Cons.prems(2) w pend ended ok True show ?thesis
      by (simp add: ubs_read.simps [of rd n b] rr_defs)
  qed
qed

lemma ubs_read_short:
  assumes "ubs_ok b" and "length (ubs_pending script b) < n"
  shows "if ubs_ended script b
         then \<exists>b'. ubs_read rd n b = Some (Inr (ubs_pending script b), b')
         else ubs_read rd n b = None"
  using assms
proof (induction "script (ubs_inner b)" arbitrary: b)
  case Nil
  then have "ubs_available b < n"
    by (simp add: ubs_pending_def ubs_available_def flip: Nil(1))
  with Nil show ?case
    by (simp add: ubs_read.simps [of rd n b] ubs_ended_def read_nil flip: Nil(1))
next
  case (Cons r rs)
  have av: "ubs_available b < n"
    using Cons.prems by (simp add: ubs_pending_def ubs_available_def)
  from Cons.hyps(2) obtain w where w: "rd 8192 (ubs_inner b) = Some (Inr r, w)" "script w = rs"
    by (metis read_consE)
  show ?case
  proof (cases "rr_ok r")
    case False
    have "ubs_pending script b = drop (ubs_consumed b) (ubs_buffer b)"
      using False by (simp add: ubs_pending_def flip: Cons.hyps(2))
    moreover have "rr_error r \<or> rr_eof r"
      using False rr_trichotomy by blast
    ultimately show ?thesis
      using False av w Cons.prems(1)
      by (auto simp: ubs_read.simps [of rd n b] ubs_ended_def ubs_consume_def ubs_available_def
          ubs_ok_def Let_def simp flip: Cons.hyps(2))
  next
    case True
    let ?b = "b\<lparr>ubs_inner := w, ubs_buffer := ubs_buffer b @ rr_data r\<rparr>"
    have pend: "ubs_pending script ?b = ubs_pending script b"
      using Cons.prems(1) True w
      by (simp add: ubs_pending_def ubs_ok_def flip: Cons.hyps(2))
    have ended: "ubs_ended script ?b = ubs_ended script b"
      using True w by (simp add: ubs_ended_def flip: Cons.hyps(2))
    have "ubs_ok ?b"
      using Cons.prems(1) by (simp add: ubs_ok_def)
    with Cons.hyps(1) [of ?b] Cons.prems(2) w pend ended True av show ?thesis
      by (auto simp: ubs_read.simps [of rd n b] rr_defs split: if_splits)
  qed
qed

end

section \<open>What a protocol parser may rely on\<close>

text \<open>
  \<open>BufferedStream::read(n)\<close>: with \<open>n\<close> bytes to come it returns exactly them, however they
  are split into receives; with fewer it waits, or, when the stream has ended, returns the
  bytes that are left.
\<close>

locale byte_source =
  fixes rd :: "nat \<Rightarrow> ('s, bytes) co"
    and pending :: "'s \<Rightarrow> bytes"
    and ended :: "'s \<Rightarrow> bool"
    and ok :: "'s \<Rightarrow> bool"
  assumes rd_enough: "ok s \<Longrightarrow> n \<le> length (pending s) \<Longrightarrow>
      \<exists>s'. rd n s = Some (Inr (take n (pending s)), s') \<and> pending s' = drop n (pending s) \<and>
           ok s' \<and> ended s' = ended s"
    and rd_short: "ok s \<Longrightarrow> length (pending s) < n \<Longrightarrow>
      if ended s then \<exists>s'. rd n s = Some (Inr (pending s), s') else rd n s = None"

sublocale stream_reader \<subseteq> buf: byte_source
  "ubs_read rd" "ubs_pending script" "ubs_ended script" ubs_ok
  by unfold_locales (use ubs_read_enough ubs_read_short in blast)+

interpretation async_rd: stream_reader "async_recv fd" "\<lambda>w. map recv_complete (rx w fd)"
  for fd :: int
  by unfold_locales (auto simp: async_recv_def)

text \<open>The plain byte list as a buffered stream that has received everything and then EOF.\<close>

definition list_rd :: "nat \<Rightarrow> (bytes, bytes) co" where
  "list_rd n bs = Some (Inr (take n bs), drop n bs)"

text \<open>
  A coroutine over a buffered stream simulates one over a byte list: the same value and the
  same bytes left, or the same exception, where the former may stay suspended when the
  stream has not ended.
\<close>

context byte_source
begin

definition sim :: "('s, 'a) co \<Rightarrow> (bytes, 'a) co \<Rightarrow> bool" where
  "sim m m' \<longleftrightarrow> (\<forall>s. ok s \<longrightarrow>
     (\<forall>a bs. m' (pending s) = Some (Inr a, bs) \<longrightarrow>
        (\<exists>s'. m s = Some (Inr a, s') \<and> pending s' = bs \<and> ok s' \<and> ended s' = ended s)) \<and>
     (\<forall>e bs. m' (pending s) = Some (Inl e, bs) \<longrightarrow>
        (\<exists>s'. m s = Some (Inl e, s')) \<or> (\<not> ended s \<and> m s = None)))"

lemma simI:
  assumes "\<And>s a bs. ok s \<Longrightarrow> m' (pending s) = Some (Inr a, bs) \<Longrightarrow>
      \<exists>s'. m s = Some (Inr a, s') \<and> pending s' = bs \<and> ok s' \<and> ended s' = ended s"
    and "\<And>s e bs. ok s \<Longrightarrow> m' (pending s) = Some (Inl e, bs) \<Longrightarrow>
      (\<exists>s'. m s = Some (Inl e, s')) \<or> (\<not> ended s \<and> m s = None)"
  shows "sim m m'"
  using assms by (auto simp: sim_def)

lemma sim_Inr:
  assumes "sim m m'" and "ok s" and "m' (pending s) = Some (Inr a, bs)"
  shows "\<exists>s'. m s = Some (Inr a, s') \<and> pending s' = bs \<and> ok s' \<and> ended s' = ended s"
  using assms by (auto simp: sim_def)

lemma sim_Inl:
  assumes "sim m m'" and "ok s" and "m' (pending s) = Some (Inl e, bs)"
  shows "(\<exists>s'. m s = Some (Inl e, s')) \<or> (\<not> ended s \<and> m s = None)"
  using assms by (auto simp: sim_def)

lemma sim_return [intro]: "sim (co_return a) (co_return a)"
  by (rule simI) auto

lemma sim_throw [intro]: "sim (co_throw msg) (co_throw msg)"
  by (rule simI) auto

lemma sim_read_exact [intro]: "sim (read_exact rd n err) (read_exact list_rd n err)"
proof (rule simI)
  fix s a bs
  assume ok: "ok s" and "read_exact list_rd n err (pending s) = Some (Inr a, bs)"
  then have n: "n \<le> length (pending s)" and "a = take n (pending s)" "bs = drop n (pending s)"
    by (auto simp: read_exact_def list_rd_def co_bind_def split: if_splits)
  with rd_enough [OF ok n]
  show "\<exists>s'. read_exact rd n err s = Some (Inr a, s') \<and> pending s' = bs \<and> ok s' \<and> ended s' = ended s"
    by (auto simp: read_exact_def co_bind_def)
next
  fix s e bs
  assume ok: "ok s" and "read_exact list_rd n err (pending s) = Some (Inl e, bs)"
  then have "length (pending s) < n" and "e = RuntimeError err"
    by (auto simp: read_exact_def list_rd_def co_bind_def split: if_splits)
  with rd_short [OF ok, of n]
  show "(\<exists>s'. read_exact rd n err s = Some (Inl e, s')) \<or>
    (\<not> ended s \<and> read_exact rd n err s = None)"
    by (auto simp: read_exact_def co_bind_def split: if_splits)
qed

lemma sim_bind [intro]:
  assumes m: "sim m m'" and f: "\<And>a. sim (f a) (f' a)"
  shows "sim (co_bind m f) (co_bind m' f')"
proof (rule simI)
  fix s b bs
  assume "ok s" and "co_bind m' f' (pending s) = Some (Inr b, bs)"
  then obtain a bs' where "m' (pending s) = Some (Inr a, bs')" and k: "f' a bs' = Some (Inr b, bs)"
    by (blast elim: co_bind_Inr_E)
  with sim_Inr [OF m \<open>ok s\<close>] obtain s' where
    "m s = Some (Inr a, s')" "pending s' = bs'" "ok s'" "ended s' = ended s"
    by blast
  with sim_Inr [OF f] k
  show "\<exists>s'. co_bind m f s = Some (Inr b, s') \<and> pending s' = bs \<and> ok s' \<and> ended s' = ended s"
    by (metis co_bind_Inr)
next
  fix s e bs
  assume ok: "ok s" and run: "co_bind m' f' (pending s) = Some (Inl e, bs)"
  then consider "m' (pending s) = Some (Inl e, bs)"
    | a bs' where "m' (pending s) = Some (Inr a, bs')" "f' a bs' = Some (Inl e, bs)"
    by (auto simp: co_bind_def split: option.splits sum.splits)
  then show "(\<exists>s'. co_bind m f s = Some (Inl e, s')) \<or> (\<not> ended s \<and> co_bind m f s = None)"
  proof cases
    case 1
    with sim_Inl [OF m ok] show ?thesis
      by (auto simp: co_bind_def)
  next
    case (2 a bs')
    with sim_Inr [OF m ok] obtain s' where
      "m s = Some (Inr a, s')" "pending s' = bs'" "ok s'" "ended s' = ended s"
      by blast
    with 2 sim_Inl [OF f, of s' a] show ?thesis
      by (simp add: co_bind_def)
  qed
qed

lemma sim_if [intro]: "sim m m' \<Longrightarrow> sim k k' \<Longrightarrow> sim (if c then m else k) (if c then m' else k')"
  by simp

text \<open>On an ended stream the outcome is that of the byte list.\<close>

lemma sim_outcome:
  assumes "sim m m'" and "ok s" and "ended s" and "m' (pending s) \<noteq> None"
  shows "map_option fst (m s) = map_option fst (m' (pending s))"
proof -
  from assms(4) obtain r bs where r: "m' (pending s) = Some (r, bs)" by auto
  with sim_Inr [OF assms(1,2)] sim_Inl [OF assms(1,2)] assms(3) show ?thesis
    by (cases r) fastforce+
qed

text \<open>Conversely, a value that came out is the one the byte list gives.\<close>

lemma sim_value:
  assumes "sim m m'" and "ok s" and "m' (pending s) \<noteq> None" and "m s = Some (Inr a, s')"
  shows "m' (pending s) = Some (Inr a, pending s')"
proof -
  from assms(3) obtain r bs where r: "m' (pending s) = Some (r, bs)"
    by auto
  show ?thesis
  proof (cases r)
    case (Inl e)
    with r sim_Inl [OF assms(1,2)] assms(4) show ?thesis by fastforce
  next
    case (Inr b)
    with r sim_Inr [OF assms(1,2)] assms(4) show ?thesis by fastforce
  qed
qed

end

text \<open>The byte list satisfies the promise itself.\<close>

interpretation list_source: byte_source list_rd "\<lambda>bs. bs" "\<lambda>_. True" "\<lambda>_. True"
  by unfold_locales (auto simp: list_rd_def)

lemma read_exact_list:
  "read_exact list_rd n err bs =
     (if n \<le> length bs then Some (Inr (take n bs), drop n bs)
      else Some (Inl (RuntimeError err), drop n bs))"
  by (simp add: read_exact_def list_rd_def co_bind_def)

lemma read_exact_append [co_simps]:
  "length xs = n \<Longrightarrow> read_exact list_rd n err (xs @ ys) = Some (Inr xs, ys)"
  by (simp add: read_exact_list)

lemma read_exact_Cons [co_simps]:
  "read_exact list_rd 1 err (b # bs) = Some (Inr [b], bs)"
  "read_exact list_rd (Suc 0) err (b # bs) = Some (Inr [b], bs)"
  by (simp_all add: read_exact_list)

lemma read_exact_list_total [co_total_intros]: "co_total (read_exact list_rd n err)"
  by (simp add: co_total_def read_exact_list)

end
