(* ===== verification/Sys_Interface.thy ===== *)
theory Sys_Interface
  imports Streams
begin

text \<open>
  What server and client see of the system beside the streams: socket addresses, and the calls
  that end a descriptor's life, which the models log in order. \<open>CancelFd\<close> is
  \<open>PendingUringOps::cancelFd\<close>.
\<close>

datatype sockaddr = SockaddrIn bytes "16 word" | SockaddrIn6 bytes "16 word" | SockaddrOther int

datatype syscall = CloseFd int | ShutdownFd int | CancelFd int

section \<open>Running on a part of a state\<close>

text \<open>
  The objects of the program hold their streams and the network behind them as a part of their
  state. \<open>embed\<close> runs a coroutine on such a part; the locale \<open>part\<close> states the laws of its
  selection and update.
\<close>

definition embed :: "('s \<Rightarrow> 'w) \<Rightarrow> ('w \<Rightarrow> 's \<Rightarrow> 's) \<Rightarrow> ('w, 'a) co \<Rightarrow> ('s, 'a) co" where
  "embed get put m s = (case m (get s) of None \<Rightarrow> None | Some (r, w) \<Rightarrow> Some (r, put w s))"

definition embed_ops :: "('s \<Rightarrow> 'w) \<Rightarrow> ('w \<Rightarrow> 's \<Rightarrow> 's) \<Rightarrow> 'w stream_ops \<Rightarrow> 's stream_ops" where
  "embed_ops get put ops = \<lparr>st_read = (\<lambda>n. embed get put (st_read ops n)),
     st_writeFull = (\<lambda>d. embed get put (st_writeFull ops d)), st_shutdownWrite = embed get put (st_shutdownWrite ops)\<rparr>"

lemma embed_ops_simps [simp]:
  "st_read (embed_ops get put ops) n = embed get put (st_read ops n)"
  "st_writeFull (embed_ops get put ops) d = embed get put (st_writeFull ops d)"
  "st_shutdownWrite (embed_ops get put ops) = embed get put (st_shutdownWrite ops)"
  by (simp_all add: embed_ops_def)

lemma embed_eval: "m (get s) = Some (r, w) \<Longrightarrow> embed get put m s = Some (r, put w s)"
  by (simp add: embed_def)

locale part =
  fixes get :: "'s \<Rightarrow> 'w"
    and put :: "'w \<Rightarrow> 's \<Rightarrow> 's"
  assumes get_put: "get (put w s) = w"
    and put_put: "put w (put w' s) = put w s"
    and put_get: "put (get s) s = s"
begin

lemma embed_return: "embed get put (co_return a) = co_return a"
  by (rule ext) (simp add: embed_def put_get)

lemma embed_bind: "embed get put (co_bind m f) = co_bind (embed get put m) (\<lambda>a. embed get put (f a))"
  by (rule ext) (auto simp: embed_def co_bind_def get_put put_put split: option.splits sum.splits)

text \<open>As long as nobody sets the flag, \<open>copyStream\<close> in the object is \<open>copyStream\<close> on its part.\<close>

lemma copy_stream_embed:
  assumes "copy_stream dst src (\<lambda>_. False) w = Some (r, w')" and "\<And>w. \<not> stop (put w s)"
  shows "copy_stream (embed_ops get put dst) (embed_ops get put src) stop (put w s) = Some (r, put w' s)"
proof -
  have "(\<lambda>_. False) = (\<lambda>_ :: 'w. False) \<longrightarrow>
      copy_stream (embed_ops get put dst) (embed_ops get put src) stop (put w s) = Some (fst (r, w'), put (snd (r, w')) s)"
  proof (rule copy_stream.raw_induct [where P = "\<lambda>dst src never w p. never = (\<lambda>_. False) \<longrightarrow>
        copy_stream (embed_ops get put dst) (embed_ops get put src) stop (put w s) = Some (fst p, put (snd p) s)",
        OF _ assms(1)], goal_cases)
    case (1 f dst src never w p)
    show ?case
    proof
      assume never: "never = (\<lambda>_. False)"
      from 1(2) never assms(2) show "copy_stream (embed_ops get put dst) (embed_ops get put src) stop (put w s) =
          Some (fst p, put (snd p) s)"
        by (subst copy_stream.simps)
          (auto simp: co_bind_def embed_def get_put put_put split: option.splits sum.splits if_splits dest: 1(1))
    qed
  qed
  then show ?thesis by simp
qed

end

section \<open>The network and the log\<close>

record sys =
  sys_net :: net
  sys_log :: "syscall list"

definition sys_call :: "syscall list \<Rightarrow> sys \<Rightarrow> sys" where
  "sys_call cs s = s\<lparr>sys_log := sys_log s @ cs\<rparr>"

definition sys_set_net :: "net \<Rightarrow> sys \<Rightarrow> sys" where
  "sys_set_net w s = s\<lparr>sys_net := w\<rparr>"

definition on_sys_net :: "(net, 'a) co \<Rightarrow> (sys, 'a) co" where
  "on_sys_net = embed sys_net sys_set_net"

interpretation sys_part: part sys_net sys_set_net
  by unfold_locales (simp_all add: sys_set_net_def)

lemma sys_simps [simp]:
  "sys_net (sys_call cs s) = sys_net s" "sys_log (sys_call cs s) = sys_log s @ cs"
  "sys_net (sys_set_net w s) = w" "sys_log (sys_set_net w s) = sys_log s"
  by (simp_all add: sys_call_def sys_set_net_def)

lemma on_sys_net_log: "on_sys_net m s = Some (r, s') \<Longrightarrow> sys_log s' = sys_log s"
  by (auto simp: on_sys_net_def embed_def split: option.splits)

lemma on_sys_net_eval: "m (sys_net s) = Some (r, w) \<Longrightarrow> on_sys_net m s = Some (r, sys_set_net w s)"
  by (simp add: on_sys_net_def embed_def)

text \<open>A coroutine over a buffered stream that lives only as long as the coroutine.\<close>

definition buffered :: "('s ubs, 'a) co \<Rightarrow> ('s, 'a) co" where
  "buffered m w = (case m (ubs_init w) of None \<Rightarrow> None | Some (r, b) \<Rightarrow> Some (r, ubs_inner b))"

end
