(* ===== verification/Uuid.thy ===== *)
theory Uuid
  imports Vless_Prelude
begin

text \<open>
  UUIDs and the user table: \<open>hexValue\<close>, \<open>Validator\<close> (src/proxy/vless/validator.cpp) and
  \<open>generateUuid\<close> (src/common/config.cpp). The table is used through the locale
  \<open>uuid_set\<close>: a finite set of UUIDs under insertion and membership.
\<close>

section \<open>Hexadecimal digits\<close>

definition hexValue :: "char \<Rightarrow> int" where
  "hexValue c =
     (let v = (of_char c :: int) in
      if 48 \<le> v \<and> v \<le> 57 then v - 48
      else if 97 \<le> v \<and> v \<le> 102 then 10 + (v - 97)
      else if 65 \<le> v \<and> v \<le> 70 then 10 + (v - 65)
      else -1)"

text \<open>The digits \<open>printf\<close> writes for \<open>%02x\<close>.\<close>

definition hex_digit :: "nat \<Rightarrow> char" where
  "hex_digit n = ''0123456789abcdef'' ! n"

definition hex2 :: "byte \<Rightarrow> string" where
  "hex2 b = [hex_digit (unat b div 16), hex_digit (unat b mod 16)]"

lemma hex_digit_table:
  "list_all (\<lambda>n. hexValue (hex_digit n) = int n \<and> hex_digit n \<noteq> CHR ''-'') [0..<16]"
  by code_simp

lemma hexValue_hex_digit [simp]: "n < 16 \<Longrightarrow> hexValue (hex_digit n) = int n"
  using hex_digit_table by (simp add: list_all_iff)

lemma hex_digit_not_dash [simp]: "n < 16 \<Longrightarrow> hex_digit n \<noteq> CHR ''-''"
  using hex_digit_table by (simp add: list_all_iff)

lemma hexValue_less: "hexValue c < 16"
  by (simp add: hexValue_def Let_def)

section \<open>Validator\<close>

text \<open>
  The loop of \<open>parseUuid\<close>; \<open>out\<close> is the caller's array, written also when the parse
  fails half way.
\<close>

function parse_uuid_loop :: "nat \<Rightarrow> string \<Rightarrow> bytes \<Rightarrow> bool \<times> bytes" where
  "parse_uuid_loop i compact out =
     (if i < 16 then
        (let hi = hexValue (compact ! (i * 2)); lo = hexValue (compact ! (i * 2 + 1)) in
         if hi < 0 \<or> lo < 0 then (False, out)
         else parse_uuid_loop (i + 1) compact (out[i := word_of_int (push_bit 4 hi OR lo)]))
      else (True, out))"
  by pat_completeness auto
termination
  by (relation "measure (\<lambda>(i, compact, out). 16 - i)") auto

declare parse_uuid_loop.simps [simp del]

definition uuid_compact :: "string \<Rightarrow> string" where
  "uuid_compact uuid = filter (\<lambda>c. c \<noteq> CHR ''-'') uuid"

definition parseUuid :: "string \<Rightarrow> bytes \<Rightarrow> bool \<times> bytes" where
  "parseUuid uuid out =
     (let compact = uuid_compact uuid in
      if length compact \<noteq> 32 then (False, out) else parse_uuid_loop 0 compact out)"

record validator =
  users :: "bytes list"

definition validator_init :: validator where
  "validator_init = \<lparr>users = []\<rparr>"

definition validator_add :: "bytes \<Rightarrow> validator \<Rightarrow> validator" where
  "validator_add uuid v =
     (if uuid \<in> set (users v) then v else v\<lparr>users := users v @ [uuid]\<rparr>)"

definition validator_contains :: "validator \<Rightarrow> bytes \<Rightarrow> bool" where
  "validator_contains v uuid = (uuid \<in> set (users v))"

definition validator_size :: "validator \<Rightarrow> nat" where
  "validator_size v = length (users v)"

definition addFromString :: "string \<Rightarrow> validator \<Rightarrow> bool \<times> validator" where
  "addFromString uuid v =
     (case parseUuid uuid (replicate 16 0) of
        (True, parsed) \<Rightarrow> (True, validator_add parsed v)
      | (False, _) \<Rightarrow> (False, v))"

section \<open>generateUuid\<close>

text \<open>The fallback bytes when \<open>RAND_bytes\<close> fails: those of the 64-bit seed, twice.\<close>

definition seed_bytes :: "64 word \<Rightarrow> bytes" where
  "seed_bytes seed = map (\<lambda>i. ucast (drop_bit ((i mod 8) * 8) seed AND 0xFF)) [0..<16]"

definition format_uuid :: "bytes \<Rightarrow> string" where
  "format_uuid b =
     hex2 (b ! 0) @ hex2 (b ! 1) @ hex2 (b ! 2) @ hex2 (b ! 3) @ ''-'' @
     hex2 (b ! 4) @ hex2 (b ! 5) @ ''-'' @ hex2 (b ! 6) @ hex2 (b ! 7) @ ''-'' @
     hex2 (b ! 8) @ hex2 (b ! 9) @ ''-'' @
     hex2 (b ! 10) @ hex2 (b ! 11) @ hex2 (b ! 12) @ hex2 (b ! 13) @ hex2 (b ! 14) @ hex2 (b ! 15)"

text \<open>
  \<open>rand\<close> is the outcome of \<open>RAND_bytes\<close> (16 bytes, or \<open>None\<close> for a failure), \<open>nsec\<close>
  and \<open>addr\<close> the clock and the address of the static counter; the counter is returned
  updated.
\<close>

definition uuid_bytes :: "bytes option \<Rightarrow> 64 word \<Rightarrow> 64 word \<Rightarrow> 64 word \<Rightarrow> bytes" where
  "uuid_bytes rand nsec addr counter =
     (let bytes = (case rand of Some b \<Rightarrow> b | None \<Rightarrow> seed_bytes (nsec XOR addr XOR counter));
          bytes = bytes[6 := (bytes ! 6 AND 0x0F) OR 0x40]
      in bytes[8 := (bytes ! 8 AND 0x3F) OR 0x80])"

definition generateUuid ::
    "bytes option \<Rightarrow> 64 word \<Rightarrow> 64 word \<Rightarrow> 64 word \<Rightarrow> string \<times> 64 word" where
  "generateUuid rand nsec addr counter =
     (format_uuid (uuid_bytes rand nsec addr counter),
      case rand of Some _ \<Rightarrow> counter | None \<Rightarrow> counter + 1)"

section \<open>Parsing\<close>

definition uuid_digits_ok :: "string \<Rightarrow> bool" where
  "uuid_digits_ok compact \<longleftrightarrow> (\<forall>c \<in> set compact. 0 \<le> hexValue c)"

definition uuid_byte :: "string \<Rightarrow> nat \<Rightarrow> byte" where
  "uuid_byte compact i =
     word_of_int (16 * hexValue (compact ! (2 * i)) + hexValue (compact ! (2 * i + 1)))"

lemma nibbles_or:
  assumes "0 \<le> hi" and "0 \<le> lo" and "lo < 16"
  shows "push_bit 4 hi OR lo = 16 * hi + (lo :: int)"
proof -
  have "take_bit 4 lo = lo"
    using assms by (simp add: take_bit_int_eq_self)
  then have "push_bit 4 hi AND lo = 0"
    by (intro bit_eqI) (metis bit_and_iff bit_push_bit_iff bit_take_bit_iff bit_0_eq bot_apply not_less bot_bool_def)
  then have "push_bit 4 hi OR lo = push_bit 4 hi + lo"
    by (simp add: disjunctive_add_eq_or)
  then show ?thesis
    by (simp add: push_bit_eq_mult mult.commute)
qed

lemma parse_uuid_loop_good:
  assumes "i \<le> 16" and "length out = 16" and "length compact = 32" and "uuid_digits_ok compact"
  shows "parse_uuid_loop i compact out = (True, take i out @ map (uuid_byte compact) [i..<16])"
  using assms
proof (induction i compact out rule: parse_uuid_loop.induct)
  case (1 i compact out)
  show ?case
  proof (cases "i < 16")
    case False
    with 1 show ?thesis
      by (simp add: parse_uuid_loop.simps)
  next
    case True
    let ?hi = "hexValue (compact ! (i * 2))" and ?lo = "hexValue (compact ! (i * 2 + 1))"
    have "compact ! (i * 2) \<in> set compact" and "compact ! (i * 2 + 1) \<in> set compact"
      using True 1 by simp_all
    then have ge: "0 \<le> ?hi" "0 \<le> ?lo"
      using 1 by (auto simp: uuid_digits_ok_def)
    have val: "word_of_int (push_bit 4 ?hi OR ?lo) = uuid_byte compact i"
      using ge hexValue_less by (simp add: nibbles_or uuid_byte_def mult.commute)
    have "parse_uuid_loop i compact out = parse_uuid_loop (i + 1) compact (out[i := uuid_byte compact i])"
      using True ge val by (simp add: parse_uuid_loop.simps [of i] Let_def)
    also have "\<dots> = (True, take (i + 1) (out[i := uuid_byte compact i]) @ map (uuid_byte compact) [i + 1..<16])"
      using 1 True ge val by (simp add: Let_def)
    also have "take (i + 1) (out[i := uuid_byte compact i]) = take i out @ [uuid_byte compact i]"
      using 1 True by (simp add: take_Suc_conv_app_nth)
    finally show ?thesis
      using True by (simp add: upt_conv_Cons)
  qed
qed

lemma parse_uuid_loop_bad:
  assumes "length compact = 32" and "i \<le> k" and "k < 16"
    and "hexValue (compact ! (2 * k)) < 0 \<or> hexValue (compact ! (2 * k + 1)) < 0"
  shows "\<not> fst (parse_uuid_loop i compact out)"
  using assms
proof (induction i compact out rule: parse_uuid_loop.induct)
  case (1 i compact out)
  then show ?case
    by (cases "i = k") (auto simp: parse_uuid_loop.simps [of i] parse_uuid_loop.simps [of k] Let_def mult.commute)
qed

lemma parseUuid_good:
  assumes "length (uuid_compact s) = 32" and "uuid_digits_ok (uuid_compact s)" and "length out = 16"
  shows "parseUuid s out = (True, map (uuid_byte (uuid_compact s)) [0..<16])"
  using assms by (simp add: parseUuid_def parse_uuid_loop_good)

lemma parseUuid_bad:
  assumes "\<not> (length (uuid_compact s) = 32 \<and> uuid_digits_ok (uuid_compact s))"
  shows "\<not> fst (parseUuid s out)"
proof (cases "length (uuid_compact s) = 32")
  case False
  then show ?thesis by (simp add: parseUuid_def)
next
  case True
  with assms obtain c where "c \<in> set (uuid_compact s)" "hexValue c < 0"
    by (auto simp: uuid_digits_ok_def)
  with True obtain j where j: "j < 32" "hexValue (uuid_compact s ! j) < 0"
    by (metis in_set_conv_nth)
  then have "hexValue (uuid_compact s ! (2 * (j div 2))) < 0 \<or>
      hexValue (uuid_compact s ! (2 * (j div 2) + 1)) < 0"
    by (cases "even j") (auto elim!: evenE oddE)
  with parse_uuid_loop_bad [OF True, of 0 "j div 2" out] True j show ?thesis
    by (simp add: parseUuid_def)
qed

lemma parseUuid_iff:
  "fst (parseUuid s (replicate 16 0)) \<longleftrightarrow>
     length (uuid_compact s) = 32 \<and> uuid_digits_ok (uuid_compact s)"
  using parseUuid_good [of s "replicate 16 0"] parseUuid_bad [of s "replicate 16 0"] by auto

section \<open>Printing then parsing\<close>

lemma uuid_compact_append [simp]: "uuid_compact (a @ b) = uuid_compact a @ uuid_compact b"
  by (simp add: uuid_compact_def)

lemma uuid_compact_dash [simp]: "uuid_compact (CHR ''-'' # s) = uuid_compact s"
  by (simp add: uuid_compact_def)

lemma unat_div_16 [simp]: "unat (b :: byte) div 16 < 16"
  using unat_byte_less [of b] by simp

lemma uuid_compact_hex2 [simp]: "uuid_compact (hex2 b) = hex2 b"
  by (simp add: uuid_compact_def hex2_def)

lemma list16_expand:
  assumes "length b = 16"
  shows "b = [b!0, b!1, b!2, b!3, b!4, b!5, b!6, b!7, b!8, b!9, b!10, b!11, b!12, b!13, b!14, b!15]"
  using assms by (intro nth_equalityI) (auto simp: nth_Cons numeral_eq_Suc less_Suc_eq)

lemma uuid_compact_format:
  assumes "length b = 16"
  shows "uuid_compact (format_uuid b) = concat (map hex2 b)"
proof -
  have "concat (map hex2 b) = concat (map hex2
      [b!0, b!1, b!2, b!3, b!4, b!5, b!6, b!7, b!8, b!9, b!10, b!11, b!12, b!13, b!14, b!15])"
    using list16_expand [OF assms] by simp
  then show ?thesis
    by (simp add: format_uuid_def)
qed

lemma length_concat_hex2 [simp]: "length (concat (map hex2 b)) = 2 * length b"
  by (induction b) (simp_all add: hex2_def)

lemma nth_concat_hex2:
  "i < length b \<Longrightarrow> concat (map hex2 b) ! (2 * i) = hex_digit (unat (b ! i) div 16) \<and>
     concat (map hex2 b) ! (2 * i + 1) = hex_digit (unat (b ! i) mod 16)"
proof (induction b arbitrary: i)
  case (Cons x b)
  then show ?case
    by (cases i) (auto simp: hex2_def)
qed simp

lemma uuid_digits_ok_hex2: "uuid_digits_ok (concat (map hex2 b))"
  by (auto simp: uuid_digits_ok_def hex2_def)

lemma uuid_byte_hex2: "i < length b \<Longrightarrow> uuid_byte (concat (map hex2 b)) i = b ! i"
proof -
  assume i: "i < length b"
  have "16 * int (unat (b ! i) div 16) + int (unat (b ! i) mod 16) = int (unat (b ! i))"
    by (simp flip: of_nat_mult of_nat_add add: of_nat_mult [where n = 16, symmetric] zdiv_int zmod_int)
  then show ?thesis
    using nth_concat_hex2 [OF i] by (simp add: uuid_byte_def)
qed

lemma parseUuid_format:
  assumes "length b = 16" and "length out = 16"
  shows "parseUuid (format_uuid b) out = (True, b)"
proof -
  have "map (uuid_byte (concat (map hex2 b))) [0..<16] = b"
    using assms by (intro nth_equalityI) (simp_all add: uuid_byte_hex2)
  with assms show ?thesis
    by (simp add: parseUuid_good uuid_compact_format uuid_digits_ok_hex2)
qed

section \<open>The user table as a set\<close>

locale uuid_set =
  fixes empty :: 'v
    and ins :: "bytes \<Rightarrow> 'v \<Rightarrow> 'v"
    and member :: "'v \<Rightarrow> bytes \<Rightarrow> bool"
    and elems :: "'v \<Rightarrow> bytes set"
  assumes elems_empty: "elems empty = {}"
    and elems_ins: "elems (ins u v) = insert u (elems v)"
    and member_iff: "member v u \<longleftrightarrow> u \<in> elems v"
begin

lemma elems_fold: "elems (fold ins us v) = set us \<union> elems v"
  by (induction us arbitrary: v) (auto simp: elems_ins)

lemma member_fold_empty: "member (fold ins us empty) u \<longleftrightarrow> u \<in> set us"
  by (simp add: member_iff elems_fold elems_empty)

lemma ins_member: "member v u \<Longrightarrow> elems (ins u v) = elems v"
  by (auto simp: elems_ins member_iff)

end

interpretation users_set: uuid_set validator_init validator_add validator_contains "\<lambda>v. set (users v)"
  by unfold_locales (auto simp: validator_init_def validator_add_def validator_contains_def)

text \<open>No user is stored twice.\<close>

lemma distinct_validator_add: "distinct (users v) \<Longrightarrow> distinct (users (validator_add u v))"
  by (simp add: validator_add_def)

text \<open>
  The registration loop of the server's \<open>main\<close>: every configured string that parses is
  added, the others are reported and ignored.
\<close>

fun register_users :: "string list \<Rightarrow> validator \<Rightarrow> validator \<times> string list" where
  "register_users [] v = (v, [])"
| "register_users (s # ss) v =
     (case addFromString s v of
        (True, v') \<Rightarrow> register_users ss v'
      | (False, v') \<Rightarrow> (case register_users ss v' of (v'', ignored) \<Rightarrow> (v'', s # ignored)))"

definition parses_to :: "string \<Rightarrow> bytes \<Rightarrow> bool" where
  "parses_to s u \<longleftrightarrow> parseUuid s (replicate 16 0) = (True, u)"

lemma addFromString_cases:
  "addFromString s v =
     (if fst (parseUuid s (replicate 16 0))
      then (True, validator_add (snd (parseUuid s (replicate 16 0))) v) else (False, v))"
  by (auto simp: addFromString_def split: prod.split bool.split)

lemma register_users_Cons:
  "register_users (s # ss) v =
     (if fst (parseUuid s (replicate 16 0))
      then register_users ss (validator_add (snd (parseUuid s (replicate 16 0))) v)
      else (fst (register_users ss v), s # snd (register_users ss v)))"
  by (simp add: addFromString_cases split: prod.split)

declare register_users.simps(2) [simp del]

lemma register_users_fold:
  "fst (register_users ss v) =
     fold validator_add
       (map (\<lambda>s. snd (parseUuid s (replicate 16 0)))
         (filter (\<lambda>s. fst (parseUuid s (replicate 16 0))) ss)) v"
  by (induction ss arbitrary: v) (simp_all add: register_users_Cons)

lemma register_users_ignored:
  "snd (register_users ss v) = filter (\<lambda>s. \<not> fst (parseUuid s (replicate 16 0))) ss"
  by (induction ss arbitrary: v) (simp_all add: register_users_Cons)

lemma register_users_contains:
  "validator_contains (fst (register_users ss validator_init)) u \<longleftrightarrow> (\<exists>s \<in> set ss. parses_to s u)"
  unfolding register_users_fold users_set.member_fold_empty parses_to_def
  by (auto simp: prod_eq_iff)

lemma distinct_register_users:
  "distinct (users v) \<Longrightarrow> distinct (users (fst (register_users ss v)))"
  by (induction ss arbitrary: v)
    (simp_all add: register_users_Cons distinct_validator_add)

section \<open>Generated UUIDs\<close>

lemma length_uuid_bytes [simp]:
  "rand = None \<or> (\<exists>b. rand = Some b \<and> length b = 16) \<Longrightarrow>
     length (uuid_bytes rand nsec addr counter) = 16"
  by (auto simp: uuid_bytes_def seed_bytes_def Let_def)

lemma version_nibble: "drop_bit 4 ((b AND 0x0F) OR 0x40 :: byte) = 4"
  by (rule bit_word_eqI) (auto simp: bit_simps bit_numeral_rec less_Suc_eq numeral_eq_Suc
      elim!: less_SucE)

lemma variant_bits: "drop_bit 6 ((b AND 0x3F) OR 0x80 :: byte) = 2"
  by (rule bit_word_eqI) (auto simp: bit_simps bit_numeral_rec less_Suc_eq numeral_eq_Suc
      elim!: less_SucE)

section \<open>Properties\<close>

text \<open>C16: \<open>parseUuid\<close> accepts a string exactly when, dashes removed wherever they stand, it is 32
hexadecimal digits, and then the array it fills is their 16 bytes, whatever it held before.\<close>

theorem parseUuid_correct:
  assumes "length out = 16"
  shows "parseUuid s out = (True, b) \<longleftrightarrow>
    length (uuid_compact s) = 32 \<and> uuid_digits_ok (uuid_compact s) \<and>
    b = map (uuid_byte (uuid_compact s)) [0..<16]"
proof (cases "length (uuid_compact s) = 32 \<and> uuid_digits_ok (uuid_compact s)")
  case True
  then show ?thesis using parseUuid_good [of s out] assms by auto
next
  case False
  then have "\<not> fst (parseUuid s out)" by (rule parseUuid_bad)
  with False show ?thesis by auto
qed

lemma parseUuid_correct_witness:
  "parseUuid ''00112233-4455-6677-8899-aAbBcCdDeEfF'' (replicate 16 9) =
    (True, [0x00, 0x11, 0x22, 0x33, 0x44, 0x55, 0x66, 0x77, 0x88, 0x99, 0xAA, 0xBB, 0xCC, 0xDD, 0xEE, 0xFF])"
  using parseUuid_correct [of "replicate 16 9"] by (rule iffD2) (simp, code_simp)

text \<open>A generated UUID, from random bytes or from the fallback seed, is accepted by
\<open>parseUuid\<close> with the bytes it was printed from, and those carry the RFC 4122 version 4 and
variant.\<close>

theorem generateUuid_parses:
  assumes "rand = None \<or> (\<exists>b. rand = Some b \<and> length b = 16)"
  shows "parses_to (fst (generateUuid rand nsec addr counter)) (uuid_bytes rand nsec addr counter) \<and>
    drop_bit 4 (uuid_bytes rand nsec addr counter ! 6) = 4 \<and>
    drop_bit 6 (uuid_bytes rand nsec addr counter ! 8) = 2"
proof -
  have len: "length (case rand of Some b \<Rightarrow> b | None \<Rightarrow> seed_bytes (nsec XOR addr XOR counter)) = 16"
    using assms by (auto simp: seed_bytes_def)
  then have "drop_bit 4 (uuid_bytes rand nsec addr counter ! 6) = 4"
    and "drop_bit 6 (uuid_bytes rand nsec addr counter ! 8) = 2"
    by (simp_all only: uuid_bytes_def Let_def version_nibble variant_bits nth_list_update_eq
        nth_list_update_neq length_list_update)
  moreover have "parses_to (fst (generateUuid rand nsec addr counter)) (uuid_bytes rand nsec addr counter)"
    using assms by (simp add: parses_to_def generateUuid_def parseUuid_format)
  ultimately show ?thesis by blast
qed

lemma generateUuid_parses_witness:
  "parses_to (fst (generateUuid None 1 2 3)) (uuid_bytes None 1 2 3)"
  using generateUuid_parses [of None 1 2 3] by simp

text \<open>After the registration loop the server knows exactly the UUIDs that some configured
string parses to, each once, and the strings it reports as ignored are exactly those that do not
parse.\<close>

theorem registered_users:
  "(validator_contains (fst (register_users ss validator_init)) u \<longleftrightarrow> (\<exists>s \<in> set ss. parses_to s u)) \<and>
   distinct (users (fst (register_users ss validator_init))) \<and>
   snd (register_users ss validator_init) = filter (\<lambda>s. \<forall>u. \<not> parses_to s u) ss"
proof -
  have "\<not> fst (parseUuid s (replicate 16 0)) \<longleftrightarrow> (\<forall>u. \<not> parses_to s u)" for s
    by (auto simp: parses_to_def prod_eq_iff)
  moreover have "distinct (users validator_init)"
    by (simp add: validator_init_def)
  ultimately show ?thesis
    by (simp add: register_users_contains register_users_ignored distinct_register_users)
qed

end
