(* ===== verification/Protocol.thy ===== *)
theory Protocol
  imports Streams Uuid
begin

text \<open>
  The VLESS protocol: request and response headers (include/proxy/vless/protocol.h), the
  server's \<open>Decoder\<close> (src/proxy/vless/decoder.cpp) and the client's \<open>Encoder\<close>
  (src/proxy/vless/encoder.cpp).

  The decoder takes the operation \<open>BufferedStream::read\<close> as an argument, as the C++ takes
  the abstract stream; its lemmas are proved once in the locale \<open>byte_source\<close>.
  \<open>inet_ntop\<close> is the parameter \<open>ntop6\<close>.
\<close>

section \<open>Data\<close>

datatype address = IPv4 bytes | IPv6 bytes | Domain string

fun address_ok :: "address \<Rightarrow> bool" where
  "address_ok (IPv4 ip) = (length ip = 4)"
| "address_ok (IPv6 ip) = (length ip = 16)"
| "address_ok (Domain d) = True"

text \<open>\<open>static_cast\<close> of a byte to the enum keeps values outside the enumerators.\<close>

datatype command = TCP | UDP | Mux | Rvs | OtherCommand byte

definition command_of_byte :: "byte \<Rightarrow> command" where
  "command_of_byte b =
     (if b = 1 then TCP else if b = 2 then UDP else if b = 3 then Mux else if b = 4 then Rvs
      else OtherCommand b)"

fun byte_of_command :: "command \<Rightarrow> byte" where
  "byte_of_command TCP = 1"
| "byte_of_command UDP = 2"
| "byte_of_command Mux = 3"
| "byte_of_command Rvs = 4"
| "byte_of_command (OtherCommand b) = b"

lemma command_of_byte_enum [simp]:
  "command_of_byte 1 = TCP" "command_of_byte 2 = UDP"
  "command_of_byte 3 = Mux" "command_of_byte 4 = Rvs"
  by (simp_all add: command_of_byte_def)

lemma byte_of_command_of_byte [simp]: "byte_of_command (command_of_byte b) = b"
  by (simp add: command_of_byte_def)

record request =
  req_version :: byte
  req_uuid :: bytes
  req_command :: command
  req_port :: "16 word"
  req_flow :: string
  req_encryption :: string
  req_seed :: bytes
  req_address :: address

definition request_init :: request where
  "request_init = \<lparr>req_version = 0, req_uuid = replicate 16 0, req_command = TCP, req_port = 0,
     req_flow = [], req_encryption = [], req_seed = [], req_address = IPv4 (replicate 4 0)\<rparr>"

definition isIPv4 :: "request \<Rightarrow> bool" where
  "isIPv4 r = (case req_address r of IPv4 _ \<Rightarrow> True | _ \<Rightarrow> False)"

definition isIPv6 :: "request \<Rightarrow> bool" where
  "isIPv6 r = (case req_address r of IPv6 _ \<Rightarrow> True | _ \<Rightarrow> False)"

definition isDomain :: "request \<Rightarrow> bool" where
  "isDomain r = (case req_address r of Domain _ \<Rightarrow> True | _ \<Rightarrow> False)"

definition dotted_quad :: "bytes \<Rightarrow> string" where
  "dotted_quad ip = dec_nat (unat (ip ! 0)) @ ''.'' @ dec_nat (unat (ip ! 1)) @ ''.'' @
     dec_nat (unat (ip ! 2)) @ ''.'' @ dec_nat (unat (ip ! 3))"

definition addressString :: "(bytes \<Rightarrow> string option) \<Rightarrow> request \<Rightarrow> string" where
  "addressString ntop6 r =
     (case req_address r of
        IPv4 ip \<Rightarrow> dotted_quad ip
      | IPv6 ip \<Rightarrow> (case ntop6 ip of None \<Rightarrow> ''invalid-ipv6'' | Some s \<Rightarrow> s)
      | Domain d \<Rightarrow> d)"

section \<open>Addons\<close>

text \<open>
  \<open>decodeVarint\<close>: the accumulated value is 64 bits wide, bits shifted beyond it are lost.
\<close>

function decode_varint_from ::
    "bytes \<Rightarrow> nat \<Rightarrow> nat \<Rightarrow> 64 word \<Rightarrow> exn + (64 word \<times> nat)" where
  "decode_varint_from bytes pos shift acc =
     (if pos < length bytes \<and> shift \<le> 63 then
        (let b = bytes ! pos; acc' = acc OR push_bit shift (ucast (b AND 0x7F)) in
         if b AND 0x80 = 0 then Inr (acc', pos + 1)
         else decode_varint_from bytes (pos + 1) (shift + 7) acc')
      else Inl (RuntimeError ''invalid addons varint''))"
  by pat_completeness auto
termination
  by (relation "measure (\<lambda>(bytes, pos, shift, acc). length bytes - pos)") auto

declare decode_varint_from.simps [simp del]

definition decode_varint :: "bytes \<Rightarrow> nat \<Rightarrow> exn + (64 word \<times> nat)" where
  "decode_varint bytes pos = decode_varint_from bytes pos 0 0"

lemma decode_varint_from_pos:
  "decode_varint_from bytes pos shift acc = Inr (v, pos') \<Longrightarrow> pos < pos' \<and> pos' \<le> length bytes"
proof (induction bytes pos shift acc rule: decode_varint_from.induct)
  case (1 bytes pos shift acc)
  from "1.prems" "1.IH" show ?case
    by (subst (asm) decode_varint_from.simps) (fastforce simp: Let_def split: if_splits)
qed

lemma decode_varint_pos:
  "decode_varint bytes pos = Inr (v, pos') \<Longrightarrow> pos < pos' \<and> pos' \<le> length bytes"
  unfolding decode_varint_def by (rule decode_varint_from_pos)

text \<open>The protobuf loop of \<open>parseAddons\<close>; fields 1 and 2 are flow and seed, others are skipped.\<close>

function parse_addons_from :: "bytes \<Rightarrow> nat \<Rightarrow> request \<Rightarrow> exn + request" where
  "parse_addons_from bytes pos req =
     (if pos < length bytes then
        (case decode_varint bytes pos of
           Inl e \<Rightarrow> Inl e
         | Inr (tag, pos) \<Rightarrow>
             (let fieldNum = drop_bit 3 tag; wireType = tag AND 0x07 in
              if wireType = 2 then
                (case decode_varint bytes pos of
                   Inl e \<Rightarrow> Inl e
                 | Inr (len64, pos) \<Rightarrow>
                     (if unat len64 > length bytes - pos
                      then Inl (RuntimeError ''invalid addons length-delimited field'')
                      else
                        (let len = unat len64;
                             field = take len (drop pos bytes);
                             req = (if fieldNum = 1 then req\<lparr>req_flow := bytes_string field\<rparr>
                                    else if fieldNum = 2 then req\<lparr>req_seed := field\<rparr>
                                    else req)
                         in parse_addons_from bytes (pos + len) req)))
              else if wireType = 0 then
                (case decode_varint bytes pos of
                   Inl e \<Rightarrow> Inl e
                 | Inr (_, pos) \<Rightarrow> parse_addons_from bytes pos req)
              else Inl (RuntimeError ''unsupported addons wire type'')))
      else Inr req)"
  by pat_completeness auto
termination
  by (relation "measure (\<lambda>(bytes, pos, req). length bytes - pos)")
    (auto dest!: decode_varint_pos)

declare parse_addons_from.simps [simp del]

definition lift_exn :: "exn + 'a \<Rightarrow> ('s, 'a) co" where
  "lift_exn r s = Some (r, s)"

definition parseAddons :: "(nat \<Rightarrow> ('s, bytes) co) \<Rightarrow> request \<Rightarrow> ('s, request) co" where
  "parseAddons rd req =
     co_bind (read_exact rd 1 ''failed to read addons length'') (\<lambda>lenBytes.
       let addonsLen = unat (lenBytes ! 0) in
       if addonsLen = 0 then co_return req
       else co_bind (read_exact rd addonsLen ''failed to read addons payload'') (\<lambda>addonsData.
         lift_exn (parse_addons_from addonsData 0 req)))"

section \<open>Addresses on the wire\<close>

definition readAddress :: "(nat \<Rightarrow> ('s, bytes) co) \<Rightarrow> request \<Rightarrow> ('s, request) co" where
  "readAddress rd req =
     co_bind (read_exact rd 1 ''failed to read address type'') (\<lambda>typeBytes.
       let addrType = typeBytes ! 0 in
       if addrType = 1 then
         co_bind (read_exact rd 4 ''failed to read ipv4 address'') (\<lambda>ip.
           co_return (req\<lparr>req_address := IPv4 ip\<rparr>))
       else if addrType = 2 then
         co_bind (read_exact rd 1 ''failed to read domain length'') (\<lambda>lenBytes.
           co_bind (read_exact rd (unat (lenBytes ! 0)) ''failed to read domain acc'') (\<lambda>domain.
             co_return (req\<lparr>req_address := Domain (bytes_string domain)\<rparr>)))
       else if addrType = 3 then
         co_bind (read_exact rd 16 ''failed to read ipv6 address'') (\<lambda>ip.
           co_return (req\<lparr>req_address := IPv6 ip\<rparr>))
       else co_throw ''invalid address type'')"

definition writeAddress :: "request \<Rightarrow> exn + bytes" where
  "writeAddress req =
     (case req_address req of
        IPv4 ip \<Rightarrow> Inr (1 # ip)
      | IPv6 ip \<Rightarrow> Inr (3 # ip)
      | Domain domain \<Rightarrow>
          (if length domain > 255 then Inl (RuntimeError ''domain too long for vless address'')
           else Inr (2 # of_nat (length domain) # string_bytes domain)))"

section \<open>The decoder\<close>

definition decode ::
    "(nat \<Rightarrow> ('s, bytes) co) \<Rightarrow> validator \<Rightarrow> ('s, request) co" where
  "decode rd validator =
     co_bind (read_exact rd 1 ''failed to read vless version'') (\<lambda>versionBytes.
       let req = request_init\<lparr>req_version := versionBytes ! 0\<rparr> in
       if req_version req \<noteq> 0 then co_throw ''invalid vless version''
       else co_bind (read_exact rd 16 ''failed to read vless uuid'') (\<lambda>uuidBytes.
         let req = req\<lparr>req_uuid := uuidBytes\<rparr> in
         if \<not> validator_contains validator (req_uuid req) then co_throw ''invalid vless uuid''
         else co_bind (parseAddons rd req) (\<lambda>req.
           co_bind (read_exact rd 1 ''failed to read vless command'') (\<lambda>cmdBytes.
             let req = req\<lparr>req_command := command_of_byte (cmdBytes ! 0)\<rparr> in
             (case req_command req of
                Mux \<Rightarrow> co_return (req\<lparr>req_address := Domain ''v1.mux.cool'', req_port := 0\<rparr>)
              | Rvs \<Rightarrow> co_return (req\<lparr>req_address := Domain ''v1.rvs.cool'', req_port := 0\<rparr>)
              | OtherCommand _ \<Rightarrow> co_throw ''invalid vless command''
              | _ \<Rightarrow>
                  co_bind (read_exact rd 2 ''failed to read vless port'') (\<lambda>portBytes.
                    readAddress rd (req\<lparr>req_port := be16 (portBytes ! 0) (portBytes ! 1)\<rparr>)))))))"

definition encodeResponse :: "byte \<Rightarrow> bytes" where
  "encodeResponse version = [version, 0]"

section \<open>The encoder\<close>

definition encodeRequest :: "request \<Rightarrow> exn + bytes" where
  "encodeRequest req =
     (case writeAddress req of
        Inl e \<Rightarrow> Inl e
      | Inr addr \<Rightarrow> Inr
          ([0] @ req_uuid req @ [0] @ [byte_of_command (req_command req)] @
           [hi8 (req_port req), lo8 (req_port req)] @ addr))"

definition client_encodeResponse :: "byte \<Rightarrow> bytes" where
  "client_encodeResponse version = [version, 0]"

definition decodeResponse :: "(nat \<Rightarrow> ('s, bytes) co) \<Rightarrow> ('s, bool) co" where
  "decodeResponse rd =
     co_bind (rd 2) (\<lambda>data.
       if length data \<noteq> 2 then co_return False
       else if data ! 0 \<noteq> 0 then co_return False
       else
         (let addonsLen = unat (data ! 1) in
          if addonsLen > 0 then
            co_bind (rd addonsLen) (\<lambda>addons.
              if length addons \<noteq> addonsLen then co_return False else co_return True)
          else co_return True))"

end
