(* ===== verification/Vision.thy ===== *)
theory Vision
  imports Vless_Prelude
begin

text \<open>
  The Vision padding layer (include/proxy/vless/vision.h, src/proxy/vless/vision.cpp): the
  uplink unpadding state machine \<open>VisionReader\<close>, the downlink padder \<open>VisionWriter\<close> and
  the TLS detection they share through \<open>VisionContext\<close>.

  The shared context is passed explicitly and may be absent, as the \<open>shared_ptr\<close> may be
  null. The position in a buffer is the suffix still to be read. The Mersenne twister of the
  writer is the parameter \<open>uni\<close>: \<open>uni k m\<close> is what the \<open>k\<close>-th draw of a uniform
  distribution on \<open>0..m\<close> gives; the writer's state counts the draws.
\<close>

section \<open>State\<close>

record vision_context =
  packetsToFilter :: int
  isTLS :: bool
  isTLS12orAbove :: bool
  enableXtls :: bool
  cipher :: "16 word"
  remainingServerHello :: int

definition vision_context_init :: vision_context where
  "vision_context_init = \<lparr>packetsToFilter = 8, isTLS = False, isTLS12orAbove = False,
     enableXtls = False, cipher = 0, remainingServerHello = -1\<rparr>"

record vision_reader =
  vr_uuid :: bytes
  withinPadding :: bool
  vr_directCopy :: bool
  remainingCommand :: int
  remainingContent :: int
  remainingPadding :: int
  currentCommand :: int

definition vision_reader_init :: "bytes \<Rightarrow> vision_reader" where
  "vision_reader_init uuid = \<lparr>vr_uuid = uuid, withinPadding = True, vr_directCopy = False,
     remainingCommand = -1, remainingContent = -1, remainingPadding = -1, currentCommand = 0\<rparr>"

record vision_writer =
  vw_uuid :: bytes
  uuidWritten :: bool
  isPadding :: bool
  vw_directCopy :: bool
  vw_draws :: nat

definition vision_writer_init :: "bytes \<Rightarrow> vision_writer" where
  "vision_writer_init uuid = \<lparr>vw_uuid = uuid, uuidWritten = False, isPadding = True,
     vw_directCopy = False, vw_draws = 0\<rparr>"

definition VISION_CMD_CONTINUE :: byte where "VISION_CMD_CONTINUE = 0"
definition VISION_CMD_END :: byte where "VISION_CMD_END = 1"
definition VISION_CMD_DIRECT :: byte where "VISION_CMD_DIRECT = 2"

definition VISION_MAX_FRAME_SIZE :: int where "VISION_MAX_FRAME_SIZE = 8192"
definition VISION_FULL_HEADER_SIZE :: nat where "VISION_FULL_HEADER_SIZE = 21"
definition VISION_SHORT_HEADER_SIZE :: nat where "VISION_SHORT_HEADER_SIZE = 5"

lemmas vision_consts = VISION_CMD_CONTINUE_def VISION_CMD_END_def VISION_CMD_DIRECT_def
  VISION_MAX_FRAME_SIZE_def VISION_FULL_HEADER_SIZE_def VISION_SHORT_HEADER_SIZE_def

section \<open>VisionReader\<close>

text \<open>One byte of the five-byte command header, and the inner loop over it.\<close>

definition vr_header_byte :: "byte \<Rightarrow> vision_reader \<Rightarrow> vision_reader" where
  "vr_header_byte byte r =
     (let r = (if remainingCommand r = 5 then r\<lparr>currentCommand := uint byte\<rparr>
               else if remainingCommand r = 4 then r\<lparr>remainingContent := push_bit 8 (uint byte)\<rparr>
               else if remainingCommand r = 3
                 then r\<lparr>remainingContent := remainingContent r OR uint byte\<rparr>
               else if remainingCommand r = 2 then r\<lparr>remainingPadding := push_bit 8 (uint byte)\<rparr>
               else if remainingCommand r = 1
                 then r\<lparr>remainingPadding := remainingPadding r OR uint byte\<rparr>
               else r)
      in r\<lparr>remainingCommand := remainingCommand r - 1\<rparr>)"

fun vr_header :: "vision_reader \<Rightarrow> bytes \<Rightarrow> vision_reader \<times> bytes" where
  "vr_header r [] = (r, [])"
| "vr_header r (b # bs) =
     (if remainingCommand r > 0 then vr_header (vr_header_byte b r) bs else (r, b # bs))"

lemma vr_header_length: "length (snd (vr_header r bs)) \<le> length bs"
  by (induction r bs rule: vr_header.induct) auto

lemma vr_header_less:
  "remainingCommand r > 0 \<Longrightarrow> data \<noteq> [] \<Longrightarrow> (r', rest) = vr_header r data \<Longrightarrow>
     length rest < length data"
  using vr_header_length [of "vr_header_byte (hd data) r" "tl data"] by (cases data) (auto dest: sym)

text \<open>The unpadding loop over the bytes left of the buffer.\<close>

function vr_loop :: "vision_reader \<Rightarrow> bytes \<Rightarrow> bytes \<Rightarrow> vision_reader \<times> bytes" where
  "vr_loop r output data =
     (if data = [] then (r, output)
      else if remainingCommand r > 0 then
        (case vr_header r data of (r', rest) \<Rightarrow> vr_loop r' output rest)
      else if remainingContent r > 0 then
        (let toRead = min (nat (remainingContent r)) (length data) in
         vr_loop (r\<lparr>remainingContent := remainingContent r - int toRead\<rparr>)
           (output @ take toRead data) (drop toRead data))
      else if remainingPadding r > 0 then
        (let toSkip = min (nat (remainingPadding r)) (length data) in
         vr_loop (r\<lparr>remainingPadding := remainingPadding r - int toSkip\<rparr>) output (drop toSkip data))
      else if currentCommand r = uint VISION_CMD_CONTINUE then
        vr_loop (r\<lparr>remainingCommand := 5\<rparr>) output data
      else
        (let r = r\<lparr>withinPadding := False\<rparr>;
             r = (if currentCommand r = uint VISION_CMD_DIRECT then r\<lparr>vr_directCopy := True\<rparr> else r)
         in (r, output @ data)))"
  by pat_completeness auto
termination
proof (relation "measures [\<lambda>(r, out, data). length data,
    \<lambda>(r, out, data). if remainingCommand r > 0 then 0 else 1]", goal_cases)
  case (2 r out data r' rest)
  then show ?case
    by (auto dest: vr_header_less)
qed auto

declare vr_loop.simps [simp del]

text \<open>TLS detection on the unpadded content.\<close>

definition vr_detect :: "bytes \<Rightarrow> vision_context option \<Rightarrow> vision_context option" where
  "vr_detect output ctx =
     (case ctx of
        None \<Rightarrow> None
      | Some c \<Rightarrow>
          (if packetsToFilter c > 0 \<and> output \<noteq> [] \<and> length output \<ge> 6 then
             (let c = (if take 2 output = [0x16, 0x03] \<and> output ! 5 = 1 then c\<lparr>isTLS := True\<rparr> else c)
              in Some (c\<lparr>packetsToFilter := packetsToFilter c - 1\<rparr>))
           else ctx))"

definition vr_process ::
    "bytes \<Rightarrow> vision_reader \<Rightarrow> vision_context option \<Rightarrow> bytes \<times> vision_reader \<times> vision_context option" where
  "vr_process data r ctx =
     (if data = [] then (data, r, ctx)
      else if vr_directCopy r then (data, r, ctx)
      else if \<not> withinPadding r then (data, r\<lparr>vr_directCopy := True\<rparr>, ctx)
      else if remainingCommand r = -1 \<and> remainingContent r = -1 \<and> remainingPadding r = -1 then
        (if length data \<ge> VISION_FULL_HEADER_SIZE \<and> take 16 data = vr_uuid r then
           (case vr_loop (r\<lparr>remainingCommand := 5\<rparr>) [] (drop 16 data) of
              (r', output) \<Rightarrow> (output, r', vr_detect output ctx))
         else (data, r\<lparr>vr_directCopy := True\<rparr>, ctx))
      else
        (case vr_loop r [] data of (r', output) \<Rightarrow> (output, r', vr_detect output ctx)))"

section \<open>isCompleteRecord\<close>

function complete_record_loop :: "nat \<Rightarrow> nat \<Rightarrow> bytes \<Rightarrow> bool" where
  "complete_record_loop headerLen recordLen data =
     (case data of
        [] \<Rightarrow> headerLen = 5 \<and> recordLen = 0
      | byte # rest \<Rightarrow>
          (if headerLen > 0 then
             (if headerLen = 5 \<and> byte \<noteq> 0x17 then False
              else if headerLen = 4 \<and> byte \<noteq> 0x03 then False
              else if headerLen = 3 \<and> byte \<noteq> 0x03 then False
              else
                (let recordLen = (if headerLen = 2 then push_bit 8 (unat byte)
                                  else if headerLen = 1 then recordLen OR unat byte else recordLen)
                 in complete_record_loop (headerLen - 1) recordLen rest))
           else if recordLen > 0 then
             (if length data < recordLen then False
              else complete_record_loop 5 0 (drop recordLen data))
           else False))"
  by pat_completeness auto
termination
  by (relation "measure (\<lambda>(h, l, data). length data)") auto

declare complete_record_loop.simps [simp del]

definition isCompleteRecord :: "bytes \<Rightarrow> bool" where
  "isCompleteRecord data = complete_record_loop 5 0 data"

section \<open>VisionWriter\<close>

text \<open>The scan for the supported_versions extension that announces TLS 1.3.\<close>

definition tls13_pattern :: bytes where
  "tls13_pattern = [0x00, 0x2b, 0x00, 0x02, 0x03, 0x04]"

definition tls13_scan :: "nat \<Rightarrow> bytes \<Rightarrow> bool" where
  "tls13_scan stop data =
     list_ex (\<lambda>i. take 6 (drop i data) = tls13_pattern) [0..<stop - 5]"

definition filterTls_hello :: "bytes \<Rightarrow> vision_context \<Rightarrow> vision_context" where
  "filterTls_hello data c =
     (if length data \<ge> 6 then
        (if take 3 data = [0x16, 0x03, 0x03] \<and> data ! 5 = 2 then
           (let c = c\<lparr>remainingServerHello := (push_bit 8 (uint (data ! 3)) OR uint (data ! 4)) + 5,
                      isTLS12orAbove := True, isTLS := True\<rparr>
            in if length data \<ge> 79 \<and> remainingServerHello c \<ge> 79 then
                 (let sessionIdLen = unat (data ! 43) in
                  if 43 + sessionIdLen + 3 \<le> length data then
                    c\<lparr>cipher := be16 (data ! (43 + sessionIdLen + 1)) (data ! (43 + sessionIdLen + 2))\<rparr>
                  else c)
               else c)
         else if take 2 data = [0x16, 0x03] \<and> data ! 5 = 1 then c\<lparr>isTLS := True\<rparr>
         else c)
      else c)"

definition filterTls :: "bytes \<Rightarrow> vision_context \<Rightarrow> vision_context" where
  "filterTls data c =
     (let c = filterTls_hello data (c\<lparr>packetsToFilter := packetsToFilter c - 1\<rparr>) in
      if remainingServerHello c > 0 then
        (let stop = min (nat (remainingServerHello c)) (length data);
             c = c\<lparr>remainingServerHello := remainingServerHello c - int (length data)\<rparr>
         in if tls13_scan stop data then
              (let c = (if cipher c \<noteq> 0x1305 then c\<lparr>enableXtls := True\<rparr> else c)
               in c\<lparr>packetsToFilter := 0\<rparr>)
            else if remainingServerHello c \<le> 0 then c\<lparr>packetsToFilter := 0\<rparr>
            else c)
      else c)"

text \<open>
  The padding length and the frame. \<open>maxPadding\<close> is computed on \<open>size_t\<close> and cast to
  \<open>int32_t\<close>, which for contents below 2 GB is the signed difference.
\<close>

definition padding_len :: "nat \<Rightarrow> bool \<Rightarrow> bool \<Rightarrow> nat \<Rightarrow> int" where
  "padding_len draw longPadding written contentLen =
     (let paddingLen = (if contentLen < 900 \<and> longPadding then int draw + 900 - int contentLen
                        else int draw);
          headerSize = (if written then VISION_SHORT_HEADER_SIZE else VISION_FULL_HEADER_SIZE);
          maxPadding = VISION_MAX_FRAME_SIZE - int headerSize - int contentLen
      in if paddingLen > maxPadding then max maxPadding 0 else paddingLen)"

definition padding_draw :: "(nat \<Rightarrow> nat \<Rightarrow> nat) \<Rightarrow> nat \<Rightarrow> bool \<Rightarrow> nat \<Rightarrow> nat" where
  "padding_draw uni k longPadding contentLen =
     (if contentLen < 900 \<and> longPadding then uni k 500 else uni k 256)"

definition vw_padding ::
    "(nat \<Rightarrow> nat \<Rightarrow> nat) \<Rightarrow> bytes \<Rightarrow> byte \<Rightarrow> bool \<Rightarrow> vision_writer \<Rightarrow> bytes \<times> vision_writer" where
  "vw_padding uni data command longPadding w =
     (let contentLen = length data;
          k = vw_draws w;
          paddingLen = padding_len (padding_draw uni k longPadding contentLen) longPadding
                         (uuidWritten w) contentLen;
          prefix = (if uuidWritten w then [] else vw_uuid w);
          header = [command,
                    word_of_int (drop_bit 8 (int contentLen)), word_of_int (int contentLen),
                    word_of_int (drop_bit 8 paddingLen), word_of_int paddingLen];
          pad = map (\<lambda>i. of_nat (uni (k + 1 + i) 255)) [0..<nat paddingLen]
      in (prefix @ header @ data @ pad,
          w\<lparr>uuidWritten := True, vw_draws := k + 1 + nat paddingLen\<rparr>))"

definition vw_filter :: "bytes \<Rightarrow> vision_context option \<Rightarrow> vision_context option" where
  "vw_filter data ctx =
     (case ctx of None \<Rightarrow> None
      | Some c \<Rightarrow> Some (if packetsToFilter c > 0 then filterTls data c else c))"

definition vw_process ::
    "(nat \<Rightarrow> nat \<Rightarrow> nat) \<Rightarrow> bytes \<Rightarrow> vision_writer \<Rightarrow> vision_context option \<Rightarrow>
     bytes \<times> vision_writer \<times> vision_context option" where
  "vw_process uni data w ctx =
     (if data = [] then (data, w, ctx)
      else if vw_directCopy w then (data, w, ctx)
      else
        (let ctx = vw_filter data ctx in
         if \<not> isPadding w then (data, w\<lparr>vw_directCopy := True\<rparr>, ctx)
         else
           (let isComplete = isCompleteRecord data;
                longPadding = (case ctx of None \<Rightarrow> False | Some c \<Rightarrow> isTLS c)
            in if (case ctx of None \<Rightarrow> False | Some c \<Rightarrow> isTLS c) \<and> length data \<ge> 6 \<and>
                  take 3 data = [0x17, 0x03, 0x03] \<and> isComplete then
                 (let xtls = (case ctx of None \<Rightarrow> False | Some c \<Rightarrow> enableXtls c);
                      command = (if xtls then VISION_CMD_DIRECT else VISION_CMD_END);
                      w = (if xtls then w\<lparr>vw_directCopy := True\<rparr> else w);
                      (frame, w) = vw_padding uni data command True (w\<lparr>isPadding := False\<rparr>)
                  in (frame, w, ctx))
               else if (case ctx of None \<Rightarrow> False
                        | Some c \<Rightarrow> \<not> isTLS12orAbove c \<and> packetsToFilter c \<le> 1) then
                 (let (frame, w) = vw_padding uni data VISION_CMD_END longPadding (w\<lparr>isPadding := False\<rparr>)
                  in (frame, w, ctx))
               else
                 (let (frame, w) = vw_padding uni data VISION_CMD_CONTINUE longPadding w
                  in (frame, w, ctx)))))"

end
