(* ===== verification/Encryption.thy ===== *)
theory Encryption
  imports Vless_Prelude
begin

text \<open>
  The optional VLESS encryption layer (include/proxy/vless/encryption.h,
  src/proxy/vless/encryption.cpp): the AEAD ciphers, the key exchange and \<open>EncryptionSession\<close>.

  OpenSSL is a parameter: the record \<open>crypto\<close> holds the functions AES-256-GCM,
  ChaCha20-Poly1305, SHA-256 and X25519 compute, and \<open>evp_world\<close> says which of the EVP calls to
  come fail and counts the EVP objects that are allocated. Every EVP call whose result the source
  tests is one step of that world.
\<close>

section \<open>OpenSSL as a parameter\<close>

text \<open>\<open>seal key nonce plaintext\<close> gives the ciphertext and the tag.\<close>

record aead_alg =
  seal :: "bytes \<Rightarrow> bytes \<Rightarrow> bytes \<Rightarrow> bytes \<times> bytes"
  unseal :: "bytes \<Rightarrow> bytes \<Rightarrow> bytes \<Rightarrow> bytes \<Rightarrow> bytes option"

record crypto =
  aes_256_gcm :: aead_alg
  chacha20_poly1305 :: aead_alg
  sha256 :: "bytes \<Rightarrow> bytes"
  x25519_public :: "bytes \<Rightarrow> bytes"
  x25519 :: "bytes \<Rightarrow> bytes \<Rightarrow> bytes option"
  x25519_random :: "nat \<Rightarrow> bytes"

record evp_world =
  evp_fails :: "nat \<Rightarrow> bool"
  evp_calls :: nat
  evp_live :: nat

definition evp_call :: "evp_world \<Rightarrow> bool \<times> evp_world" where
  "evp_call w = (\<not> evp_fails w (evp_calls w), w\<lparr>evp_calls := evp_calls w + 1\<rparr>)"

definition evp_new :: "evp_world \<Rightarrow> bool \<times> evp_world" where
  "evp_new w = (case evp_call w of (ok, w) \<Rightarrow> (ok, if ok then w\<lparr>evp_live := evp_live w + 1\<rparr> else w))"

definition evp_free :: "evp_world \<Rightarrow> evp_world" where
  "evp_free w = w\<lparr>evp_live := evp_live w - 1\<rparr>"

text \<open>\<open>n\<close> calls joined by \<open>&&\<close>: the first failure ends the chain.\<close>

fun evp_chain :: "nat \<Rightarrow> evp_world \<Rightarrow> bool \<times> evp_world" where
  "evp_chain 0 w = (True, w)"
| "evp_chain (Suc n) w = (case evp_call w of (ok, w) \<Rightarrow> if ok then evp_chain n w else (False, w))"

section \<open>Ciphers\<close>

datatype encryption_method = EncNone | X25519_AES256GCM | X25519_Chacha20

text \<open>\<open>process\<close> of both ciphers: the output, or \<open>None\<close> for -1. A decryption input shorter than the
tag returns without freeing the context.\<close>

definition aead_encrypt :: "aead_alg \<Rightarrow> bytes \<Rightarrow> bytes \<Rightarrow> bytes \<Rightarrow> evp_world \<Rightarrow> bytes option \<times> evp_world" where
  "aead_encrypt alg key nonce inp w =
     (case evp_chain 3 w of (ok, w) \<Rightarrow>
        if \<not> ok then (None, evp_free w)
        else (case evp_call w of (ok, w) \<Rightarrow>
          if \<not> ok then (None, evp_free w)
          else (case evp_call w of (ok, w) \<Rightarrow>
            if \<not> ok then (None, evp_free w)
            else (case evp_call w of (ok, w) \<Rightarrow>
              if \<not> ok then (None, evp_free w)
              else (Some (fst (seal alg key nonce inp) @ snd (seal alg key nonce inp)), evp_free w)))))"

definition aead_decrypt :: "aead_alg \<Rightarrow> bytes \<Rightarrow> bytes \<Rightarrow> bytes \<Rightarrow> evp_world \<Rightarrow> bytes option \<times> evp_world" where
  "aead_decrypt alg key nonce inp w =
     (if length inp < 16 then (None, w)
      else
        (let ciphertextLen = length inp - 16 in
         case evp_chain 3 w of (ok, w) \<Rightarrow>
           if \<not> ok then (None, evp_free w)
           else (case evp_call w of (ok, w) \<Rightarrow>
             if \<not> ok then (None, evp_free w)
             else (case evp_call w of (ok, w) \<Rightarrow>
               if \<not> ok then (None, evp_free w)
               else (case evp_call w of (ok, w) \<Rightarrow>
                 if \<not> ok then (None, evp_free w)
                 else (unseal alg key nonce (take ciphertextLen inp) (drop ciphertextLen inp), evp_free w))))))"

datatype aead_cipher = Aes256GcmCipher bytes bool | ChaCha20Cipher bytes bool

definition Aes256Gcm_process ::
    "crypto \<Rightarrow> bytes \<Rightarrow> bool \<Rightarrow> bytes \<Rightarrow> bytes \<Rightarrow> evp_world \<Rightarrow> bytes option \<times> evp_world" where
  "Aes256Gcm_process C key forEncrypt nonce inp w =
     (case evp_new w of (ok, w) \<Rightarrow>
        if \<not> ok then (None, w)
        else if forEncrypt then aead_encrypt (aes_256_gcm C) key nonce inp w
        else aead_decrypt (aes_256_gcm C) key nonce inp w)"

definition ChaCha20_process ::
    "crypto \<Rightarrow> bytes \<Rightarrow> bool \<Rightarrow> bytes \<Rightarrow> bytes \<Rightarrow> evp_world \<Rightarrow> bytes option \<times> evp_world" where
  "ChaCha20_process C key forEncrypt nonce inp w =
     (case evp_new w of (ok, w) \<Rightarrow>
        if \<not> ok then (None, w)
        else if forEncrypt then aead_encrypt (chacha20_poly1305 C) key nonce inp w
        else aead_decrypt (chacha20_poly1305 C) key nonce inp w)"

fun cipher_process :: "crypto \<Rightarrow> aead_cipher \<Rightarrow> bytes \<Rightarrow> bytes \<Rightarrow> evp_world \<Rightarrow> bytes option \<times> evp_world" where
  "cipher_process C (Aes256GcmCipher key enc) nonce inp w = Aes256Gcm_process C key enc nonce inp w"
| "cipher_process C (ChaCha20Cipher key enc) nonce inp w = ChaCha20_process C key enc nonce inp w"

fun AeadCipher_create :: "encryption_method \<Rightarrow> bytes \<Rightarrow> bool \<Rightarrow> aead_cipher option" where
  "AeadCipher_create X25519_AES256GCM key forEncrypt = Some (Aes256GcmCipher key forEncrypt)"
| "AeadCipher_create X25519_Chacha20 key forEncrypt = Some (ChaCha20Cipher key forEncrypt)"
| "AeadCipher_create EncNone key forEncrypt = None"

section \<open>Sessions\<close>

record enc_session =
  es_method :: encryption_method
  es_ready :: bool
  privateKey :: bytes
  publicKey :: bytes
  clientKey :: bytes
  serverKey :: bytes
  clientNonce :: "64 word"
  serverNonce :: "64 word"
  encryptCipher :: "aead_cipher option"
  decryptCipher :: "aead_cipher option"

definition enc_session_init :: "encryption_method \<Rightarrow> enc_session" where
  "enc_session_init m = \<lparr>es_method = m, es_ready = False, privateKey = replicate 32 0,
     publicKey = replicate 32 0, clientKey = replicate 32 0, serverKey = replicate 32 0,
     clientNonce = 0, serverNonce = 0, encryptCipher = None, decryptCipher = None\<rparr>"

definition deriveKeySha256 :: "crypto \<Rightarrow> string \<Rightarrow> bytes \<Rightarrow> evp_world \<Rightarrow> bytes option \<times> evp_world" where
  "deriveKeySha256 C label secret w =
     (case evp_new w of (ok, w) \<Rightarrow>
        if \<not> ok then (None, w)
        else (case evp_chain 3 w of (ok, w) \<Rightarrow>
          if ok then
            (case evp_call w of (ok, w) \<Rightarrow>
               (if ok \<and> length (sha256 C (string_bytes label @ secret)) = 32
                then Some (sha256 C (string_bytes label @ secret)) else None, evp_free w))
          else (None, evp_free w)))"

definition generateKeyPair :: "crypto \<Rightarrow> enc_session \<Rightarrow> evp_world \<Rightarrow> (exn + bytes) \<times> enc_session \<times> evp_world" where
  "generateKeyPair C s w =
     (case evp_new w of (ok, w) \<Rightarrow>
        if \<not> ok then (Inl (RuntimeError ''EVP_PKEY_CTX_new_id failed''), s, w)
        else (case evp_call w of (ok, w) \<Rightarrow>
          if \<not> ok then (Inl (RuntimeError ''EVP_PKEY_keygen_init failed''), s, evp_free w)
          else (case evp_new w of (ok, w) \<Rightarrow>
            if \<not> ok then (Inl (RuntimeError ''EVP_PKEY_keygen failed''), s, evp_free w)
            else
              (let w = evp_free w;
                   s = s\<lparr>privateKey := x25519_random C (evp_calls w),
                         publicKey := x25519_public C (x25519_random C (evp_calls w))\<rparr>
               in (Inr (publicKey s), s, evp_free w)))))"

definition deriveKeys :: "crypto \<Rightarrow> bytes \<Rightarrow> enc_session \<Rightarrow> evp_world \<Rightarrow> (exn + unit) \<times> enc_session \<times> evp_world" where
  "deriveKeys C sharedSecret s w =
     (case deriveKeySha256 C ''VLESS Encryption: client key'' sharedSecret w of
        (None, w) \<Rightarrow> (Inl (RuntimeError ''failed to derive session keys''), s, w)
      | (Some ck, w) \<Rightarrow>
          (let s = s\<lparr>clientKey := ck\<rparr> in
           case deriveKeySha256 C ''VLESS Encryption: server key'' sharedSecret w of
             (None, w) \<Rightarrow> (Inl (RuntimeError ''failed to derive session keys''), s, w)
           | (Some sk, w) \<Rightarrow>
               (Inr (), s\<lparr>serverKey := sk,
                  encryptCipher := AeadCipher_create (es_method s) ck True,
                  decryptCipher := AeadCipher_create (es_method s) sk False,
                  es_ready := True\<rparr>, w)))"

definition computeSharedSecret ::
    "crypto \<Rightarrow> bytes \<Rightarrow> enc_session \<Rightarrow> evp_world \<Rightarrow> (exn + bool) \<times> enc_session \<times> evp_world" where
  "computeSharedSecret C peer s w =
     (case evp_new w of (ok, w) \<Rightarrow>
        if \<not> ok then (Inr False, s, w)
        else (case evp_new w of (ok, w) \<Rightarrow>
          if \<not> ok then (Inr False, s, evp_free w)
          else (case evp_new w of (ok, w) \<Rightarrow>
            if \<not> ok then (Inr False, s, evp_free (evp_free w))
            else (case evp_call w of (ok, w) \<Rightarrow>
              if \<not> ok then (Inr False, s, evp_free (evp_free (evp_free w)))
              else (case evp_call w of (ok, w) \<Rightarrow>
                if \<not> ok then (Inr False, s, evp_free (evp_free (evp_free w)))
                else (case evp_call w of (ok, w) \<Rightarrow>
                  (let w = evp_free (evp_free (evp_free w)) in
                   case (if ok then x25519 C (privateKey s) peer else None) of
                     None \<Rightarrow> (Inr False, s, w)
                   | Some sharedSecret \<Rightarrow>
                       (case deriveKeys C sharedSecret s w of
                          (Inl e, s, w) \<Rightarrow> (Inl e, s, w)
                        | (Inr _, s, w) \<Rightarrow> (Inr True, s, w)))))))))"

text \<open>The eight bytes of the counter in memory order (little endian), four zero bytes.\<close>

definition nonce_bytes :: "64 word \<Rightarrow> bytes" where
  "nonce_bytes n = map (\<lambda>i. ucast (drop_bit (8 * i) n)) [0..<8] @ replicate 4 0"

definition incrementNonce :: "64 word \<Rightarrow> 64 word \<times> bytes" where
  "incrementNonce nonce = (nonce + 1, nonce_bytes nonce)"

text \<open>\<open>None\<close> stands for the result 0, or \<open>false\<close>; a success has at least the 12 bytes of the nonce.\<close>

definition enc_encrypt ::
    "crypto \<Rightarrow> bytes \<Rightarrow> enc_session \<Rightarrow> evp_world \<Rightarrow> bytes option \<times> enc_session \<times> evp_world" where
  "enc_encrypt C plaintext s w =
     (case encryptCipher s of
        None \<Rightarrow> (None, s, w)
      | Some c \<Rightarrow>
          (if \<not> es_ready s then (None, s, w)
           else (case incrementNonce (clientNonce s) of (n, nonce) \<Rightarrow>
             (let s = s\<lparr>clientNonce := n\<rparr> in
              case cipher_process C c nonce plaintext w of
                (None, w) \<Rightarrow> (None, s, w)
              | (Some out, w) \<Rightarrow> (Some (nonce @ out), s, w)))))"

definition enc_decrypt :: "crypto \<Rightarrow> bytes \<Rightarrow> enc_session \<Rightarrow> evp_world \<Rightarrow> bytes option \<times> evp_world" where
  "enc_decrypt C ciphertext s w =
     (case decryptCipher s of
        None \<Rightarrow> (None, w)
      | Some c \<Rightarrow>
          (if \<not> es_ready s then (None, w)
           else if length ciphertext < 12 + 16 then (None, w)
           else cipher_process C c (take 12 ciphertext) (drop 12 ciphertext) w))"

definition decryptClient :: "crypto \<Rightarrow> bytes \<Rightarrow> enc_session \<Rightarrow> evp_world \<Rightarrow> bytes option \<times> evp_world" where
  "decryptClient C ciphertext s w =
     (if \<not> es_ready s then (None, w)
      else if length ciphertext < 12 + 16 then (None, w)
      else (case AeadCipher_create (es_method s) (clientKey s) False of
        None \<Rightarrow> (None, w)
      | Some decipher \<Rightarrow> cipher_process C decipher (take 12 ciphertext) (drop 12 ciphertext) w))"

definition encryptServer ::
    "crypto \<Rightarrow> bytes \<Rightarrow> enc_session \<Rightarrow> evp_world \<Rightarrow> bytes option \<times> enc_session \<times> evp_world" where
  "encryptServer C plaintext s w =
     (if \<not> es_ready s then (None, s, w)
      else (case AeadCipher_create (es_method s) (serverKey s) True of
        None \<Rightarrow> (None, s, w)
      | Some encipher \<Rightarrow>
          (case incrementNonce (serverNonce s) of (n, nonce) \<Rightarrow>
             (let s = s\<lparr>serverNonce := n\<rparr> in
              case cipher_process C encipher nonce plaintext w of
                (None, w) \<Rightarrow> (None, s, w)
              | (Some out, w) \<Rightarrow> (Some (nonce @ out), s, w)))))"

end
