(* ===== verification/Socks5.thy ===== *)
theory Socks5
  imports Protocol
begin

text \<open>
  The SOCKS5 front end of the client: include/proxy/socks5/socks5.h and
  src/proxy/socks5/socks5.cpp. \<open>inet_pton\<close> is the parameter pair \<open>pton4\<close>,
  \<open>pton6\<close>, \<open>inet_ntop\<close> the parameter \<open>ntop6\<close>. The address variant has the
  alternatives of the VLESS request's, so the datatype \<open>address\<close> is shared; the parser
  takes the buffered read as an argument, like the VLESS decoder.
\<close>

section \<open>Data\<close>

datatype socks_command = Connect | Bind | UdpAssociate | OtherSocksCommand byte

definition socks_command_of_byte :: "byte \<Rightarrow> socks_command" where
  "socks_command_of_byte b =
     (if b = 1 then Connect else if b = 2 then Bind else if b = 3 then UdpAssociate
      else OtherSocksCommand b)"

datatype reply = Success | GeneralFailure | NotAllowed | NetworkUnreachable | HostUnreachable |
  ConnectionRefused | TtlExpired | CommandNotSupported | AddrTypeNotSupported

fun byte_of_reply :: "reply \<Rightarrow> byte" where
  "byte_of_reply Success = 0"
| "byte_of_reply GeneralFailure = 1"
| "byte_of_reply NotAllowed = 2"
| "byte_of_reply NetworkUnreachable = 3"
| "byte_of_reply HostUnreachable = 4"
| "byte_of_reply ConnectionRefused = 5"
| "byte_of_reply TtlExpired = 6"
| "byte_of_reply CommandNotSupported = 7"
| "byte_of_reply AddrTypeNotSupported = 8"

record socks_request =
  sr_cmd :: socks_command
  sr_address :: address
  sr_port :: "16 word"

definition socks_request_init :: socks_request where
  "socks_request_init = \<lparr>sr_cmd = Connect, sr_address = IPv4 (replicate 4 0), sr_port = 0\<rparr>"

section \<open>Addresses\<close>

fun socks_atyp :: "address \<Rightarrow> byte" where
  "socks_atyp (IPv4 _) = 1"
| "socks_atyp (IPv6 _) = 4"
| "socks_atyp (Domain _) = 3"

fun address_toString :: "(bytes \<Rightarrow> string option) \<Rightarrow> address \<Rightarrow> string" where
  "address_toString ntop6 (IPv4 ip) = dotted_quad ip"
| "address_toString ntop6 (IPv6 ip) = (case ntop6 ip of None \<Rightarrow> ''invalid-ipv6'' | Some s \<Rightarrow> s)"
| "address_toString ntop6 (Domain d) = d"

text \<open>\<open>c_str()\<close>: a C function sees a string up to its first NUL.\<close>

definition c_str :: "string \<Rightarrow> string" where
  "c_str s = takeWhile (\<lambda>c. c \<noteq> CHR 0x00) s"

definition fromHost ::
    "(string \<Rightarrow> bytes option) \<Rightarrow> (string \<Rightarrow> bytes option) \<Rightarrow> string \<Rightarrow> address" where
  "fromHost pton4 pton6 host =
     (case pton4 (c_str host) of
        Some ip \<Rightarrow> IPv4 ip
      | None \<Rightarrow> (case pton6 (c_str host) of Some ip \<Rightarrow> IPv6 ip | None \<Rightarrow> Domain host))"

definition writeAddrPort :: "address \<Rightarrow> 16 word \<Rightarrow> exn + bytes" where
  "writeAddrPort addr port =
     (case (case addr of
              IPv4 ip \<Rightarrow> Inr ip
            | IPv6 ip \<Rightarrow> Inr ip
            | Domain domain \<Rightarrow>
                (if length domain > 255 then Inl (RuntimeError ''domain too long for socks5 address'')
                 else Inr (of_nat (length domain) # string_bytes domain))) of
        Inl e \<Rightarrow> Inl e
      | Inr a \<Rightarrow> Inr (socks_atyp addr # a @ [hi8 port, lo8 port]))"

section \<open>The TCP side\<close>

definition readGreeting :: "(nat \<Rightarrow> ('s, bytes) co) \<Rightarrow> ('s, bool) co" where
  "readGreeting rd =
     co_bind (read_exact rd 1 ''failed to read socks5 version'') (\<lambda>verBytes.
       if verBytes ! 0 \<noteq> 5 then co_return False
       else co_bind (read_exact rd 1 ''failed to read socks5 nmethods'') (\<lambda>nmethodsBytes.
         if nmethodsBytes ! 0 = 0 then co_return False
         else co_bind (read_exact rd (unat (nmethodsBytes ! 0)) ''failed to read socks5 methods'') (\<lambda>methods.
           co_return (list_ex (\<lambda>m. m = 0) methods))))"

definition encodeGreetingResponse :: bytes where
  "encodeGreetingResponse = [5, 0]"

definition readRequestAddress :: "(nat \<Rightarrow> ('s, bytes) co) \<Rightarrow> ('s, address) co" where
  "readRequestAddress rd =
     co_bind (read_exact rd 1 ''failed to read socks5 address type'') (\<lambda>atypBytes.
       if atypBytes ! 0 = 1 then
         co_bind (read_exact rd 4 ''failed to read socks5 ipv4'') (\<lambda>ip. co_return (IPv4 ip))
       else if atypBytes ! 0 = 3 then
         co_bind (read_exact rd 1 ''failed to read socks5 domain length'') (\<lambda>lenBytes.
           co_bind (read_exact rd (unat (lenBytes ! 0)) ''failed to read socks5 domain'') (\<lambda>domain.
             co_return (Domain (bytes_string domain))))
       else if atypBytes ! 0 = 4 then
         co_bind (read_exact rd 16 ''failed to read socks5 ipv6'') (\<lambda>ip. co_return (IPv6 ip))
       else co_throw ''unsupported socks5 address type'')"

definition readRequest :: "(nat \<Rightarrow> ('s, bytes) co) \<Rightarrow> ('s, socks_request) co" where
  "readRequest rd =
     co_bind (read_exact rd 1 ''failed to read socks5 request version'') (\<lambda>verBytes.
       if verBytes ! 0 \<noteq> 5 then co_throw ''invalid socks5 request version''
       else co_bind (read_exact rd 1 ''failed to read socks5 command'') (\<lambda>cmdBytes.
         co_bind (read_exact rd 1 ''failed to read socks5 rsv'') (\<lambda>_.
           co_bind (readRequestAddress rd) (\<lambda>addr.
             co_bind (read_exact rd 2 ''failed to read socks5 port'') (\<lambda>portBytes.
               co_return \<lparr>sr_cmd = socks_command_of_byte (cmdBytes ! 0), sr_address = addr,
                 sr_port = be16 (portBytes ! 0) (portBytes ! 1)\<rparr>)))))"

definition encodeReply ::
    "(string \<Rightarrow> bytes option) \<Rightarrow> (string \<Rightarrow> bytes option) \<Rightarrow>
     reply \<Rightarrow> string \<Rightarrow> 16 word \<Rightarrow> exn + bytes" where
  "encodeReply pton4 pton6 reply bindIp bindPort =
     (case writeAddrPort (fromHost pton4 pton6 (if bindIp = [] then ''0.0.0.0'' else bindIp)) bindPort of
        Inl e \<Rightarrow> Inl e
      | Inr ap \<Rightarrow> Inr ([5, byte_of_reply reply, 0] @ ap))"

section \<open>UDP datagrams\<close>

text \<open>The result is \<open>None\<close> for a \<open>false\<close> return; the outputs are written on success only.\<close>

definition parseUdpDatagram :: "bytes \<Rightarrow> (address \<times> 16 word \<times> bytes) option" where
  "parseUdpDatagram data =
     (if length data < 4 then None
      else if data ! 2 \<noteq> 0 then None
      else
        (case (let pos = 4 in
           if data ! 3 = 1 then
             (if length data < pos + 4 + 2 then None
              else Some (IPv4 (take 4 (drop pos data)), pos + 4))
           else if data ! 3 = 3 then
             (if length data < pos + 1 then None
              else (let len = unat (data ! pos); pos = pos + 1 in
                if length data < pos + len + 2 then None
                else Some (Domain (bytes_string (take len (drop pos data))), pos + len)))
           else if data ! 3 = 4 then
             (if length data < pos + 16 + 2 then None
              else Some (IPv6 (take 16 (drop pos data)), pos + 16))
           else None) of
           None \<Rightarrow> None
         | Some (outAddr, pos) \<Rightarrow>
             (if length data < pos + 2 then None
              else Some (outAddr, be16 (data ! pos) (data ! (pos + 1)), drop (pos + 2) data))))"

definition encodeUdpDatagram :: "address \<Rightarrow> 16 word \<Rightarrow> bytes \<Rightarrow> exn + bytes" where
  "encodeUdpDatagram addr port payload =
     (case writeAddrPort addr port of
        Inl e \<Rightarrow> Inl e
      | Inr ap \<Rightarrow> Inr ([0, 0, 0] @ ap @ payload))"

section \<open>Lemmas\<close>

lemma writeAddrPort_cases:
  assumes "writeAddrPort addr port = Inr ap"
  obtains a where "ap = socks_atyp addr # a @ [hi8 port, lo8 port]"
    and "(case addr of IPv4 ip \<Rightarrow> a = ip | IPv6 ip \<Rightarrow> a = ip
          | Domain d \<Rightarrow> length d \<le> 255 \<and> a = of_nat (length d) # string_bytes d)"
  using assms by (auto simp: writeAddrPort_def split: sum.splits address.splits if_splits)

lemma unat_of_nat_byte_le: "n \<le> 255 \<Longrightarrow> unat (of_nat n :: byte) = n"
  by (simp add: unat_of_nat)

context byte_source
begin

lemma sim_readGreeting [intro]: "sim (readGreeting rd) (readGreeting list_rd)"
  unfolding readGreeting_def by (intro sim_bind sim_if sim_read_exact sim_return)

lemma sim_readRequest [intro]: "sim (readRequest rd) (readRequest list_rd)"
  unfolding readRequest_def readRequestAddress_def
  by (intro sim_bind sim_if sim_read_exact sim_return sim_throw)

end

lemma readRequest_list:
  assumes "writeAddrPort addr port = Inr ap" and "address_ok addr"
  shows "readRequest list_rd ([5, c, r] @ ap @ rest) =
    Some (Inr \<lparr>sr_cmd = socks_command_of_byte c, sr_address = addr, sr_port = port\<rparr>, rest)"
proof -
  have port: "read_exact list_rd 2 e (hi8 p # lo8 p # xs) = Some (Inr [hi8 p, lo8 p], xs)" for e p xs
    by (simp add: read_exact_list)
  from assms show ?thesis
    by (elim writeAddrPort_cases; cases addr)
      (auto simp: readRequest_def readRequestAddress_def co_bind_def co_simps port unat_of_nat_byte_le)
qed

lemma parse_encode_udp:
  assumes "encodeUdpDatagram addr port payload = Inr bs" and "address_ok addr"
  shows "parseUdpDatagram bs = Some (addr, port, payload)"
proof -
  from assms obtain ap where ap: "writeAddrPort addr port = Inr ap" and bs: "bs = [0, 0, 0] @ ap @ payload"
    by (auto simp: encodeUdpDatagram_def split: sum.splits)
  from ap assms(2) show ?thesis
    unfolding bs
    by (elim writeAddrPort_cases; cases addr)
      (auto simp: parseUdpDatagram_def Let_def unat_of_nat_byte_le nth_append nth_Cons' drop_Cons')
qed

end
