(* ===== verification/Streams_Props.thy ===== *)
theory Streams_Props
  imports Streams
begin

text \<open>
  What the streams guarantee to the relays: \<open>AsyncStream::writeFull\<close> under partial sends,
  and \<open>copyStream\<close> as a whole: everything read is written, in order, and the write side of
  the destination is shut down at the end, on EOF and on error. The last section shows what
  \<open>writeFull\<close> reports when a send fails after a partial one.
\<close>

section \<open>Sends that make progress\<close>

text \<open>
  The completions \<open>rs\<close> accept \<open>n\<close> bytes when they are positive and add up to \<open>n\<close>;
  \<open>accept n rs\<close> are the completions left after that.
\<close>

fun accept :: "nat \<Rightarrow> int list \<Rightarrow> int list option" where
  "accept n rs =
     (if n = 0 then Some rs
      else case rs of
        [] \<Rightarrow> None
      | r # rs' \<Rightarrow> if 0 < r \<and> nat r \<le> n then accept (n - nat r) rs' else None)"

declare accept.simps [simp del]

lemma write_full_accept:
  assumes "accept (length data - offset) (tx w fd) = Some rest" and "offset \<le> length data"
  shows "\<exists>w'. write_full_from (async_send fd) data offset w = Some (Inr (int (length data)), w') \<and>
    sent w' fd = sent w fd @ drop offset data \<and> tx w' fd = rest \<and> rx w' = rx w \<and>
    (\<forall>g. g \<noteq> fd \<longrightarrow> sent w' g = sent w g \<and> tx w' g = tx w g \<and> sends w' g = sends w g) \<and>
    concat (sends w' fd) = concat (sends w fd) @ drop offset data"
  using assms
proof (induction "length data - offset" arbitrary: offset w rule: less_induct)
  case less
  show ?case
  proof (cases "offset < length data")
    case False
    with less.prems show ?thesis
      by (simp add: write_full_from.simps [of _ data] accept.simps)
  next
    case True
    with less.prems obtain r rs where tx: "tx w fd = r # rs" and r: "0 < r" "nat r \<le> length data - offset"
      and acc: "accept (length data - offset - nat r) rs = Some rest"
      by (auto simp: accept.simps [of "length data - offset"] split: list.splits if_splits)
    let ?part = "take (nat r) (drop offset data)"
    let ?w = "w\<lparr>tx := (tx w)(fd := rs), sent := (sent w)(fd := sent w fd @ ?part),
      sends := (sends w)(fd := sends w fd @ [?part])\<rparr>"
    have "write_full_from (async_send fd) data offset w =
        write_full_from (async_send fd) data (offset + nat r) ?w"
      using True tx r by (simp add: write_full_from.simps [of _ data offset] async_send_def)
    moreover have "\<exists>w'. write_full_from (async_send fd) data (offset + nat r) ?w = Some (Inr (int (length data)), w') \<and>
        sent w' fd = sent ?w fd @ drop (offset + nat r) data \<and> tx w' fd = rest \<and> rx w' = rx ?w \<and>
        (\<forall>g. g \<noteq> fd \<longrightarrow> sent w' g = sent ?w g \<and> tx w' g = tx ?w g \<and> sends w' g = sends ?w g) \<and>
        concat (sends w' fd) = concat (sends ?w fd) @ drop (offset + nat r) data"
      using less.hyps [of "offset + nat r" ?w] acc r True by (simp add: diff_diff_add)
    moreover have "?part @ drop (offset + nat r) data = drop offset data"
      by (metis append_take_drop_id drop_drop add.commute)
    ultimately show ?thesis
      by (simp flip: append_assoc) (simp add: append_assoc)
  qed
qed

lemmas writeFull_accept = write_full_accept [where offset = 0, simplified, folded async_writeFull_def]

text \<open>A write accepted whole is one send.\<close>

lemma writeFull_whole:
  assumes "tx w fd = int (length data) # rest" and "data \<noteq> []"
  shows "async_writeFull fd data w = Some (Inr (int (length data)),
    w\<lparr>tx := (tx w)(fd := rest), sent := (sent w)(fd := sent w fd @ data),
      sends := (sends w)(fd := sends w fd @ [data])\<rparr>)"
  using assms by (simp add: async_writeFull_def write_full_from.simps async_send_def)

text \<open>\<open>AsyncStream::writeFull\<close> delivers all of its data, in order and once, and returns its
length, whenever the kernel's partial sends make progress until the data is out.\<close>

theorem writeFull_complete:
  assumes "accept (length data) (tx w fd) = Some rest"
  shows "\<exists>w'. async_writeFull fd data w = Some (Inr (int (length data)), w') \<and>
    sent w' fd = sent w fd @ data \<and> tx w' fd = rest \<and> rx w' = rx w \<and>
    (\<forall>g. g \<noteq> fd \<longrightarrow> sent w' g = sent w g \<and> tx w' g = tx w g)"
  using writeFull_accept [OF assms] by blast

definition net0 :: net where
  "net0 = \<lparr>rx = (\<lambda>_. []), tx = (\<lambda>_. []), sd = (\<lambda>_. 0), sent = (\<lambda>_. []), sends = (\<lambda>_. []), wr_shut = (\<lambda>_. False)\<rparr>"

lemma writeFull_complete_witness:
  "\<exists>w'. async_writeFull 4 [1, 2, 3, 4, 5] (net0\<lparr>tx := (\<lambda>_. [2, 1, 2, -32])\<rparr>) = Some (Inr 5, w') \<and>
    sent w' 4 = [1, 2, 3, 4, 5] \<and> tx w' 4 = [-32]"
  using writeFull_complete [of "[1, 2, 3, 4, 5]" "net0\<lparr>tx := (\<lambda>_. [2, 1, 2, -32])\<rparr>" 4 "[-32]"]
  by (fastforce simp: net0_def accept.simps)

section \<open>copyStream\<close>

text \<open>Every chunk of a list is accepted, one after the other.\<close>

fun accept_all :: "bytes list \<Rightarrow> int list \<Rightarrow> int list option" where
  "accept_all [] rs = Some rs"
| "accept_all (c # cs) rs =
     (case accept (length c) rs of None \<Rightarrow> None | Some rs' \<Rightarrow> accept_all cs rs')"

lemma async_stream_ops [simp]:
  "st_read (async_stream fd) = async_recv fd"
  "st_writeFull (async_stream fd) = async_writeFull fd"
  "st_shutdownWrite (async_stream fd) = async_shutdown fd"
  by (simp_all add: async_stream_def)

lemma copy_stream_chunks:
  assumes "rx w src = map (\<lambda>c. (int (length c), c)) cs @ (res, buf) # later" and "res \<le> 0"
    and "[] \<notin> set cs" and "accept_all cs (tx w dst) = Some rest"
  shows "\<exists>w'. copy_stream (async_stream dst) (async_stream src) (\<lambda>_. False) w =
      Some (Inr (res = 0), w') \<and>
    sent w' dst = sent w dst @ concat cs \<and> wr_shut w' dst \<and> rx w' src = later \<and> tx w' dst = rest"
  using assms
proof (induction cs arbitrary: w)
  case Nil
  then show ?case
    by (auto simp: copy_stream.simps [of _ _ _ w] async_recv_def
        async_shutdown_def co_bind_def rr_defs)
next
  case (Cons c cs)
  then obtain rs where acc: "accept (length c) (tx w dst) = Some rs" "accept_all cs rs = Some rest"
    and c: "c \<noteq> []"
    by (auto split: option.splits)
  let ?w = "w\<lparr>rx := (rx w)(src := map (\<lambda>c. (int (length c), c)) cs @ (res, buf) # later)\<rparr>"
  from writeFull_accept [of c ?w dst] acc obtain w' where w':
    "async_writeFull dst c ?w = Some (Inr (int (length c)), w')" "sent w' dst = sent w dst @ c"
    "tx w' dst = rs" "rx w' = rx ?w"
    by auto
  have "copy_stream (async_stream dst) (async_stream src) (\<lambda>_. False) w =
      copy_stream (async_stream dst) (async_stream src) (\<lambda>_. False) w'"
    using Cons.prems(1) c w'(1)
    by (simp add: copy_stream.simps [of _ _ _ w]
        async_recv_def recv_complete_def co_bind_def rr_defs)
  with Cons.IH [of w'] Cons.prems w' acc show ?case
    by auto
qed

text \<open>\<open>copyStream\<close> relays every byte it reads to the destination, in order, and shuts the
destination's write side down when the source ends, both on EOF (it returns true) and on a read
error (it returns false), provided the destination accepts the writes.\<close>

theorem copyStream_relays:
  assumes "rx w src = map (\<lambda>c. (int (length c), c)) cs @ (res, buf) # later" and "res \<le> 0"
    and "[] \<notin> set cs" and "accept_all cs (tx w dst) = Some rest"
  shows "\<exists>w'. copy_stream (async_stream dst) (async_stream src) (\<lambda>_. False) w =
      Some (Inr (res = 0), w') \<and>
    sent w' dst = sent w dst @ concat cs \<and> wr_shut w' dst \<and> rx w' src = later"
  using copy_stream_chunks [OF assms] by blast

lemma copyStream_relays_witness:
  "\<exists>w'. copy_stream (async_stream 4) (async_stream 3) (\<lambda>_. False)
      (net0\<lparr>rx := (\<lambda>_. [(2, [1, 2]), (1, [3]), (-104, [])]), tx := (\<lambda>_. [1, 1, 1])\<rparr>) =
      Some (Inr False, w') \<and> sent w' 4 = [1, 2, 3] \<and> wr_shut w' 4 \<and> rx w' 3 = []"
  using copyStream_relays [of "net0\<lparr>rx := (\<lambda>_. [(2, [1, 2]), (1, [3]), (-104, [])]), tx := (\<lambda>_. [1, 1, 1])\<rparr>"
      3 "[[1, 2], [3]]" "-104" "[]" "[]" 4 "[]"]
  by (fastforce simp: net0_def accept.simps)

section \<open>A send that fails after a partial one\<close>

text \<open>When a send fails after part of the data is out, \<open>writeFull\<close> returns the positive count
of bytes sent, not the error: a caller that tests for a result below one, as \<open>copyStream\<close> does,
takes it for success.\<close>

theorem writeFull_partial_is_positive:
  assumes "tx w fd = r # e # rs" and "0 < r" and "nat r < length data" and "e \<le> 0"
  shows "\<exists>w'. async_writeFull fd data w = Some (Inr r, w') \<and>
    sent w' fd = sent w fd @ take (nat r) data"
  using assms
  by (auto simp add: async_writeFull_def write_full_from.simps [of _ data 0]
      write_full_from.simps [of _ data "nat r"] async_send_def)

lemma writeFull_partial_is_positive_witness:
  "\<exists>w'. async_writeFull 4 [1, 2, 3] (net0\<lparr>tx := (\<lambda>_. [2, -104])\<rparr>) = Some (Inr 2, w') \<and>
    sent w' 4 = [1, 2]"
  using writeFull_partial_is_positive [of "net0\<lparr>tx := (\<lambda>_. [2, -104])\<rparr>" 4 2 "-104" "[]" "[1, 2, 3]"]
  by (simp add: net0_def)

end
