(* ===== verification/Udp_Relay.thy ===== *)
theory Udp_Relay
  imports Socks5 Streams_Props
begin

text \<open>
  UDP over the length-framed VLESS stream: the server's two relay loops
  (src/server/vless_connection_relay_udp.cpp) and the framing, session keys and return path of
  the client's \<open>Socks5UdpRelay\<close> (src/client/socks5_udp_relay.cpp).

  The relay loops are written against the stream interface \<open>stream_ops\<close>; the abstract
  specification is \<open>deframe\<close>, which cuts a byte stream into length-prefixed packets.
\<close>

section \<open>Server: client to target\<close>

text \<open>
  The inner loop over the complete packets in \<open>pending\<close> from \<open>offset\<close> on: whether every
  write succeeded, and the offset behind the last packet.
\<close>

function udp_forward :: "'s stream_ops \<Rightarrow> bytes \<Rightarrow> nat \<Rightarrow> ('s, bool \<times> nat) co" where
  "udp_forward target pending offset =
     (if length pending - offset \<ge> 2 then
        (let pktLen = unat (be16 (pending ! offset) (pending ! (offset + 1))) in
         if length pending - offset < 2 + pktLen then co_return (True, offset)
         else if pktLen > 0 then
           co_bind (st_writeFull target (take pktLen (drop (offset + 2) pending))) (\<lambda>written.
             if written \<le> 0 then co_return (False, offset)
             else udp_forward target pending (offset + (2 + pktLen)))
         else udp_forward target pending (offset + (2 + pktLen)))
      else co_return (True, offset))"
  by pat_completeness auto
termination
  by (relation "measure (\<lambda>(target, pending, offset). length pending - offset)") auto

declare udp_forward.simps [simp del]

partial_function (option) relayUdpClientToTarget ::
    "'s stream_ops \<Rightarrow> 's stream_ops \<Rightarrow> ('s \<Rightarrow> bool) \<Rightarrow> bytes \<Rightarrow> 's \<Rightarrow> ((exn + bool) \<times> 's) option" where
  "relayUdpClientToTarget target client closed pending s =
     (if closed s then Some (Inr True, s)
      else co_bind (udp_forward target pending 0) (\<lambda>r s.
        if \<not> fst r then Some (Inr False, s)
        else if snd r > 0 then relayUdpClientToTarget target client closed (drop (snd r) pending) s
        else co_bind (st_read client 8192) (\<lambda>rr s.
          if rr_eof rr then Some (Inr True, s)
          else if rr_error rr then Some (Inr False, s)
          else relayUdpClientToTarget target client closed (pending @ rr_data rr) s) s) s)"

section \<open>Server: target to client\<close>

definition udp_frame :: "bytes \<Rightarrow> bytes" where
  "udp_frame data =
     (let len = of_nat (length data) :: 16 word in [hi8 len, lo8 len] @ data)"

partial_function (option) relayUdpTargetToClient ::
    "'s stream_ops \<Rightarrow> 's stream_ops \<Rightarrow> ('s \<Rightarrow> bool) \<Rightarrow> 's \<Rightarrow> ((exn + unit) \<times> 's) option" where
  "relayUdpTargetToClient target client closed s =
     (if closed s then Some (Inr (), s)
      else co_bind (st_read target 65536) (\<lambda>rr s.
        if rr_eof rr then Some (Inr (), s)
        else if rr_error rr then Some (Inr (), s)
        else if length (rr_data rr) > 0xFFFF then relayUdpTargetToClient target client closed s
        else co_bind (st_writeFull client (udp_frame (rr_data rr))) (\<lambda>written s.
          if written \<le> 0 then Some (Inr (), s)
          else relayUdpTargetToClient target client closed s) s) s)"

section \<open>Client: sessions and return path\<close>

definition makeKey :: "(bytes \<Rightarrow> string option) \<Rightarrow> address \<Rightarrow> 16 word \<Rightarrow> string" where
  "makeKey ntop6 addr port =
     dec_nat (unat (socks_atyp addr)) @ ''|'' @ address_toString ntop6 addr @ '':'' @
     dec_nat (unat port)"

text \<open>The packets \<open>sessionOutTask\<close> takes out of one receive; a partial packet at the end is dropped.\<close>

function session_frames :: "bytes \<Rightarrow> nat \<Rightarrow> bytes list" where
  "session_frames data pos =
     (if pos + 2 \<le> length data then
        (let pktLen = unat (be16 (data ! pos) (data ! (pos + 1))) in
         if pos + 2 + pktLen > length data then []
         else take pktLen (drop (pos + 2) data) # session_frames data (pos + (2 + pktLen)))
      else [])"
  by pat_completeness auto
termination
  by (relation "measure (\<lambda>(data, pos). length data - pos)") auto

declare session_frames.simps [simp del]

section \<open>Packets of a byte stream\<close>

function deframe :: "bytes \<Rightarrow> bytes list \<times> bytes" where
  "deframe bs =
     (case bs of
        h # l # rest \<Rightarrow>
          (let n = unat (be16 h l) in
           if length rest < n then ([], bs)
           else (case deframe (drop n rest) of (ps, q) \<Rightarrow> (take n rest # ps, q)))
      | _ \<Rightarrow> ([], bs))"
  by pat_completeness auto
termination
  by (relation "measure length") auto

declare deframe.simps [simp del]

lemma unat_of_nat16: "n < 65536 \<Longrightarrow> unat (of_nat n :: 16 word) = n"
  by (simp add: unat_of_nat)

lemma deframe_more:
  "unat (be16 h l) \<le> length rest \<Longrightarrow> deframe (h # l # rest) =
     (take (unat (be16 h l)) rest # fst (deframe (drop (unat (be16 h l)) rest)),
      snd (deframe (drop (unat (be16 h l)) rest)))"
  by (subst deframe.simps) (simp add: Let_def split: prod.split)

lemma deframe_cases:
  obtains (stop) "deframe bs = ([], bs)"
      "\<And>h l rest. bs = h # l # rest \<Longrightarrow> length rest < unat (be16 h l)"
  | (more) h l rest where "bs = h # l # rest" "unat (be16 h l) \<le> length rest"
proof (cases "\<exists>h l rest. bs = h # l # rest \<and> unat (be16 h l) \<le> length rest")
  case False
  then have "deframe bs = ([], bs)"
    by (auto simp: deframe.simps [of bs] Let_def split: list.splits)
  with False show thesis
    by (intro stop) (auto simp: not_le)
qed (auto intro: more)

lemma deframe_induct [case_names stop more]:
  assumes "\<And>bs. deframe bs = ([], bs) \<Longrightarrow>
      (\<And>h l rest. bs = h # l # rest \<Longrightarrow> length rest < unat (be16 h l)) \<Longrightarrow> P bs"
    and "\<And>h l rest. unat (be16 h l) \<le> length rest \<Longrightarrow> P (drop (unat (be16 h l)) rest) \<Longrightarrow>
      P (h # l # rest)"
  shows "P bs"
proof (induction "length bs" arbitrary: bs rule: less_induct)
  case less
  show ?case
  proof (cases bs rule: deframe_cases)
    case stop
    then show ?thesis by (rule assms(1))
  next
    case (more h l rest)
    then show ?thesis using assms(2) [of h l rest] less by simp
  qed
qed

lemma deframe_frame:
  "length p < 65536 \<Longrightarrow> deframe (udp_frame p @ bs) = (p # fst (deframe bs), snd (deframe bs))"
  by (simp add: udp_frame_def Let_def unat_of_nat16 deframe_more)

text \<open>No packet is complete in the rest, which is a suffix.\<close>

lemma deframe_rest: "deframe (snd (deframe bs)) = ([], snd (deframe bs))"
  by (induction bs rule: deframe_induct) (simp_all add: deframe_more)

lemma deframe_suffix:
  "length (snd (deframe bs)) \<le> length bs \<and> drop (length bs - length (snd (deframe bs))) bs = snd (deframe bs)"
proof (induction bs rule: deframe_induct)
  case (more h l rest)
  let ?n = "unat (be16 h l)"
  let ?q = "snd (deframe (drop ?n rest))"
  have q: "length ?q \<le> length rest - ?n" "drop (length rest - ?n - length ?q) (drop ?n rest) = ?q"
    using more.IH by simp_all
  have "length (h # l # rest) - length ?q = Suc (Suc (length rest - length ?q))"
    using more.hyps q(1) by simp
  moreover have "length rest - length ?q = length rest - ?n - length ?q + ?n"
    using more.hyps q(1) by simp
  ultimately have "drop (length (h # l # rest) - length ?q) (h # l # rest) = ?q"
    using q(2) by (simp del: diff_diff_left)
  then show ?case
    using more.hyps q(1) by (simp add: deframe_more)
qed simp

lemma deframe_append:
  "deframe (bs @ cs) = (fst (deframe bs) @ fst (deframe (snd (deframe bs) @ cs)),
     snd (deframe (snd (deframe bs) @ cs)))"
  by (induction bs rule: deframe_induct) (simp_all add: deframe_more)

end
