(* ===== verification/Server.thy ===== *)
theory Server
  imports Sys_Interface Protocol Vision Encryption Udp_Relay
begin

text \<open>
  The server's connection (include/server/vless_connection.h, src/server/vless_connection*.cpp):
  handshake, session set-up, connecting to the target, the relays of both directions, and the
  end of the two coroutines.

  \<open>vconn\<close> is the object; the kernel behind its streams is the \<open>net\<close> inside \<open>vc_stream\<close>, the
  buffered stream of the handshake. \<open>server_env\<close> holds what the object is constructed with and
  the services of the system: name resolution, socket creation, the result of connecting, and, when
  TLS is configured, the TLS handshake and stream. \<open>close\<close>, \<open>shutdown\<close> and \<open>cancelFd\<close> calls are
  logged in \<open>vc_log\<close>.
\<close>

section \<open>State\<close>

record server_env =
  se_validator :: validator
  se_tls :: "((net, bool) co \<times> net stream_ops) option"
  se_getaddrinfo :: "string \<Rightarrow> string \<Rightarrow> bool \<Rightarrow> sockaddr list option"
  se_socket :: "sockaddr \<Rightarrow> bool \<Rightarrow> int"
  se_connect :: "int \<Rightarrow> sockaddr \<Rightarrow> (net, int) co"
  se_crypto :: crypto
  se_uni :: "nat \<Rightarrow> nat \<Rightarrow> nat"

record vconn =
  clientFd :: int
  targetFd :: int
  vc_stream :: "net ubs"
  vc_closed :: bool
  clientReadDone :: bool
  targetReadDone :: bool
  targetTaskStarted :: bool
  targetAddr :: "sockaddr option"
  handshakeRemaining :: bytes
  useVision :: bool
  visionCtx :: "vision_context option"
  visionReader :: vision_reader
  visionWriter :: vision_writer
  useEncryption :: bool
  encryptionSession :: enc_session
  clientPublicKey :: bytes
  vc_command :: command
  vc_evp :: evp_world
  vc_log :: "syscall list"

definition VlessConnection :: "int \<Rightarrow> evp_world \<Rightarrow> net \<Rightarrow> vconn" where
  "VlessConnection fd evp w = \<lparr>clientFd = fd, targetFd = -1, vc_stream = ubs_init w, vc_closed = False,
     clientReadDone = False, targetReadDone = False, targetTaskStarted = False, targetAddr = None,
     handshakeRemaining = [], useVision = False, visionCtx = None,
     visionReader = vision_reader_init [], visionWriter = vision_writer_init [], useEncryption = False,
     encryptionSession = enc_session_init EncNone, clientPublicKey = [], vc_command = TCP,
     vc_evp = evp, vc_log = []\<rparr>"

definition vc_hasFd :: "int \<Rightarrow> vconn \<Rightarrow> bool" where
  "vc_hasFd fd s \<longleftrightarrow> fd = clientFd s \<or> fd = targetFd s"

text \<open>Running a coroutine of the network, or of the buffered stream, in the connection.\<close>

definition vc_net :: "vconn \<Rightarrow> net" where
  "vc_net s = ubs_inner (vc_stream s)"

definition set_net :: "net \<Rightarrow> vconn \<Rightarrow> vconn" where
  "set_net w s = s\<lparr>vc_stream := (vc_stream s)\<lparr>ubs_inner := w\<rparr>\<rparr>"

definition on_net :: "(net, 'a) co \<Rightarrow> (vconn, 'a) co" where
  "on_net = embed vc_net set_net"

definition on_stream :: "(net ubs, 'a) co \<Rightarrow> (vconn, 'a) co" where
  "on_stream = embed vc_stream (\<lambda>b s. s\<lparr>vc_stream := b\<rparr>)"

definition on_net_ops :: "net stream_ops \<Rightarrow> vconn stream_ops" where
  "on_net_ops = embed_ops vc_net set_net"

interpretation vc_part: part vc_net set_net
  by unfold_locales (simp_all add: vc_net_def set_net_def)

text \<open>\<open>clientStream_\<close>: the TLS stream when TLS is configured, else the plain one.\<close>

definition client_ops :: "server_env \<Rightarrow> int \<Rightarrow> net stream_ops" where
  "client_ops E fd = (case se_tls E of None \<Rightarrow> async_stream fd | Some (_, ops) \<Rightarrow> ops)"

definition clientStream :: "server_env \<Rightarrow> vconn \<Rightarrow> vconn stream_ops" where
  "clientStream E s = on_net_ops (client_ops E (clientFd s))"

definition targetStream :: "vconn \<Rightarrow> vconn stream_ops" where
  "targetStream s = on_net_ops (async_stream (targetFd s))"

definition vc_logs :: "syscall list \<Rightarrow> vconn \<Rightarrow> vconn" where
  "vc_logs cs s = s\<lparr>vc_log := vc_log s @ cs\<rparr>"

section \<open>Handshake and set-up\<close>

definition processHandshake :: "server_env \<Rightarrow> (vconn, request) co" where
  "processHandshake E s =
     co_bind (on_stream (decode (ubs_read (st_read (client_ops E (clientFd s)))) (se_validator E))) (\<lambda>req.
       co_bind (on_stream ubs_drainRemaining) (\<lambda>remaining.
         co_bind (co_modify (\<lambda>s. if remaining \<noteq> [] then s\<lparr>handshakeRemaining := remaining\<rparr> else s)) (\<lambda>_.
           co_return req))) s"

definition setupVision :: "request \<Rightarrow> (vconn, bool) co" where
  "setupVision req s =
     (if req_flow req = ''xtls-rprx-vision'' then
        Some (Inr True, s\<lparr>useVision := True, visionCtx := Some vision_context_init,
          visionReader := vision_reader_init (req_uuid req), visionWriter := vision_writer_init (req_uuid req)\<rparr>)
      else if req_flow req \<noteq> [] then Some (Inr False, s)
      else Some (Inr True, s))"

definition encryption_of_name :: "string \<Rightarrow> encryption_method option" where
  "encryption_of_name n =
     (if n = ''aes-256-gcm'' \<or> n = ''aes256gcm'' then Some X25519_AES256GCM
      else if n = ''chacha20-poly1305'' \<or> n = ''chacha20'' then Some X25519_Chacha20 else None)"

definition setupEncryption :: "server_env \<Rightarrow> request \<Rightarrow> (vconn, bool) co" where
  "setupEncryption E req s =
     (if req_encryption req = [] then Some (Inr True, s)
      else case encryption_of_name (req_encryption req) of
        None \<Rightarrow> Some (Inr False, s)
      | Some method \<Rightarrow>
          (let s = s\<lparr>encryptionSession := enc_session_init method, useEncryption := True\<rparr> in
           co_bind (on_stream (ubs_read (st_read (client_ops E (clientFd s))) 32)) (\<lambda>key s.
             if length key \<noteq> 32 then Some (Inr False, s)
             else case generateKeyPair (se_crypto E) (encryptionSession s) (vc_evp s) of
               (Inl e, es, w) \<Rightarrow> Some (Inl e, s\<lparr>clientPublicKey := key, encryptionSession := es, vc_evp := w\<rparr>)
             | (Inr _, es, w) \<Rightarrow>
                 Some (Inr True, s\<lparr>clientPublicKey := key, encryptionSession := es, vc_evp := w\<rparr>)) s))"

definition sendResponseAndKey :: "server_env \<Rightarrow> byte \<Rightarrow> (vconn, bool) co" where
  "sendResponseAndKey E version s =
     co_bind (st_writeFull (clientStream E s) (encodeResponse version)) (\<lambda>sendResult s.
       if sendResult < 0 then Some (Inr False, s)
       else if useEncryption s then
         co_bind (st_writeFull (clientStream E s) (publicKey (encryptionSession s))) (\<lambda>sendKeyResult s.
           if sendKeyResult \<le> 0 then Some (Inr False, s)
           else case computeSharedSecret (se_crypto E) (clientPublicKey s) (encryptionSession s) (vc_evp s) of
             (Inl e, es, w) \<Rightarrow> Some (Inl e, s\<lparr>encryptionSession := es, vc_evp := w\<rparr>)
           | (Inr ok, es, w) \<Rightarrow> Some (Inr ok, s\<lparr>encryptionSession := es, vc_evp := w\<rparr>)) s
       else Some (Inr True, s)) s"

section \<open>Connecting to the target\<close>

fun supported_family :: "sockaddr \<Rightarrow> bool" where
  "supported_family (SockaddrOther _) = False" | "supported_family _ = True"

definition target_sockaddr :: "server_env \<Rightarrow> request \<Rightarrow> sockaddr option" where
  "target_sockaddr E req =
     (case req_address req of
        IPv4 ip \<Rightarrow> Some (SockaddrIn ip (req_port req))
      | IPv6 ip \<Rightarrow> Some (SockaddrIn6 ip (req_port req))
      | Domain domain \<Rightarrow>
          (case se_getaddrinfo E (c_str domain) (dec_nat (unat (req_port req))) (req_command req = UDP) of
             None \<Rightarrow> None
           | Some res \<Rightarrow> find supported_family res))"

definition createTargetSocket :: "server_env \<Rightarrow> request \<Rightarrow> vconn \<Rightarrow> int \<times> vconn" where
  "createTargetSocket E req s =
     (let s = s\<lparr>targetAddr := None\<rparr> in
      case target_sockaddr E req of
        None \<Rightarrow> (-1, s)
      | Some addr \<Rightarrow>
          (let s = s\<lparr>targetAddr := Some addr\<rparr>;
               fd = se_socket E addr (req_command req = UDP)
           in if fd < 0 then (-1, s) else (fd, s)))"

definition connectTarget :: "server_env \<Rightarrow> request \<Rightarrow> (vconn, bool) co" where
  "connectTarget E req s =
     (case createTargetSocket E req s of (fd, s) \<Rightarrow>
        if fd < 0 then Some (Inr False, s)
        else co_bind (on_net (se_connect E fd (the (targetAddr s)))) (\<lambda>connectResult s.
          if connectResult < 0 then Some (Inr False, vc_logs [CloseFd fd] s)
          else Some (Inr True, s\<lparr>targetFd := fd\<rparr>)) s)"

section \<open>Client to target\<close>

definition forwardHandshakeRemaining :: "server_env \<Rightarrow> (vconn, bool) co" where
  "forwardHandshakeRemaining E s =
     (if handshakeRemaining s = [] then Some (Inr True, s)
      else
        (let forward = (\<lambda>data s.
               co_bind (st_writeFull (targetStream s) data) (\<lambda>fwdResult s.
                 if fwdResult \<le> 0 then Some (Inr False, s)
                 else Some (Inr True, s\<lparr>handshakeRemaining := []\<rparr>)) s)
         in if useEncryption s then
              (case decryptClient (se_crypto E) (handshakeRemaining s) (encryptionSession s) (vc_evp s) of
                 (None, w) \<Rightarrow> Some (Inr False, s\<lparr>vc_evp := w\<rparr>)
               | (Some plaintext, w) \<Rightarrow>
                   (if plaintext \<noteq> [] then forward plaintext (s\<lparr>vc_evp := w\<rparr>)
                    else Some (Inr True, s\<lparr>vc_evp := w, handshakeRemaining := []\<rparr>)))
            else if useVision s then
              (case vr_process (handshakeRemaining s) (visionReader s) (visionCtx s) of
                 (unpadded, r, ctx) \<Rightarrow>
                   (let s = s\<lparr>visionReader := r, visionCtx := ctx\<rparr> in
                    if unpadded \<noteq> [] then forward unpadded s
                    else Some (Inr True, s\<lparr>handshakeRemaining := []\<rparr>)))
            else forward (handshakeRemaining s) s))"

text \<open>The three relay loops; the \<open>while\<close> test is on \<open>closed_\<close>.\<close>

partial_function (option) relay_up_encrypted :: "server_env \<Rightarrow> vconn \<Rightarrow> ((exn + bool) \<times> vconn) option" where
  "relay_up_encrypted E s =
     (if vc_closed s then Some (Inr True, s)
      else co_bind (st_read (clientStream E s) 8192) (\<lambda>rr s.
        if rr_eof rr then co_bind (st_shutdownWrite (targetStream s)) (\<lambda>_. co_return True) s
        else if rr_error rr then co_bind (st_shutdownWrite (targetStream s)) (\<lambda>_. co_return False) s
        else case decryptClient (se_crypto E) (rr_data rr) (encryptionSession s) (vc_evp s) of
          (None, w) \<Rightarrow> Some (Inr False, s\<lparr>vc_evp := w\<rparr>)
        | (Some plaintext, w) \<Rightarrow>
            (if plaintext \<noteq> [] then
               co_bind (st_writeFull (targetStream s) plaintext) (\<lambda>written s.
                 if written \<le> 0 then Some (Inr False, s) else relay_up_encrypted E s) (s\<lparr>vc_evp := w\<rparr>)
             else relay_up_encrypted E (s\<lparr>vc_evp := w\<rparr>))) s)"

definition vision_unpad :: "bytes \<Rightarrow> vconn \<Rightarrow> bytes \<times> vconn" where
  "vision_unpad data s =
     (if \<not> vr_directCopy (visionReader s) then
        (case vr_process data (visionReader s) (visionCtx s) of
           (out, r, ctx) \<Rightarrow> (out, s\<lparr>visionReader := r, visionCtx := ctx\<rparr>))
      else (data, s))"

partial_function (option) relay_up_vision :: "server_env \<Rightarrow> vconn \<Rightarrow> ((exn + bool) \<times> vconn) option" where
  "relay_up_vision E s =
     (if vc_closed s then Some (Inr True, s)
      else co_bind (st_read (clientStream E s) 8192) (\<lambda>rr s.
        if rr_eof rr then co_bind (st_shutdownWrite (targetStream s)) (\<lambda>_. co_return True) s
        else if rr_error rr then co_bind (st_shutdownWrite (targetStream s)) (\<lambda>_. co_return False) s
        else case vision_unpad (rr_data rr) s of (data, s) \<Rightarrow>
          co_bind (if data \<noteq> [] then st_writeFull (targetStream s) data else co_return 1) (\<lambda>written s.
            if written \<le> 0 then Some (Inr False, s)
            else if vr_directCopy (visionReader s) then
              copy_stream (targetStream s) (clientStream E s) vc_closed s
            else relay_up_vision E s) s) s)"

definition relayClientToTarget :: "server_env \<Rightarrow> (vconn, bool) co" where
  "relayClientToTarget E s =
     (if useEncryption s then relay_up_encrypted E s
      else if useVision s then relay_up_vision E s
      else copy_stream (targetStream s) (clientStream E s) vc_closed s)"

section \<open>Target to client\<close>

partial_function (option) relay_down_encrypted ::
    "server_env \<Rightarrow> int \<Rightarrow> vconn \<Rightarrow> ((exn + bool) \<times> vconn) option" where
  "relay_down_encrypted E fd s =
     (if vc_closed s then Some (Inr True, s)
      else co_bind (on_net (async_recv fd 8192)) (\<lambda>rr s.
        if rr_eof rr then co_bind (st_shutdownWrite (clientStream E s)) (\<lambda>_. co_return True) s
        else if rr_error rr then co_bind (st_shutdownWrite (clientStream E s)) (\<lambda>_. co_return False) s
        else case encryptServer (se_crypto E) (rr_data rr) (encryptionSession s) (vc_evp s) of
          (None, es, w) \<Rightarrow> Some (Inr False, s\<lparr>encryptionSession := es, vc_evp := w\<rparr>)
        | (Some ciphertext, es, w) \<Rightarrow>
            co_bind (st_writeFull (clientStream E s) ciphertext) (\<lambda>written s.
              if written \<le> 0 then Some (Inr False, s) else relay_down_encrypted E fd s)
              (s\<lparr>encryptionSession := es, vc_evp := w\<rparr>)) s)"

definition vision_pad :: "server_env \<Rightarrow> bytes \<Rightarrow> vconn \<Rightarrow> bytes \<times> vconn" where
  "vision_pad E data s =
     (if \<not> vw_directCopy (visionWriter s) then
        (case vw_process (se_uni E) data (visionWriter s) (visionCtx s) of
           (out, w, ctx) \<Rightarrow> (out, s\<lparr>visionWriter := w, visionCtx := ctx\<rparr>))
      else (data, s))"

partial_function (option) relay_down_vision ::
    "server_env \<Rightarrow> int \<Rightarrow> vconn \<Rightarrow> ((exn + bool) \<times> vconn) option" where
  "relay_down_vision E fd s =
     (if vc_closed s then Some (Inr True, s)
      else co_bind (on_net (async_recv fd 8192)) (\<lambda>rr s.
        if rr_eof rr then co_bind (st_shutdownWrite (clientStream E s)) (\<lambda>_. co_return True) s
        else if rr_error rr then co_bind (st_shutdownWrite (clientStream E s)) (\<lambda>_. co_return False) s
        else case vision_pad E (rr_data rr) s of (data, s) \<Rightarrow>
          co_bind (if data \<noteq> [] then st_writeFull (clientStream E s) data else co_return 1) (\<lambda>written s.
            if written \<le> 0 then Some (Inr False, s)
            else if vw_directCopy (visionWriter s) then
              copy_stream (clientStream E s) (on_net_ops (async_stream fd)) vc_closed s
            else relay_down_vision E fd s) s) s)"

definition target_relay :: "server_env \<Rightarrow> int \<Rightarrow> (vconn, bool) co" where
  "target_relay E fd s =
     (if vc_command s = UDP then
        co_bind (relayUdpTargetToClient (targetStream s) (clientStream E s) vc_closed) (\<lambda>_. co_return True) s
      else if useEncryption s then relay_down_encrypted E fd s
      else if useVision s then relay_down_vision E fd s
      else copy_stream (clientStream E s) (on_net_ops (async_stream fd)) vc_closed s)"

text \<open>What \<open>targetTask\<close> does after its relay, whether that returned or threw.\<close>

definition targetTask_end :: "vconn \<Rightarrow> vconn" where
  "targetTask_end s =
     (let s = s\<lparr>targetReadDone := True\<rparr>;
          s = (if \<not> clientReadDone s \<and> clientFd s \<ge> 0 then vc_logs [ShutdownFd (clientFd s)] s else s)
      in if clientReadDone s \<and> targetReadDone s then s\<lparr>vc_closed := True\<rparr> else s)"

definition targetTask :: "server_env \<Rightarrow> int \<Rightarrow> (vconn, unit) co" where
  "targetTask E fd s =
     (case target_relay E fd s of None \<Rightarrow> None | Some (r, s) \<Rightarrow> Some (Inr (), targetTask_end s))"

section \<open>Sessions\<close>

text \<open>The new coroutine runs concurrently; for this one, starting it sets the flag.\<close>

definition startTargetTask :: "vconn \<Rightarrow> vconn" where
  "startTargetTask s = s\<lparr>targetTaskStarted := True\<rparr>"

definition runTcpSession :: "server_env \<Rightarrow> request \<Rightarrow> (vconn, bool) co" where
  "runTcpSession E req =
     co_bind (setupVision req) (\<lambda>ok. if \<not> ok then co_return False
     else co_bind (setupEncryption E req) (\<lambda>ok. if \<not> ok then co_return False
     else co_bind (sendResponseAndKey E (req_version req)) (\<lambda>ok. if \<not> ok then co_return False
     else co_bind (connectTarget E req) (\<lambda>ok. if \<not> ok then co_return False
     else co_bind (co_modify startTargetTask) (\<lambda>_.
       co_bind (forwardHandshakeRemaining E) (\<lambda>ok. if \<not> ok then co_return False
       else relayClientToTarget E))))))"

definition runUdpSession :: "server_env \<Rightarrow> request \<Rightarrow> (vconn, bool) co" where
  "runUdpSession E req =
     (if req_flow req \<noteq> [] \<or> req_encryption req \<noteq> [] then co_return False
      else co_bind (sendResponseAndKey E (req_version req)) (\<lambda>ok. if \<not> ok then co_return False
      else co_bind (connectTarget E req) (\<lambda>ok. if \<not> ok then co_return False
      else co_bind (co_modify startTargetTask) (\<lambda>_ s.
        relayUdpClientToTarget (targetStream s) (clientStream E s) vc_closed (handshakeRemaining s)
          (s\<lparr>handshakeRemaining := []\<rparr>)))))"

definition finishClientTask :: "vconn \<Rightarrow> vconn" where
  "finishClientTask s =
     (let s = s\<lparr>clientReadDone := True\<rparr> in
      if \<not> targetTaskStarted s then s\<lparr>vc_closed := True\<rparr>
      else if \<not> targetReadDone s \<and> targetFd s \<ge> 0 then vc_logs [ShutdownFd (targetFd s)] s
      else s\<lparr>vc_closed := True\<rparr>)"

definition clientTask :: "server_env \<Rightarrow> (vconn, unit) co" where
  "clientTask E s =
     (let session =
            co_bind (processHandshake E) (\<lambda>req.
              co_bind (co_modify (\<lambda>s. s\<lparr>vc_command := req_command req\<rparr>)) (\<lambda>_.
                case req_command req of
                  TCP \<Rightarrow> runTcpSession E req
                | UDP \<Rightarrow> runUdpSession E req
                | _ \<Rightarrow> co_return False));
          body = (case se_tls E of
                    None \<Rightarrow> session
                  | Some (handshake, _) \<Rightarrow>
                      co_bind (on_net handshake) (\<lambda>ok. if \<not> ok then co_return False else session))
      in case body s of None \<Rightarrow> None | Some (r, s) \<Rightarrow> Some (Inr (), finishClientTask s))"

definition doClose :: "vconn \<Rightarrow> vconn" where
  "doClose s =
     (let s = s\<lparr>vc_closed := True\<rparr>;
          s = (if clientFd s \<ge> 0 then vc_logs [CancelFd (clientFd s)] s else s);
          s = (if targetFd s \<ge> 0 then vc_logs [CancelFd (targetFd s)] s else s);
          s = (if targetFd s \<ge> 0 then (vc_logs [CloseFd (targetFd s)] s)\<lparr>targetFd := -1\<rparr> else s)
      in if clientFd s \<ge> 0 then (vc_logs [CloseFd (clientFd s)] s)\<lparr>clientFd := -1\<rparr> else s)"

section \<open>The life of a connection\<close>

text \<open>
  The two coroutines of a connection as the event loop sees them. A relay step of a running
  coroutine may change anything but the four flags and the descriptors. \<open>LClientEnd\<close> and \<open>LTargetEnd\<close> are the last
  steps of a coroutine; the loop destroys a connection that reports \<open>isClosed\<close>.
\<close>

datatype task_state = NotStarted | Running | Ended

record life =
  lf_conn :: vconn
  lf_client :: task_state
  lf_target :: task_state
  lf_destroyed :: bool

definition same_flags :: "vconn \<Rightarrow> vconn \<Rightarrow> bool" where
  "same_flags s s' \<longleftrightarrow> clientFd s' = clientFd s \<and> targetFd s' = targetFd s \<and> vc_closed s' = vc_closed s \<and>
     clientReadDone s' = clientReadDone s \<and> targetReadDone s' = targetReadDone s \<and>
     targetTaskStarted s' = targetTaskStarted s \<and> vc_log s' = vc_log s"

inductive life_step :: "life \<Rightarrow> life \<Rightarrow> bool" where
  LStart: "\<not> lf_destroyed l \<Longrightarrow> lf_client l = NotStarted \<Longrightarrow> \<not> vc_closed (lf_conn l) \<Longrightarrow>
    life_step l (l\<lparr>lf_client := Running\<rparr>)"
| LRelay: "\<not> lf_destroyed l \<Longrightarrow> lf_client l = Running \<or> lf_target l = Running \<Longrightarrow> same_flags (lf_conn l) s' \<Longrightarrow>
    life_step l (l\<lparr>lf_conn := s'\<rparr>)"
| LConnectFailed: "\<not> lf_destroyed l \<Longrightarrow> lf_client l = Running \<Longrightarrow> lf_target l = NotStarted \<Longrightarrow> 0 \<le> fd \<Longrightarrow>
    targetFd (lf_conn l) = -1 \<Longrightarrow> fd \<noteq> clientFd (lf_conn l) \<Longrightarrow>
    life_step l (l\<lparr>lf_conn := vc_logs [CloseFd fd] (lf_conn l)\<rparr>)"
| LConnected: "\<not> lf_destroyed l \<Longrightarrow> lf_client l = Running \<Longrightarrow> lf_target l = NotStarted \<Longrightarrow> 0 \<le> fd \<Longrightarrow>
    targetFd (lf_conn l) = -1 \<Longrightarrow> fd \<noteq> clientFd (lf_conn l) \<Longrightarrow>
    life_step l (l\<lparr>lf_conn := startTargetTask ((lf_conn l)\<lparr>targetFd := fd\<rparr>), lf_target := Running\<rparr>)"
| LClientEnd: "\<not> lf_destroyed l \<Longrightarrow> lf_client l = Running \<Longrightarrow>
    life_step l (l\<lparr>lf_conn := finishClientTask (lf_conn l), lf_client := Ended\<rparr>)"
| LTargetEnd: "\<not> lf_destroyed l \<Longrightarrow> lf_target l = Running \<Longrightarrow>
    life_step l (l\<lparr>lf_conn := targetTask_end (lf_conn l), lf_target := Ended\<rparr>)"
| LCleanup: "\<not> lf_destroyed l \<Longrightarrow> vc_closed (lf_conn l) \<Longrightarrow>
    life_step l (l\<lparr>lf_conn := doClose (lf_conn l), lf_destroyed := True\<rparr>)"

inductive_cases life_stepE: "life_step l l'"

inductive life_reach :: "int \<Rightarrow> life \<Rightarrow> bool" for fd :: int where
  life_init: "0 \<le> fd \<Longrightarrow> life_reach fd \<lparr>lf_conn = VlessConnection fd evp w, lf_client = NotStarted,
    lf_target = NotStarted, lf_destroyed = False\<rparr>"
| life_next: "life_reach fd l \<Longrightarrow> life_step l l' \<Longrightarrow> life_reach fd l'"

end
