(* ===== verification/Json.thy ===== *)
theory Json
  imports Uuid
begin

text \<open>
  The JSON reader of the configuration files (\<open>Json\<close>, \<open>JsonParser\<close>, \<open>jsonEscape\<close> in
  src/common/config.cpp). The position in the text is the suffix still to be read.

  \<open>strtod\<close> followed by the cast to \<open>long long\<close> is the parameter \<open>num\<close>, so a number
  node holds the integer \<open>asInt\<close> returns. The recursive descent runs on fuel; running out is
  the separate outcome \<open>NoFuel\<close>, and \<open>jp_value_fuel\<close> shows that twice the length of the
  text plus one is always enough.
\<close>

section \<open>Documents\<close>

datatype json = JNull | JBool bool | JNumber int | JString string | JArray "json list"
  | JObject "(string \<times> json) list"

fun isObject :: "json \<Rightarrow> bool" where
  "isObject (JObject _) = True" | "isObject _ = False"

definition json_size :: "json \<Rightarrow> nat" where
  "json_size j = (case j of JArray vs \<Rightarrow> length vs | _ \<Rightarrow> 0)"

definition json_at :: "json \<Rightarrow> nat \<Rightarrow> json option" where
  "json_at j i = (case j of JArray vs \<Rightarrow> if i < length vs then Some (vs ! i) else None | _ \<Rightarrow> None)"

text \<open>\<open>get\<close> finds the first pair with the key.\<close>

fun json_get :: "json \<Rightarrow> string \<Rightarrow> json option" where
  "json_get (JObject kvs) key = map_of kvs key"
| "json_get _ key = None"

section \<open>Scanning\<close>

definition isspace :: "char \<Rightarrow> bool" where
  "isspace c \<longleftrightarrow> (of_char c :: nat) = 32 \<or> 9 \<le> (of_char c :: nat) \<and> (of_char c :: nat) \<le> 13"

definition skipWs :: "string \<Rightarrow> string" where
  "skipWs s = dropWhile isspace s"

definition jconsume :: "char \<Rightarrow> string \<Rightarrow> string option" where
  "jconsume c s = (case s of [] \<Rightarrow> None | x # r \<Rightarrow> if x = c then Some r else None)"

datatype 'a presult = POk 'a string | PFail | NoFuel

definition parseLiteral :: "string \<Rightarrow> json \<Rightarrow> string \<Rightarrow> json presult" where
  "parseLiteral lit v s = (if take (length lit) s = lit then POk v (drop (length lit) s) else PFail)"

definition num_char :: "char \<Rightarrow> bool" where
  "num_char c \<longleftrightarrow> is_digit c \<or> c = CHR ''.'' \<or> c = CHR ''e'' \<or> c = CHR ''E'' \<or>
     c = CHR ''+'' \<or> c = CHR ''-''"

text \<open>\<open>strtod\<close> reads from the token on to the end of the text, not only the token.\<close>

definition parseNumber :: "(string \<Rightarrow> int) \<Rightarrow> string \<Rightarrow> json presult" where
  "parseNumber num s =
     (let r = (case s of c # r \<Rightarrow> if c = CHR ''-'' then r else s | [] \<Rightarrow> []);
          rest = dropWhile num_char r
      in if length rest = length s then PFail
         else POk (JNumber (num (takeWhile (\<lambda>c. c \<noteq> CHR 0x00) s))) rest)"

definition utf8 :: "nat \<Rightarrow> string" where
  "utf8 code =
     (if code < 0x80 then [char_of code]
      else if code < 0x800 then
        [char_of (0xC0 OR drop_bit 6 code), char_of (0x80 OR (code AND 0x3F))]
      else
        [char_of (0xE0 OR drop_bit 12 code), char_of (0x80 OR (drop_bit 6 code AND 0x3F)),
         char_of (0x80 OR (code AND 0x3F))])"

text \<open>The four hexadecimal digits of a \<open>\u\<close> escape.\<close>

fun hex4 :: "nat \<Rightarrow> nat \<Rightarrow> string \<Rightarrow> (nat \<times> string) option" where
  "hex4 0 code s = Some (code, s)"
| "hex4 (Suc k) code [] = None"
| "hex4 (Suc k) code (h # s) =
     (if hexValue h < 0 then None else hex4 k (push_bit 4 code OR nat (hexValue h)) s)"

lemma hex4_length: "hex4 k code s = Some (c, r) \<Longrightarrow> length r \<le> length s"
  by (induction k code s rule: hex4.induct) (auto split: if_splits)

definition simple_escape :: "char \<Rightarrow> char option" where
  "simple_escape c =
     (if c = CHR 0x22 then Some (CHR 0x22) else if c = CHR 0x5C then Some (CHR 0x5C)
      else if c = CHR ''/'' then Some (CHR ''/'')
      else if c = CHR ''n'' then Some (CHR 0x0A) else if c = CHR ''t'' then Some (CHR 0x09)
      else if c = CHR ''r'' then Some (CHR 0x0D) else if c = CHR ''b'' then Some (CHR 0x08)
      else if c = CHR ''f'' then Some (CHR 0x0C) else None)"

text \<open>The loop of \<open>parseString\<close>, behind the opening quote.\<close>

function string_loop :: "string \<Rightarrow> string \<Rightarrow> (string \<times> string) option" where
  "string_loop out s =
     (case s of
        [] \<Rightarrow> None
      | c # r \<Rightarrow>
          (if c = CHR 0x22 then Some (out, r)
           else if c = CHR 0x5C then
             (case r of
                [] \<Rightarrow> None
              | esc # r' \<Rightarrow>
                  (if esc = CHR ''u'' then
                     (if length r' < 4 then None
                      else case hex4 4 0 r' of
                        None \<Rightarrow> None
                      | Some (code, r'') \<Rightarrow> string_loop (out @ utf8 code) r'')
                   else case simple_escape esc of
                     None \<Rightarrow> None
                   | Some e \<Rightarrow> string_loop (out @ [e]) r'))
           else string_loop (out @ [c]) r))"
  by pat_completeness auto
termination
  by (relation "measure (\<lambda>(out, s). length s)") (auto dest: hex4_length)

declare string_loop.simps [simp del]

definition parseString :: "string \<Rightarrow> (string \<times> string) option" where
  "parseString s = (case jconsume (CHR 0x22) s of None \<Rightarrow> None | Some r \<Rightarrow> string_loop [] r)"

section \<open>The recursive descent\<close>

text \<open>
  \<open>jp_array\<close> and \<open>jp_object\<close> are the \<open>for (;;)\<close> loops with the elements read so far.
\<close>

fun jp_value :: "(string \<Rightarrow> int) \<Rightarrow> nat \<Rightarrow> string \<Rightarrow> json presult"
  and jp_array :: "(string \<Rightarrow> int) \<Rightarrow> nat \<Rightarrow> json list \<Rightarrow> string \<Rightarrow> json presult"
  and jp_object :: "(string \<Rightarrow> int) \<Rightarrow> nat \<Rightarrow> (string \<times> json) list \<Rightarrow> string \<Rightarrow> json presult"
where
  "jp_value num 0 s = NoFuel"
| "jp_value num (Suc f) s =
     (case s of
        [] \<Rightarrow> PFail
      | c # r \<Rightarrow>
          if c = CHR ''{'' then
            (case jconsume (CHR ''}'') (skipWs r) of
               Some r' \<Rightarrow> POk (JObject []) r'
             | None \<Rightarrow> jp_object num f [] (skipWs r))
          else if c = CHR ''['' then
            (case jconsume (CHR '']'') (skipWs r) of
               Some r' \<Rightarrow> POk (JArray []) r'
             | None \<Rightarrow> jp_array num f [] (skipWs r))
          else if c = CHR 0x22 then
            (case parseString s of None \<Rightarrow> PFail | Some (str, r') \<Rightarrow> POk (JString str) r')
          else if c = CHR ''t'' then parseLiteral ''true'' (JBool True) s
          else if c = CHR ''f'' then parseLiteral ''false'' (JBool False) s
          else if c = CHR ''n'' then parseLiteral ''null'' JNull s
          else parseNumber num s)"
| "jp_array num 0 vs s = NoFuel"
| "jp_array num (Suc f) vs s =
     (case jp_value num f (skipWs s) of
        NoFuel \<Rightarrow> NoFuel
      | PFail \<Rightarrow> PFail
      | POk v r \<Rightarrow>
          (case jconsume (CHR '']'') (skipWs r) of
             Some r' \<Rightarrow> POk (JArray (vs @ [v])) r'
           | None \<Rightarrow>
               (case jconsume (CHR '','') (skipWs r) of
                  None \<Rightarrow> PFail
                | Some r' \<Rightarrow> jp_array num f (vs @ [v]) r')))"
| "jp_object num 0 kvs s = NoFuel"
| "jp_object num (Suc f) kvs s =
     (case parseString (skipWs s) of
        None \<Rightarrow> PFail
      | Some (key, r) \<Rightarrow>
          (case jconsume (CHR '':'') (skipWs r) of
             None \<Rightarrow> PFail
           | Some r \<Rightarrow>
               (case jp_value num f (skipWs r) of
                  NoFuel \<Rightarrow> NoFuel
                | PFail \<Rightarrow> PFail
                | POk v r \<Rightarrow>
                    (case jconsume (CHR ''}'') (skipWs r) of
                       Some r' \<Rightarrow> POk (JObject (kvs @ [(key, v)])) r'
                     | None \<Rightarrow>
                         (case jconsume (CHR '','') (skipWs r) of
                            None \<Rightarrow> PFail
                          | Some r' \<Rightarrow> jp_object num f (kvs @ [(key, v)]) r')))))"

text \<open>\<open>parseDocument\<close> and \<open>Json::parse\<close>; \<open>nullptr\<close> is \<open>None\<close>.\<close>

definition json_parse :: "(string \<Rightarrow> int) \<Rightarrow> string \<Rightarrow> json option" where
  "json_parse num doc =
     (case jp_value num (2 * length doc + 1) (skipWs doc) of
        POk v r \<Rightarrow> if skipWs r = [] then Some v else None
      | _ \<Rightarrow> None)"

fun jsonEscape :: "string \<Rightarrow> string" where
  "jsonEscape [] = []"
| "jsonEscape (c # s) =
     (if c = CHR 0x22 then [CHR 0x5C, CHR 0x22]
      else if c = CHR 0x5C then [CHR 0x5C, CHR 0x5C]
      else if c = CHR 0x0A then [CHR 0x5C, CHR ''n'']
      else if c = CHR 0x09 then [CHR 0x5C, CHR ''t'']
      else if c = CHR 0x0D then [CHR 0x5C, CHR ''r'']
      else [c]) @ jsonEscape s"

section \<open>Enough fuel\<close>

lemma skipWs_length: "length (skipWs s) \<le> length s"
  by (simp add: skipWs_def length_dropWhile_le)

lemma jconsume_Some: "jconsume c s = Some r \<longleftrightarrow> s = c # r"
  by (auto simp: jconsume_def split: list.splits if_splits)

lemma string_loop_length: "string_loop out s = Some (v, r) \<Longrightarrow> length r < length s"
proof (induction out s rule: string_loop.induct)
  case (1 out s)
  from "1.prems" "1.IH" show ?case
    by (subst (asm) string_loop.simps)
      (fastforce dest: hex4_length split: list.splits if_splits option.splits)
qed

lemma parseString_length: "parseString s = Some (v, r) \<Longrightarrow> length r < length s"
  by (auto simp: parseString_def jconsume_Some dest: string_loop_length split: option.splits)

lemma parseNumber_length: "parseNumber num s = POk v r \<Longrightarrow> length r < length s"
  using length_dropWhile_le [of num_char]
  by (auto simp: parseNumber_def Let_def le_less split: list.splits if_splits)
    (metis length_dropWhile_le less_Suc_eq_le order.strict_iff_order)+

lemma parseLiteral_length:
  "parseLiteral lit v s = POk w r \<Longrightarrow> lit \<noteq> [] \<Longrightarrow> s \<noteq> [] \<Longrightarrow> length r < length s"
  by (auto simp: parseLiteral_def split: if_splits)

lemma jp_length:
  "jp_value num f s = POk v r \<Longrightarrow> length r < length s"
  "jp_array num f vs s = POk v r \<Longrightarrow> length r < length s"
  "jp_object num f kvs s = POk v r \<Longrightarrow> length r < length s"
proof (induction num f s and num f vs s and num f kvs s arbitrary: v r and v r and v r
    rule: jp_value_jp_array_jp_object.induct)
  case (2 num f s)
  have ws: "length (skipWs x) \<le> length x" for x
    by (rule skipWs_length)
  obtain c r0 where s: "s = c # r0"
    using "2.prems" by (cases s) auto
  have close: "jconsume x (skipWs r0) = Some r' \<Longrightarrow> length r' < length r0" for x r'
    using ws [of r0] by (auto simp: jconsume_Some)
  consider "c = CHR ''{''" | "c = CHR ''[''" | "c = CHR 0x22"
    | "c \<noteq> CHR ''{''" "c \<noteq> CHR ''[''" "c \<noteq> CHR 0x22"
    by blast
  then show ?case
  proof cases
    case 1
    with "2.prems" s "2.IH"(1) [OF s 1] ws [of r0] close show ?thesis
      by (auto split: option.splits)
        (meson less_SucI less_trans order.strict_trans2)+
  next
    case 2
    with "2.prems" s "2.IH"(2) [OF s _ 2] ws [of r0] close show ?thesis
      by (auto split: option.splits) (meson less_SucI less_trans order.strict_trans2)+
  next
    case 3
    with "2.prems" s show ?thesis
      by (auto split: option.splits dest: parseString_length)
  next
    case 4
    with "2.prems" s show ?thesis
      by (auto split: if_splits dest: parseNumber_length parseLiteral_length)
  qed
next
  case (4 num f vs s)
  then obtain w r1 where v: "jp_value num f (skipWs s) = POk w r1"
    by (auto split: presult.splits)
  have r1: "length r1 < length s"
    using "4.IH"(1) [OF v] skipWs_length [of s] by simp
  show ?case
  proof (cases "jconsume (CHR '']'') (skipWs r1)")
    case (Some r')
    with "4.prems" v r1 skipWs_length [of r1] show ?thesis
      by (simp add: jconsume_Some)
  next
    case None
    then obtain r' where r': "jconsume (CHR '','') (skipWs r1) = Some r'"
      "jp_array num f (vs @ [w]) r' = POk v r"
      using "4.prems" v by (auto split: option.splits)
    with "4.IH"(2) [OF v None r'(1) r'(2)] r1 skipWs_length [of r1] show ?thesis
      by (simp add: jconsume_Some)
  qed
next
  case (6 num f kvs s)
  then obtain key r1 where k: "parseString (skipWs s) = Some (key, r1)"
    by (auto split: option.splits)
  have r1: "length r1 < length s"
    using parseString_length [OF k] skipWs_length [of s] by simp
  obtain r2 where c: "jconsume (CHR '':'') (skipWs r1) = Some r2"
    using "6.prems" k by (auto split: option.splits)
  have r2: "length r2 < length s"
    using c r1 skipWs_length [of r1] by (simp add: jconsume_Some)
  obtain w r3 where v: "jp_value num f (skipWs r2) = POk w r3"
    using "6.prems" k c by (auto split: presult.splits)
  have r3: "length r3 < length s"
    using "6.IH"(1) [OF k refl c v] r2 skipWs_length [of r2] by simp
  show ?case
  proof (cases "jconsume (CHR ''}'') (skipWs r3)")
    case (Some r')
    with "6.prems" k c v r3 skipWs_length [of r3] show ?thesis
      by (simp add: jconsume_Some)
  next
    case None
    then obtain r' where r': "jconsume (CHR '','') (skipWs r3) = Some r'"
      "jp_object num f (kvs @ [(key, w)]) r' = POk v r"
      using "6.prems" k c v by (auto split: option.splits)
    with "6.IH"(2) [OF k refl c v None r'(1) r'(2)] r3 skipWs_length [of r3] show ?thesis
      by (simp add: jconsume_Some)
  qed
qed auto

text \<open>More fuel does not change an outcome.\<close>

lemma jp_more_fuel:
  "jp_value num f s \<noteq> NoFuel \<Longrightarrow> f \<le> g \<Longrightarrow> jp_value num g s = jp_value num f s"
  "jp_array num f vs s \<noteq> NoFuel \<Longrightarrow> f \<le> g \<Longrightarrow> jp_array num g vs s = jp_array num f vs s"
  "jp_object num f kvs s \<noteq> NoFuel \<Longrightarrow> f \<le> g \<Longrightarrow> jp_object num g kvs s = jp_object num f kvs s"
proof (induction num f s and num f vs s and num f kvs s arbitrary: g and g and g
    rule: jp_value_jp_array_jp_object.induct)
  case (2 num f s)
  from "2.prems"(2) obtain g' where g: "g = Suc g'" "f \<le> g'" by (cases g) auto
  show ?case
  proof (cases s)
    case (Cons c r)
    consider (obj) "c = CHR ''{''" "jconsume (CHR ''}'') (skipWs r) = None"
      | (arr) "c = CHR ''[''" "jconsume (CHR '']'') (skipWs r) = None"
      | (other) "\<not> (c = CHR ''{'' \<and> jconsume (CHR ''}'') (skipWs r) = None)"
        "\<not> (c = CHR ''['' \<and> jconsume (CHR '']'') (skipWs r) = None)"
      by metis
    then show ?thesis
    proof cases
      case obj
      with "2.IH"(1) [OF Cons obj _ g(2)] "2.prems"(1) show ?thesis by (simp add: Cons g(1))
    next
      case arr
      with "2.IH"(2) [OF Cons _ arr _ g(2)] "2.prems"(1) show ?thesis by (simp add: Cons g(1))
    next
      case other
      then show ?thesis
        by (auto simp: Cons g(1) simp del: not_None_eq split: option.split)
    qed
  qed (simp add: g(1))
next
  case (4 num f vs s)
  from "4.prems"(2) obtain g' where g: "g = Suc g'" "f \<le> g'" by (cases g) auto
  have nf: "jp_value num f (skipWs s) \<noteq> NoFuel"
    using "4.prems"(1) by auto
  note v = "4.IH"(1) [OF nf g(2)]
  show ?case
  proof (cases "jp_value num f (skipWs s)")
    case (POk w r)
    show ?thesis
    proof (cases "jconsume (CHR '']'') (skipWs r)")
      case None
      with v POk "4.IH"(2) [OF POk None _ _ g(2)] "4.prems"(1) show ?thesis
        by (auto simp: g(1) split: option.split)
    qed (simp add: g(1) v POk)
  qed (simp_all add: g(1) v nf)
next
  case (6 num f kvs s)
  from "6.prems"(2) obtain g' where g: "g = Suc g'" "f \<le> g'" by (cases g) auto
  show ?case
  proof (cases "parseString (skipWs s)")
    case (Some kr)
    then obtain key r1 where k: "parseString (skipWs s) = Some (key, r1)" by (cases kr) auto
    show ?thesis
    proof (cases "jconsume (CHR '':'') (skipWs r1)")
      case c: (Some r2)
      have nf: "jp_value num f (skipWs r2) \<noteq> NoFuel"
        using "6.prems"(1) k c by auto
      note v = "6.IH"(1) [OF k refl c nf g(2)]
      show ?thesis
      proof (cases "jp_value num f (skipWs r2)")
        case (POk w r3)
        show ?thesis
        proof (cases "jconsume (CHR ''}'') (skipWs r3)")
          case None
          with v k c POk "6.IH"(2) [OF k refl c POk None _ _ g(2)] "6.prems"(1) show ?thesis
            by (auto simp: g(1) split: option.split)
        qed (simp add: g(1) v POk k c)
      qed (simp_all add: g(1) v nf k c)
    qed (simp add: g(1) k)
  qed (simp add: g(1))
qed auto

lemma jp_fuel:
  "2 * length s + 1 \<le> f \<Longrightarrow> jp_value num f s \<noteq> NoFuel"
  "2 * length s + 2 \<le> f \<Longrightarrow> jp_array num f vs s \<noteq> NoFuel"
  "2 * length s + 2 \<le> f \<Longrightarrow> jp_object num f kvs s \<noteq> NoFuel"
proof (induction num f s and num f vs s and num f kvs s rule: jp_value_jp_array_jp_object.induct)
  case (2 num f s)
  show ?case
  proof (cases s)
    case (Cons c r)
    have f: "2 * length (skipWs r) + 2 \<le> f"
      using "2.prems" skipWs_length [of r] by (simp add: Cons)
    with "2.IH"(1) [OF Cons _ _ f] "2.IH"(2) [OF Cons _ _ _ f] show ?thesis
      by (auto simp: Cons parseLiteral_def parseNumber_def Let_def split: option.split)
  qed simp
next
  case (4 num f vs s)
  have nf: "jp_value num f (skipWs s) \<noteq> NoFuel"
    using "4.IH"(1) "4.prems" skipWs_length [of s] by simp
  show ?case
  proof (cases "jp_value num f (skipWs s)")
    case (POk w r)
    have r: "length (skipWs r) < length s"
      using jp_length(1) [OF POk] skipWs_length [of s] skipWs_length [of r] by simp
    show ?thesis
      using "4.IH"(2) [OF POk] "4.prems" r POk
      by (auto simp: jconsume_Some split: option.split)
  qed (simp_all add: nf)
next
  case (6 num f kvs s)
  show ?case
  proof (cases "parseString (skipWs s)")
    case (Some kr)
    then obtain key r1 where k: "parseString (skipWs s) = Some (key, r1)" by (cases kr) auto
    show ?thesis
    proof (cases "jconsume (CHR '':'') (skipWs r1)")
      case c: (Some r2)
      have r2: "length (skipWs r2) < length s"
        using parseString_length [OF k] c skipWs_length [of s] skipWs_length [of r1] skipWs_length [of r2]
        by (simp add: jconsume_Some)
      have nf: "jp_value num f (skipWs r2) \<noteq> NoFuel"
        using "6.IH"(1) [OF k refl c] "6.prems" r2 by simp
      show ?thesis
      proof (cases "jp_value num f (skipWs r2)")
        case (POk w r)
        have r: "length (skipWs r) < length s"
          using jp_length(1) [OF POk] r2 skipWs_length [of r] by simp
        show ?thesis
          using "6.IH"(2) [OF k refl c POk] "6.prems" r POk k c
          by (auto simp: jconsume_Some split: option.split)
      qed (simp_all add: nf k c)
    qed (simp add: k)
  qed simp
qed auto

text \<open>The descent without fuel, and its equations.\<close>

definition jvalue :: "(string \<Rightarrow> int) \<Rightarrow> string \<Rightarrow> json presult" where
  "jvalue num s = jp_value num (2 * length s + 1) s"

definition jarray :: "(string \<Rightarrow> int) \<Rightarrow> json list \<Rightarrow> string \<Rightarrow> json presult" where
  "jarray num vs s = jp_array num (2 * length s + 2) vs s"

definition jobject :: "(string \<Rightarrow> int) \<Rightarrow> (string \<times> json) list \<Rightarrow> string \<Rightarrow> json presult" where
  "jobject num kvs s = jp_object num (2 * length s + 2) kvs s"

lemma jp_eq:
  "2 * length s + 1 \<le> f \<Longrightarrow> jp_value num f s = jvalue num s"
  "2 * length s + 2 \<le> f \<Longrightarrow> jp_array num f vs s = jarray num vs s"
  "2 * length s + 2 \<le> f \<Longrightarrow> jp_object num f kvs s = jobject num kvs s"
  unfolding jvalue_def jarray_def jobject_def
  by (rule jp_more_fuel(1) [OF jp_fuel(1) [OF order_refl]], simp)
    (rule jp_more_fuel(2) [OF jp_fuel(2) [OF order_refl]], simp,
     rule jp_more_fuel(3) [OF jp_fuel(3) [OF order_refl]], simp)

declare jp_value.simps [simp del] jp_array.simps [simp del] jp_object.simps [simp del]

lemma json_parse_jvalue:
  "json_parse num doc =
     (case jvalue num (skipWs doc) of POk v r \<Rightarrow> if skipWs r = [] then Some v else None | _ \<Rightarrow> None)"
  using jp_eq(1) [of "skipWs doc" "2 * length doc + 1" num] skipWs_length [of doc]
  by (simp add: json_parse_def)

lemma jvalue_object:
  "jvalue num (CHR ''{'' # r) =
     (case jconsume (CHR ''}'') (skipWs r) of
        Some r' \<Rightarrow> POk (JObject []) r' | None \<Rightarrow> jobject num [] (skipWs r))"
  using jp_eq(3) [of "skipWs r" "2 * length r + 2" num "[]"] skipWs_length [of r]
  by (simp add: jvalue_def jp_value.simps split: option.split)

lemma jvalue_array:
  "jvalue num (CHR ''['' # r) =
     (case jconsume (CHR '']'') (skipWs r) of
        Some r' \<Rightarrow> POk (JArray []) r' | None \<Rightarrow> jarray num [] (skipWs r))"
  using jp_eq(2) [of "skipWs r" "2 * length r + 2" num "[]"] skipWs_length [of r]
  by (simp add: jvalue_def jp_value.simps split: option.split)

lemma jarray_step:
  assumes "jvalue num (skipWs s) = POk v r"
  shows "jarray num vs s =
    (case jconsume (CHR '']'') (skipWs r) of
       Some r' \<Rightarrow> POk (JArray (vs @ [v])) r'
     | None \<Rightarrow>
         (case jconsume (CHR '','') (skipWs r) of
            None \<Rightarrow> PFail | Some r' \<Rightarrow> jarray num (vs @ [v]) r'))"
proof -
  have v: "jp_value num (2 * length s + 1) (skipWs s) = POk v r"
    using jp_eq(1) [of "skipWs s" "2 * length s + 1" num] skipWs_length [of s] assms by simp
  have "length (skipWs r) < length s"
    using jp_length(1) [OF v] skipWs_length [of s] skipWs_length [of r] by simp
  then have "jconsume c (skipWs r) = Some r' \<Longrightarrow>
      jp_array num (2 * length s + 1) (vs @ [v]) r' = jarray num (vs @ [v]) r'" for c r'
    by (intro jp_eq(2)) (auto simp: jconsume_Some)
  then show ?thesis
    using v by (auto simp: jarray_def [of num vs s] jp_array.simps split: option.split)
qed

lemma jobject_step:
  assumes "parseString (skipWs s) = Some (key, r1)" and "skipWs r1 = CHR '':'' # r2"
    and "jvalue num (skipWs r2) = POk v r"
  shows "jobject num kvs s =
    (case jconsume (CHR ''}'') (skipWs r) of
       Some r' \<Rightarrow> POk (JObject (kvs @ [(key, v)])) r'
     | None \<Rightarrow>
         (case jconsume (CHR '','') (skipWs r) of
            None \<Rightarrow> PFail | Some r' \<Rightarrow> jobject num (kvs @ [(key, v)]) r'))"
proof -
  have r2: "length (skipWs r2) < length s"
    using parseString_length [OF assms(1)] skipWs_length [of s] skipWs_length [of r1]
      skipWs_length [of r2] assms(2) by simp
  have v: "jp_value num (2 * length s + 1) (skipWs r2) = POk v r"
    using jp_eq(1) [of "skipWs r2" "2 * length s + 1" num] r2 assms(3) by simp
  have "length (skipWs r) < length s"
    using jp_length(1) [OF v] r2 skipWs_length [of r] by simp
  then have "jconsume c (skipWs r) = Some r' \<Longrightarrow>
      jp_object num (2 * length s + 1) (kvs @ [(key, v)]) r' = jobject num (kvs @ [(key, v)]) r'" for c r'
    by (intro jp_eq(3)) (auto simp: jconsume_Some)
  then show ?thesis
    using v assms(1,2) jconsume_Some [of "CHR '':''" "skipWs r1" r2]
    by (auto simp: jobject_def [of num kvs s] jp_object.simps split: option.split)
qed

text \<open>The loops skip white space first.\<close>

lemma skipWs_idem [simp]: "skipWs (skipWs s) = skipWs s"
  by (simp add: skipWs_def)

lemma jarray_skipWs: "jarray num vs (skipWs s) = jarray num vs s"
  using jp_eq(2) [of "skipWs s" "2 * length s + 2" num vs] skipWs_length [of s]
  by (simp add: jarray_def [of num vs s] jp_array.simps)

lemma jobject_skipWs: "jobject num kvs (skipWs s) = jobject num kvs s"
  using jp_eq(3) [of "skipWs s" "2 * length s + 2" num kvs] skipWs_length [of s]
  by (simp add: jobject_def [of num kvs s] jp_object.simps)

section \<open>Reading back what is written\<close>

lemma string_loop_escape: "string_loop out (jsonEscape s @ CHR 0x22 # rest) = Some (out @ s, rest)"
proof (induction s arbitrary: out)
  case Nil
  show ?case by (simp add: string_loop.simps)
next
  case (Cons c s)
  show ?case
    by (simp add: string_loop.simps [of _ "_ # _"] simple_escape_def Cons.IH)
qed

definition quoted :: "string \<Rightarrow> string" where
  "quoted s = CHR 0x22 # jsonEscape s @ [CHR 0x22]"

lemma parseString_quoted: "parseString (quoted s @ rest) = Some (s, rest)"
  by (simp add: parseString_def quoted_def jconsume_def string_loop_escape)

lemma jvalue_quoted: "jvalue num (quoted s @ rest) = POk (JString s) rest"
  using parseString_quoted [of s rest] by (simp add: quoted_def jvalue_def jp_value.simps)

lemma jvalue_bool:
  "jvalue num (''true'' @ rest) = POk (JBool True) rest"
  "jvalue num (''false'' @ rest) = POk (JBool False) rest"
  by (simp_all add: jvalue_def jp_value.simps parseLiteral_def)

lemma skipWs_quoted [simp]: "skipWs (quoted s @ rest) = quoted s @ rest"
  by (simp add: quoted_def skipWs_def isspace_def)

text \<open>What the documentation of \<open>strtod\<close> promises on a decimal integer of at most 15 digits,
followed by a character that cannot continue a number; such integers are exact in a \<open>double\<close>.\<close>

definition strtod_decimal :: "(string \<Rightarrow> int) \<Rightarrow> bool" where
  "strtod_decimal num \<longleftrightarrow> (\<forall>i rest. \<bar>i\<bar> < 10 ^ 15 \<longrightarrow> (rest = [] \<or> hd rest \<in> {CHR '','', CHR 0x0A}) \<longrightarrow>
     num (dec_int i @ rest) = i)"

lemma dropWhile_dec_nat:
  "\<not> num_char d \<Longrightarrow> dropWhile num_char (dec_nat n @ d # rest) = d # rest"
  by (subst dropWhile_append2) (auto dest: dec_nat_digits simp: num_char_def)

lemma is_digit_not:
  assumes "is_digit c"
  shows "c \<noteq> CHR ''-''" "c \<noteq> CHR ''{''" "c \<noteq> CHR ''[''" "c \<noteq> CHR 0x22" "c \<noteq> CHR ''t''"
    "c \<noteq> CHR ''f''" "c \<noteq> CHR ''n''" "\<not> isspace c" "c \<noteq> CHR 0x00"
  using assms by (auto simp: is_digit_def isspace_def)

lemma dec_nat_Cons: obtains c r where "dec_nat n = c # r" "is_digit c"
  using dec_nat_digits [of _ n] by (cases "dec_nat n") auto

lemma dec_int_Cons: obtains c r where "dec_int i = c # r" "c = CHR ''-'' \<or> is_digit c"
proof (cases "i < 0")
  case True
  then show thesis by (intro that [of "CHR ''-''" "dec_nat (nat (- i))"]) (simp_all add: dec_int_def)
next
  case False
  obtain c r where "dec_nat (nat i) = c # r" "is_digit c" by (rule dec_nat_Cons)
  with False show thesis by (intro that [of c r]) (simp_all add: dec_int_def)
qed

lemma skipWs_dec_int [simp]: "skipWs (dec_int i @ rest) = dec_int i @ rest"
  by (rule dec_int_Cons [of i]) (auto simp: skipWs_def isspace_def dest: is_digit_not)

lemma takeWhile_not_nul:
  "takeWhile (\<lambda>c. c \<noteq> CHR 0x00) (dec_int i @ d # rest) =
     dec_int i @ takeWhile (\<lambda>c. c \<noteq> CHR 0x00) (d # rest)"
  by (subst takeWhile_append2) (auto simp: dec_int_def dest: dec_nat_digits is_digit_not split: if_splits)

lemma jvalue_number:
  assumes "strtod_decimal num" and "\<bar>i\<bar> < 10 ^ 15" and "d = CHR '','' \<or> d = CHR 0x0A"
  shows "jvalue num (dec_int i @ d # rest) = POk (JNumber i) (d # rest)"
proof -
  obtain c r where c: "dec_int i = c # r" "c = CHR ''-'' \<or> is_digit c"
    by (rule dec_int_Cons)
  have d: "\<not> num_char d" "d \<noteq> CHR 0x00"
    using assms(3) by (auto simp: num_char_def is_digit_def)
  have "c \<noteq> CHR ''{'' \<and> c \<noteq> CHR ''['' \<and> c \<noteq> CHR 0x22 \<and> c \<noteq> CHR ''t'' \<and> c \<noteq> CHR ''f'' \<and> c \<noteq> CHR ''n''"
    using c(2) by (auto simp: is_digit_def)
  then have "jvalue num (dec_int i @ d # rest) = parseNumber num (dec_int i @ d # rest)"
    by (simp add: c(1) jvalue_def jp_value.simps(2))
  also have "\<dots> = POk (JNumber (num (takeWhile (\<lambda>c. c \<noteq> CHR 0x00) (dec_int i @ d # rest)))) (d # rest)"
  proof (cases "i < 0")
    case True
    then show ?thesis
      by (simp add: parseNumber_def dec_int_def dropWhile_dec_nat [OF d(1)] Let_def)
  next
    case False
    obtain c r where "dec_nat (nat i) = c # r" "is_digit c"
      by (rule dec_nat_Cons)
    with False dropWhile_dec_nat [OF d(1), of "nat i" rest] show ?thesis
      by (simp add: parseNumber_def dec_int_def is_digit_not Let_def)
  qed
  also have "num (takeWhile (\<lambda>c. c \<noteq> CHR 0x00) (dec_int i @ d # rest)) = i"
    using assms(1) [unfolded strtod_decimal_def, rule_format, of i "d # takeWhile (\<lambda>c. c \<noteq> CHR 0x00) rest"]
      assms(2,3) d(2) by (auto simp: takeWhile_not_nul)
  finally show ?thesis .
qed

end
