(* ===== verification/Config.thy ===== *)
theory Config
  imports Json
begin

text \<open>
  The configuration files (include/common/config.h, src/common/config.cpp): the records,
  \<open>writeServerConfig\<close>, \<open>loadServerConfig\<close>, \<open>loadClientConfig\<close> and
  \<open>ensureParentDir\<close>. The file system is a record: the contents by path, the log of
  \<open>mkdir\<close> calls, and the predicate saying which paths can be opened for writing.
\<close>

section \<open>Records\<close>

record user_config =
  uc_uuid :: string
  uc_name :: string

record tls_config =
  tc_enabled :: bool
  tc_port :: "16 word"
  certFile :: string
  keyFile :: string
  certDir :: string
  certDays :: int
  certSha256 :: string

definition tls_config_init :: tls_config where
  "tls_config_init = \<lparr>tc_enabled = False, tc_port = 8848, certFile = [], keyFile = [],
     certDir = ''./certs'', certDays = 365, certSha256 = []\<rparr>"

record server_config =
  sc_port :: "16 word"
  sc_logLevel :: string
  sc_workers :: int
  sc_host :: string
  sc_remark :: string
  sc_tls :: tls_config
  sc_users :: "user_config list"

definition server_config_init :: server_config where
  "server_config_init = \<lparr>sc_port = 1080, sc_logLevel = ''info'', sc_workers = 0, sc_host = [],
     sc_remark = ''cppvless'', sc_tls = tls_config_init, sc_users = []\<rparr>"

record client_config =
  socks5Port :: "16 word"
  cc_remote :: string
  cc_uuid :: string
  cc_logLevel :: string
  cc_workers :: int
  tlsEnabled :: bool
  tlsInsecure :: bool

definition client_config_init :: client_config where
  "client_config_init = \<lparr>socks5Port = 1080, cc_remote = ''127.0.0.1:443'', cc_uuid = [],
     cc_logLevel = ''info'', cc_workers = 0, tlsEnabled = False, tlsInsecure = False\<rparr>"

record fs =
  fs_files :: "string \<Rightarrow> string option"
  fs_mkdirs :: "string list"

section \<open>ensureParentDir\<close>

text \<open>
  One step of the loop over the directory's characters: the directories passed to \<open>mkdir\<close>
  so far, and \<open>cur\<close>, the prefix up to the last slash seen.
\<close>

definition mkdir_step :: "string \<Rightarrow> string list \<times> string \<Rightarrow> nat \<Rightarrow> string list \<times> string" where
  "mkdir_step dir st i =
     (case st of (made, cur) \<Rightarrow>
        if dir ! i = CHR ''/'' then
          (if i > 0 then made @ [cur] else made, take (i + 1) dir)
        else (made, cur))"

definition last_slash :: "string \<Rightarrow> nat option" where
  "last_slash path =
     (if CHR ''/'' \<in> set path
      then Some (length path - 1 - length (takeWhile (\<lambda>c. c \<noteq> CHR ''/'') (rev path))) else None)"

definition mkdir_calls :: "string \<Rightarrow> string list" where
  "mkdir_calls path =
     (case last_slash path of
        None \<Rightarrow> []
      | Some slash \<Rightarrow>
          (let dir = take slash path in
           if dir = [] then []
           else (case foldl (mkdir_step dir) ([], []) [0..<length dir] of
             (made, cur) \<Rightarrow>
               (if cur \<noteq> [] \<and> last cur \<noteq> CHR ''/'' then made @ [dir]
                else if length cur > 1 \<and> last cur = CHR ''/'' then made @ [take (length cur - 1) cur]
                else made))))"

definition ensureParentDir :: "string \<Rightarrow> fs \<Rightarrow> bool \<times> fs" where
  "ensureParentDir path fs = (True, fs\<lparr>fs_mkdirs := fs_mkdirs fs @ mkdir_calls path\<rparr>)"

section \<open>Writing\<close>

abbreviation (input) nl :: string where "nl \<equiv> [CHR 0x0A]"

definition jkey :: "string \<Rightarrow> string" where
  "jkey k = CHR 0x22 # k @ [CHR 0x22]"

fun users_text :: "user_config list \<Rightarrow> string" where
  "users_text [] = []"
| "users_text (u # us) =
     ''    {'' @ jkey ''uuid'' @ '': '' @ quoted (uc_uuid u) @ '', '' @ jkey ''name'' @ '': '' @
     quoted (uc_name u) @ ''}'' @ (if us \<noteq> [] then '','' else []) @ nl @ users_text us"

definition bool_text :: "bool \<Rightarrow> string" where
  "bool_text b = (if b then ''true'' else ''false'')"

definition tls_text :: "tls_config \<Rightarrow> string" where
  "tls_text t =
     ''    '' @ jkey ''enabled'' @ '': '' @ bool_text (tc_enabled t) @ '','' @ nl @
     ''    '' @ jkey ''port'' @ '': '' @ dec_int (uint (tc_port t)) @ '','' @ nl @
     ''    '' @ jkey ''cert_file'' @ '': '' @ quoted (certFile t) @ '','' @ nl @
     ''    '' @ jkey ''key_file'' @ '': '' @ quoted (keyFile t) @ '','' @ nl @
     ''    '' @ jkey ''cert_dir'' @ '': '' @ quoted (certDir t) @ '','' @ nl @
     ''    '' @ jkey ''cert_days'' @ '': '' @ dec_int (certDays t) @ nl"

definition server_config_text :: "server_config \<Rightarrow> string" where
  "server_config_text cfg =
     ''{'' @ nl @
     ''  '' @ jkey ''port'' @ '': '' @ dec_int (uint (sc_port cfg)) @ '','' @ nl @
     ''  '' @ jkey ''host'' @ '': '' @ quoted (sc_host cfg) @ '','' @ nl @
     ''  '' @ jkey ''log_level'' @ '': '' @ quoted (sc_logLevel cfg) @ '','' @ nl @
     ''  '' @ jkey ''workers'' @ '': '' @ dec_int (sc_workers cfg) @ '','' @ nl @
     ''  '' @ jkey ''remark'' @ '': '' @ quoted (sc_remark cfg) @ '','' @ nl @
     ''  '' @ jkey ''tls'' @ '': {'' @ nl @ tls_text (sc_tls cfg) @ ''  },'' @ nl @
     ''  '' @ jkey ''users'' @ '': ['' @ nl @ users_text (sc_users cfg) @ ''  ]'' @ nl @
     ''}'' @ nl"

text \<open>\<open>std::ofstream\<close> with \<open>trunc\<close>; \<open>writable\<close> and \<open>flushed\<close> are the two tests of the stream.\<close>

definition writeServerConfig ::
    "(fs \<Rightarrow> string \<Rightarrow> bool) \<Rightarrow> (fs \<Rightarrow> string \<Rightarrow> bool) \<Rightarrow>
     string \<Rightarrow> server_config \<Rightarrow> fs \<Rightarrow> bool \<times> string \<times> fs" where
  "writeServerConfig writable flushed path cfg fs =
     (case ensureParentDir path fs of (ok, fs) \<Rightarrow>
        if \<not> ok then (False, ''cannot create parent directory of '' @ path, fs)
        else if \<not> writable fs path then (False, ''cannot open '' @ path @ '' for writing'', fs)
        else
          (let fs = fs\<lparr>fs_files := (fs_files fs)(path \<mapsto> server_config_text cfg)\<rparr> in
           if \<not> flushed fs path then (False, ''failed to write '' @ path, fs)
           else (True, [], fs)))"

section \<open>Reading\<close>

definition to_int32 :: "int \<Rightarrow> int" where
  "to_int32 i = sint (word_of_int i :: 32 word)"

text \<open>\<open>if (const Json* v = root->get(key); v && v->isX()) set(v->asX())\<close>.\<close>

definition get_number :: "json \<Rightarrow> string \<Rightarrow> (int \<Rightarrow> 'c \<Rightarrow> 'c) \<Rightarrow> 'c \<Rightarrow> 'c" where
  "get_number j key upd cfg = (case json_get j key of Some (JNumber i) \<Rightarrow> upd i cfg | _ \<Rightarrow> cfg)"

definition get_string :: "json \<Rightarrow> string \<Rightarrow> (string \<Rightarrow> 'c \<Rightarrow> 'c) \<Rightarrow> 'c \<Rightarrow> 'c" where
  "get_string j key upd cfg = (case json_get j key of Some (JString s) \<Rightarrow> upd s cfg | _ \<Rightarrow> cfg)"

definition get_bool :: "json \<Rightarrow> string \<Rightarrow> (bool \<Rightarrow> 'c \<Rightarrow> 'c) \<Rightarrow> 'c \<Rightarrow> 'c" where
  "get_bool j key upd cfg = (case json_get j key of Some (JBool b) \<Rightarrow> upd b cfg | _ \<Rightarrow> cfg)"

definition read_tls :: "json \<Rightarrow> tls_config \<Rightarrow> tls_config" where
  "read_tls t =
     get_number t ''cert_days'' (\<lambda>i c. c\<lparr>certDays := to_int32 i\<rparr>) \<circ>
     get_string t ''cert_dir'' (\<lambda>s c. c\<lparr>certDir := s\<rparr>) \<circ>
     get_string t ''key_file'' (\<lambda>s c. c\<lparr>keyFile := s\<rparr>) \<circ>
     get_string t ''cert_file'' (\<lambda>s c. c\<lparr>certFile := s\<rparr>) \<circ>
     get_number t ''port'' (\<lambda>i c. c\<lparr>tc_port := word_of_int i\<rparr>) \<circ>
     get_bool t ''enabled'' (\<lambda>b c. c\<lparr>tc_enabled := b\<rparr>)"

definition read_user :: "json \<Rightarrow> user_config list" where
  "read_user item =
     (if \<not> isObject item then []
      else
        (let uc = \<lparr>uc_uuid = [], uc_name = []\<rparr>;
             uc = get_string item ''uuid'' (\<lambda>s c. c\<lparr>uc_uuid := s\<rparr>) uc;
             uc = get_string item ''name'' (\<lambda>s c. c\<lparr>uc_name := s\<rparr>) uc
         in if uc_uuid uc \<noteq> [] then [uc] else []))"

definition read_server :: "json \<Rightarrow> server_config \<Rightarrow> server_config" where
  "read_server root cfg =
     (let cfg = get_number root ''port'' (\<lambda>i c. c\<lparr>sc_port := word_of_int i\<rparr>) cfg;
          cfg = get_string root ''host'' (\<lambda>s c. c\<lparr>sc_host := s\<rparr>) cfg;
          cfg = get_string root ''log_level'' (\<lambda>s c. c\<lparr>sc_logLevel := s\<rparr>) cfg;
          cfg = get_number root ''workers'' (\<lambda>i c. c\<lparr>sc_workers := to_int32 i\<rparr>) cfg;
          cfg = get_string root ''remark'' (\<lambda>s c. c\<lparr>sc_remark := s\<rparr>) cfg;
          cfg = (case json_get root ''tls'' of
                   Some t \<Rightarrow> if isObject t then cfg\<lparr>sc_tls := read_tls t (sc_tls cfg)\<rparr> else cfg
                 | None \<Rightarrow> cfg)
      in (case json_get root ''users'' of
            Some (JArray items) \<Rightarrow> cfg\<lparr>sc_users := sc_users cfg @ concat (map read_user items)\<rparr>
          | _ \<Rightarrow> cfg))"

text \<open>The result is the return value, the configuration, \<open>created\<close> and the error text.\<close>

definition loadServerConfig ::
    "(string \<Rightarrow> int) \<Rightarrow> (fs \<Rightarrow> string \<Rightarrow> bool) \<Rightarrow> (fs \<Rightarrow> string \<Rightarrow> bool) \<Rightarrow> string \<Rightarrow>
     string \<Rightarrow> server_config \<Rightarrow> fs \<Rightarrow> (bool \<times> server_config \<times> bool \<times> string) \<times> fs" where
  "loadServerConfig num writable flushed newUuid path cfg fs =
     (case fs_files fs path of
        None \<Rightarrow>
          (let cfg = cfg\<lparr>sc_users := sc_users cfg @ [\<lparr>uc_uuid = newUuid, uc_name = ''default''\<rparr>]\<rparr> in
           case writeServerConfig writable flushed path cfg fs of (ok, writeErr, fs) \<Rightarrow>
             if \<not> ok then
               ((False, cfg, False, ''config file not found, and failed to create one: '' @ writeErr), fs)
             else ((True, cfg, True, []), fs))
      | Some doc \<Rightarrow>
          (case json_parse num doc of
             None \<Rightarrow> ((False, cfg, False, ''invalid JSON in '' @ path), fs)
           | Some root \<Rightarrow>
               (if \<not> isObject root then ((False, cfg, False, ''invalid JSON in '' @ path), fs)
                else ((True, read_server root cfg, False, []), fs))))"

definition read_client :: "json \<Rightarrow> client_config \<Rightarrow> client_config" where
  "read_client root =
     get_bool root ''tls_insecure'' (\<lambda>b c. c\<lparr>tlsInsecure := b\<rparr>) \<circ>
     get_bool root ''tls_enabled'' (\<lambda>b c. c\<lparr>tlsEnabled := b\<rparr>) \<circ>
     get_number root ''workers'' (\<lambda>i c. c\<lparr>cc_workers := to_int32 i\<rparr>) \<circ>
     get_string root ''log_level'' (\<lambda>s c. c\<lparr>cc_logLevel := s\<rparr>) \<circ>
     get_string root ''uuid'' (\<lambda>s c. c\<lparr>cc_uuid := s\<rparr>) \<circ>
     get_string root ''remote'' (\<lambda>s c. c\<lparr>cc_remote := s\<rparr>) \<circ>
     get_number root ''socks5_port'' (\<lambda>i c. c\<lparr>socks5Port := word_of_int i\<rparr>)"

definition loadClientConfig ::
    "(string \<Rightarrow> int) \<Rightarrow> string \<Rightarrow> client_config \<Rightarrow> fs \<Rightarrow> bool \<times> client_config \<times> string" where
  "loadClientConfig num path cfg fs =
     (case fs_files fs path of
        None \<Rightarrow> (True, cfg, ''config file not found: '' @ path @ '' (using defaults)'')
      | Some doc \<Rightarrow>
          (case json_parse num doc of
             None \<Rightarrow> (True, cfg, ''invalid JSON in '' @ path @ '' (using defaults)'')
           | Some root \<Rightarrow>
               (if \<not> isObject root then (True, cfg, ''invalid JSON in '' @ path @ '' (using defaults)'')
                else (True, read_client root cfg, []))))"

end
