(* ===== verification/Share_Link.thy ===== *)
theory Share_Link
  imports Config Socks5
begin

text \<open>
  Share links, QR codes and the detection of the public address (include/common/link.h,
  src/common/link.cpp). \<open>inet_pton\<close> is a parameter, as are the QR code generator (its size and modules
  for a text, \<open>None\<close> when it throws because the text is too long) and the network the address is asked
  from.
\<close>

section \<open>URL encoding\<close>

text \<open>\<open>std::isalnum\<close> in the C locale.\<close>

definition isalnum :: "char \<Rightarrow> bool" where
  "isalnum c \<longleftrightarrow> (let n = of_char c :: nat in 48 \<le> n \<and> n \<le> 57 \<or> 65 \<le> n \<and> n \<le> 90 \<or> 97 \<le> n \<and> n \<le> 122)"

definition url_plain :: "char \<Rightarrow> bool" where
  "url_plain c \<longleftrightarrow> isalnum c \<or> c = CHR ''-'' \<or> c = CHR ''_'' \<or> c = CHR ''.'' \<or> c = CHR ''~''"

definition hex_upper :: "nat \<Rightarrow> char" where
  "hex_upper n = ''0123456789ABCDEF'' ! n"

fun urlEncode :: "string \<Rightarrow> string" where
  "urlEncode [] = []"
| "urlEncode (c # s) =
     (if url_plain c then c # urlEncode s
      else CHR ''%'' # hex_upper (of_char c div 16) # hex_upper (of_char c mod 16) # urlEncode s)"

section \<open>Links\<close>

definition linkTarget :: "server_config \<Rightarrow> 16 word \<times> string" where
  "linkTarget cfg = (if tc_enabled (sc_tls cfg) then (tc_port (sc_tls cfg), ''tls'') else (sc_port cfg, ''none''))"

type_synonym pton = "string \<Rightarrow> bytes option"

definition isValidIp :: "pton \<Rightarrow> pton \<Rightarrow> string \<Rightarrow> bool" where
  "isValidIp pton4 pton6 s \<longleftrightarrow> pton4 (c_str s) \<noteq> None \<or> pton6 (c_str s) \<noteq> None"

definition buildVlessLink :: "pton \<Rightarrow> pton \<Rightarrow> string \<Rightarrow> server_config \<Rightarrow> user_config \<Rightarrow> string \<Rightarrow> string" where
  "buildVlessLink pton4 pton6 host cfg user remark =
     (if host = [] \<or> uc_uuid user = [] then []
      else
        (case linkTarget cfg of (port, security) \<Rightarrow>
          (let link = ''vless://'' @ uc_uuid user @ ''@'' @ host @ '':'' @ dec_int (uint port) @
                 ''?encryption=none&security='' @ security @ ''&type=tcp&headerType=none'';
               link = (if security = ''tls'' then
                   (let link = (if \<not> isValidIp pton4 pton6 host then link @ ''&sni='' @ urlEncode host else link);
                        link = link @ ''&fp=chrome''
                    in if certFile (sc_tls cfg) = [] then
                         (if certSha256 (sc_tls cfg) \<noteq> []
                          then link @ ''&pcs='' @ certSha256 (sc_tls cfg) @ ''&pinSHA256='' @ certSha256 (sc_tls cfg)
                          else link @ ''&allowInsecure=1'')
                       else link)
                 else link)
           in if remark \<noteq> [] then link @ ''#'' @ urlEncode remark else link)))"

section \<open>QR codes\<close>

type_synonym qr = "int \<times> (int \<Rightarrow> int \<Rightarrow> bool)"

definition isDark :: "qr \<Rightarrow> int \<Rightarrow> int \<Rightarrow> int \<Rightarrow> bool" where
  "isDark qr border x y \<longleftrightarrow>
     (let px = x - border; py = y - border
      in px \<ge> 0 \<and> px < fst qr \<and> py \<ge> 0 \<and> py < fst qr \<and> snd qr px py)"

text \<open>The half blocks in UTF-8: upper, lower, full; a blank where both modules are dark.\<close>

definition half_block :: "bool \<Rightarrow> bool \<Rightarrow> string" where
  "half_block upper lower =
     (if upper \<and> lower then '' ''
      else if upper \<and> \<not> lower then [CHR 0xE2, CHR 0x96, CHR 0x80]
      else if \<not> upper \<and> lower then [CHR 0xE2, CHR 0x96, CHR 0x84]
      else [CHR 0xE2, CHR 0x96, CHR 0x88])"

text \<open>The values of \<open>y\<close> in \<open>for (y = 0; y < size; y += 2)\<close>.\<close>

definition even_rows :: "int \<Rightarrow> int list" where
  "even_rows n = map (\<lambda>i. 2 * i) [0..(n + 1) div 2 - 1]"

definition qr_row :: "qr \<Rightarrow> int \<Rightarrow> int \<Rightarrow> int \<Rightarrow> string" where
  "qr_row qr border n y =
     concat (map (\<lambda>x. half_block (isDark qr border x y) (isDark qr border x (y + 1))) [0..n - 1]) @ nl"

definition renderQrText :: "(string \<Rightarrow> qr option) \<Rightarrow> string \<Rightarrow> int \<Rightarrow> string option" where
  "renderQrText encodeText text border =
     (if text = [] then Some []
      else case encodeText (c_str text) of
        None \<Rightarrow> None
      | Some qr \<Rightarrow>
          (let n = fst qr + border * 2
           in Some (concat (map (qr_row qr border n) (even_rows n)))))"

definition buildVlessQrText ::
    "pton \<Rightarrow> pton \<Rightarrow> (string \<Rightarrow> qr option) \<Rightarrow> string \<Rightarrow> server_config \<Rightarrow> user_config \<Rightarrow> string \<Rightarrow> string option" where
  "buildVlessQrText pton4 pton6 encodeText host cfg user remark =
     renderQrText encodeText (buildVlessLink pton4 pton6 host cfg user remark) 2"

section \<open>The public address\<close>

definition kIpEchoHosts :: "string list" where
  "kIpEchoHosts = [''api.ipify.org'', ''icanhazip.com'', ''ifconfig.me'']"

text \<open>\<open>find\<close> of the end of the header, and the trimming of the body.\<close>

fun after_header :: "string \<Rightarrow> string option" where
  "after_header [] = None"
| "after_header (c # s) =
     (if take 4 (c # s) = [CHR 0x0D, CHR 0x0A, CHR 0x0D, CHR 0x0A] then Some (drop 4 (c # s)) else after_header s)"

definition echo_space :: "char \<Rightarrow> bool" where
  "echo_space c \<longleftrightarrow> c \<in> {CHR '' '', CHR 0x09, CHR 0x0D, CHR 0x0A}"

definition trim :: "(char \<Rightarrow> bool) \<Rightarrow> string \<Rightarrow> string" where
  "trim p s = rev (dropWhile p (rev (dropWhile p s)))"

definition parseEchoBody :: "pton \<Rightarrow> pton \<Rightarrow> string \<Rightarrow> string" where
  "parseEchoBody pton4 pton6 body =
     (let payload = (case after_header body of None \<Rightarrow> body | Some s \<Rightarrow> s);
          payload = trim echo_space payload
      in if isValidIp pton4 pton6 payload then payload else [])"

text \<open>
  What the system answers for one address of an echo host: the descriptor of \<open>socket\<close>; the results of
  \<open>connect\<close>, \<open>errno\<close>, \<open>poll\<close> and \<open>SO_ERROR\<close>; of \<open>send\<close>; and what arrives, in order: data, a moment at which
  nothing has arrived yet, or the end of the stream.
\<close>

datatype echo_event = EchoData string | EchoWait | EchoEnd

record echo_address =
  ea_socket :: int
  ea_connect :: int
  ea_inProgress :: bool
  ea_poll :: int
  ea_soError :: int
  ea_send :: int
  ea_events :: "echo_event list"

text \<open>The result, and whether the descriptor is in non-blocking mode afterwards: the mode is set first.\<close>

definition connectWithTimeout :: "echo_address \<Rightarrow> int \<times> bool" where
  "connectWithTimeout a =
     (if ea_connect a = 0 then (0, True)
      else if \<not> ea_inProgress a then (-1, True)
      else if ea_poll a \<le> 0 then (-1, True)
      else (if ea_soError a = 0 then 0 else -1, True))"

text \<open>The receive loop. On a non-blocking descriptor \<open>recv\<close> returns -1 when nothing is there yet.\<close>

fun echo_recv :: "bool \<Rightarrow> echo_event list \<Rightarrow> string" where
  "echo_recv nonblocking [] = []"
| "echo_recv nonblocking (EchoData d # es) = (if d = [] then [] else d @ echo_recv nonblocking es)"
| "echo_recv nonblocking (EchoWait # es) = (if nonblocking then [] else echo_recv nonblocking es)"
| "echo_recv nonblocking (EchoEnd # es) = []"

text \<open>The loop over the addresses: the address found, and the calls on the sockets, in order.\<close>

datatype probe_call = ProbeOpen int | ProbeSend int string | ProbeClose int

definition echo_request :: "string \<Rightarrow> string" where
  "echo_request host = ''GET / HTTP/1.1'' @ [CHR 0x0D, CHR 0x0A] @ ''Host: '' @ host @ [CHR 0x0D, CHR 0x0A] @
     ''Connection: close'' @ [CHR 0x0D, CHR 0x0A, CHR 0x0D, CHR 0x0A]"

fun query_addresses :: "pton \<Rightarrow> pton \<Rightarrow> string \<Rightarrow> echo_address list \<Rightarrow> string \<times> probe_call list" where
  "query_addresses pton4 pton6 host [] = ([], [])"
| "query_addresses pton4 pton6 host (a # as) =
     (let fd = ea_socket a;
          continue = (\<lambda>calls. case query_addresses pton4 pton6 host as of (ip, calls') \<Rightarrow> (ip, calls @ calls'))
      in if fd < 0 then continue []
         else (case connectWithTimeout a of (rc, nonblocking) \<Rightarrow>
           if rc \<noteq> 0 then continue [ProbeOpen fd, ProbeClose fd]
           else if ea_send a < 0 then continue [ProbeOpen fd, ProbeSend fd (echo_request host), ProbeClose fd]
           else
             (let parsed = parseEchoBody pton4 pton6 (echo_recv nonblocking (ea_events a));
                  calls = [ProbeOpen fd, ProbeSend fd (echo_request host), ProbeClose fd]
              in if parsed \<noteq> [] then (parsed, calls) else continue calls)))"

text \<open>The services of the system: \<open>getaddrinfo\<close> for port 80, whether curl is installed, and what a command prints.\<close>

record echo_env =
  ee_getaddrinfo :: "string \<Rightarrow> echo_address list option"
  ee_curl :: bool
  ee_popen :: "string \<Rightarrow> string option"

definition queryEchoHost :: "pton \<Rightarrow> pton \<Rightarrow> echo_env \<Rightarrow> string \<Rightarrow> string \<times> probe_call list" where
  "queryEchoHost pton4 pton6 E host =
     (case ee_getaddrinfo E host of None \<Rightarrow> ([], []) | Some as \<Rightarrow> query_addresses pton4 pton6 host as)"

definition curl_command :: "string \<Rightarrow> int \<Rightarrow> string" where
  "curl_command host timeoutMs =
     (let sec = (if timeoutMs > 0 then (timeoutMs + 999) div 1000 else 3)
      in ''curl -s --connect-timeout '' @ dec_int sec @ '' --max-time '' @ dec_int (sec + 2) @ '' http://'' @ host @
         ''/ 2>/dev/null'')"

definition queryViaCurl :: "pton \<Rightarrow> pton \<Rightarrow> echo_env \<Rightarrow> string \<Rightarrow> int \<Rightarrow> string" where
  "queryViaCurl pton4 pton6 E host timeoutMs =
     (if \<not> ee_curl E then []
      else case ee_popen E (curl_command host timeoutMs) of
        None \<Rightarrow> []
      | Some out \<Rightarrow> parseEchoBody pton4 pton6 out)"

fun detect_sockets :: "pton \<Rightarrow> pton \<Rightarrow> echo_env \<Rightarrow> string list \<Rightarrow> string \<times> probe_call list" where
  "detect_sockets pton4 pton6 E [] = ([], [])"
| "detect_sockets pton4 pton6 E (h # hs) =
     (case queryEchoHost pton4 pton6 E h of (ip, calls) \<Rightarrow>
        if ip \<noteq> [] then (ip, calls)
        else (case detect_sockets pton4 pton6 E hs of (ip, calls') \<Rightarrow> (ip, calls @ calls')))"

fun detect_curl :: "pton \<Rightarrow> pton \<Rightarrow> echo_env \<Rightarrow> int \<Rightarrow> string list \<Rightarrow> string" where
  "detect_curl pton4 pton6 E timeoutMs [] = []"
| "detect_curl pton4 pton6 E timeoutMs (h # hs) =
     (let ip = queryViaCurl pton4 pton6 E h timeoutMs
      in if ip \<noteq> [] then ip else detect_curl pton4 pton6 E timeoutMs hs)"

definition detectPublicIp :: "pton \<Rightarrow> pton \<Rightarrow> echo_env \<Rightarrow> int \<Rightarrow> string \<times> probe_call list" where
  "detectPublicIp pton4 pton6 E timeoutMs =
     (case detect_sockets pton4 pton6 E kIpEchoHosts of (ip, calls) \<Rightarrow>
        if ip \<noteq> [] then (ip, calls) else (detect_curl pton4 pton6 E timeoutMs kIpEchoHosts, calls))"

end
