(* ===== verification/Logger.thy ===== *)
theory Logger
  imports Vless_Prelude
begin

text \<open>
  The asynchronous logger (include/common/log.h, src/common/log.cpp): levels and line format, the
  bounded queue, and the background thread that writes it out in batches.

  \<open>logger\<close> is the state behind the mutex with the place of the worker thread (\<open>lg_worker\<close>). Each function
  below is one critical section, or one system call made outside of it; the threads that log, call
  \<open>setLogFile\<close> or \<open>shutdown\<close> interleave with the worker between them (\<open>logger_step\<close>). \<open>lg_writes\<close> are the
  \<open>write\<close> calls made, whose results the code ignores, \<open>lg_closed\<close> the log files closed. Time and thread number of a line are parameters.
\<close>

section \<open>Levels and lines\<close>

datatype log_level = LogNone | LogError | LogWarn | LogInfo | LogDebug

fun level_int :: "log_level \<Rightarrow> int" where
  "level_int LogNone = 0"
| "level_int LogError = 1"
| "level_int LogWarn = 2"
| "level_int LogInfo = 3"
| "level_int LogDebug = 4"

fun levelName :: "log_level \<Rightarrow> string" where
  "levelName LogError = ''ERROR''"
| "levelName LogWarn = ''WARN''"
| "levelName LogInfo = ''INFO''"
| "levelName LogDebug = ''DEBUG''"
| "levelName LogNone = ''NONE''"

definition shouldLog :: "log_level \<Rightarrow> log_level \<Rightarrow> bool" where
  "shouldLog current level \<longleftrightarrow> level_int level \<le> level_int current"

definition parseLogLevel :: "string \<Rightarrow> log_level" where
  "parseLogLevel s =
     (if s = ''none'' \<or> s = ''NONE'' then LogNone
      else if s = ''error'' \<or> s = ''ERROR'' then LogError
      else if s = ''warn'' \<or> s = ''WARN'' then LogWarn
      else if s = ''info'' \<or> s = ''INFO'' then LogInfo
      else if s = ''debug'' \<or> s = ''DEBUG'' then LogDebug
      else LogInfo)"

text \<open>\<open>%0<w>d\<close> of a non-negative integer, and the time stamp.\<close>

definition zero_pad :: "nat \<Rightarrow> nat \<Rightarrow> string" where
  "zero_pad w n = (let s = dec_nat n in replicate (w - length s) (CHR ''0'') @ s)"

record broken_time =
  tm_year :: nat
  tm_mon :: nat
  tm_mday :: nat
  tm_hour :: nat
  tm_min :: nat
  tm_sec :: nat
  tv_usec :: nat

definition timestamp :: "broken_time \<Rightarrow> string" where
  "timestamp t = zero_pad 4 (tm_year t + 1900) @ ''-'' @ zero_pad 2 (tm_mon t + 1) @ ''-'' @ zero_pad 2 (tm_mday t) @ '' '' @
     zero_pad 2 (tm_hour t) @ '':'' @ zero_pad 2 (tm_min t) @ '':'' @ zero_pad 2 (tm_sec t) @ ''.'' @
     zero_pad 3 (tv_usec t div 1000)"

definition formatLogLine :: "broken_time \<Rightarrow> int \<Rightarrow> log_level \<Rightarrow> string \<Rightarrow> string" where
  "formatLogLine time tid level message =
     ''['' @ timestamp time @ ''] ['' @ levelName level @ ''] [tid='' @ dec_int tid @ ''] '' @ message @ [CHR 0x0A]"

text \<open>The text the template \<open>log\<close> builds from its tag and arguments, already printed to strings.\<close>

definition log_message :: "string \<Rightarrow> string list \<Rightarrow> string" where
  "log_message tag args = ''['' @ tag @ ''] '' @ concat args"

section \<open>State\<close>

definition kMaxQueueSize :: nat where "kMaxQueueSize = 100000"

definition kBatchLimit :: nat where "kBatchLimit = 1024"

text \<open>
  \<open>Waiting\<close> is the worker at its condition variable; then it holds a batch to write to the standard
  error, then to a log file whose descriptor it has read, then it takes the number of dropped lines,
  and reports it.
\<close>

datatype log_worker = Waiting | WriteErr "string list" | WriteFile int "string list" | TakeDropped | Report nat | Finished

datatype log_write = WriteBatch int "string list" | WriteNotice nat

record logger =
  lg_level :: log_level
  lg_queue :: "string list"
  lg_stop :: bool
  lg_dropped :: nat
  lg_fileFd :: int
  lg_worker :: log_worker
  lg_writes :: "log_write list"
  lg_closed :: "int list"

definition logger_init :: logger where
  "logger_init = \<lparr>lg_level = LogInfo, lg_queue = [], lg_stop = False, lg_dropped = 0, lg_fileFd = -1,
     lg_worker = Waiting, lg_writes = [], lg_closed = []\<rparr>"

text \<open>The bytes of a \<open>write\<close> call.\<close>

fun write_data :: "log_write \<Rightarrow> string" where
  "write_data (WriteBatch fd batch) = concat batch"
| "write_data (WriteNotice n) = ''[Logger] dropped '' @ dec_nat n @ '' log lines (queue overflow)'' @ [CHR 0x0A]"

section \<open>Operations\<close>

definition setLevel :: "log_level \<Rightarrow> logger \<Rightarrow> logger" where
  "setLevel level s = s\<lparr>lg_level := level\<rparr>"

text \<open>\<open>fd\<close> is what \<open>open\<close> returns. The old file is closed.\<close>

definition setLogFile :: "string \<Rightarrow> int \<Rightarrow> logger \<Rightarrow> logger" where
  "setLogFile path fd s =
     (if path = [] then s
      else if fd < 0 then s
      else (if lg_fileFd s \<ge> 0 then s\<lparr>lg_closed := lg_closed s @ [lg_fileFd s]\<rparr> else s)\<lparr>lg_fileFd := fd\<rparr>)"

definition enqueue :: "string \<Rightarrow> logger \<Rightarrow> logger" where
  "enqueue full s =
     (if length (lg_queue s) \<ge> kMaxQueueSize then s\<lparr>lg_dropped := lg_dropped s + 1\<rparr>
      else s\<lparr>lg_queue := lg_queue s @ [full]\<rparr>)"

definition log_line :: "broken_time \<Rightarrow> int \<Rightarrow> log_level \<Rightarrow> string \<Rightarrow> string list \<Rightarrow> logger \<Rightarrow> logger" where
  "log_line time tid level tag args s =
     (if \<not> shouldLog (lg_level s) level then s
      else enqueue (formatLogLine time tid level (log_message tag args)) s)"

text \<open>\<open>shutdown\<close> up to the join.\<close>

definition shutdown_begin :: "logger \<Rightarrow> logger" where
  "shutdown_begin s = (if lg_stop s then s else s\<lparr>lg_stop := True\<rparr>)"

text \<open>The destructor, after the join.\<close>

definition logger_destroy :: "logger \<Rightarrow> logger" where
  "logger_destroy s =
     (if lg_fileFd s \<ge> 0 then s\<lparr>lg_closed := lg_closed s @ [lg_fileFd s], lg_fileFd := -1\<rparr> else s)"

text \<open>One step of \<open>workerLoop\<close>; \<open>None\<close> when the thread waits at its condition variable, or has ended.\<close>

definition workerLoop_step :: "logger \<Rightarrow> logger option" where
  "workerLoop_step s =
     (case lg_worker s of
        Waiting \<Rightarrow>
          (if \<not> (lg_stop s \<or> lg_queue s \<noteq> []) then None
           else if lg_queue s = [] then
             (if lg_stop s then Some (s\<lparr>lg_worker := Finished\<rparr>) else Some s)
           else
             (let n = min (length (lg_queue s)) kBatchLimit
              in Some (s\<lparr>lg_queue := drop n (lg_queue s), lg_worker := WriteErr (take n (lg_queue s))\<rparr>)))
      | WriteErr batch \<Rightarrow>
          (let s = s\<lparr>lg_writes := lg_writes s @ [WriteBatch 2 batch]\<rparr>; fd = lg_fileFd s
           in Some (s\<lparr>lg_worker := (if fd \<ge> 0 then WriteFile fd batch else TakeDropped)\<rparr>))
      | WriteFile fd batch \<Rightarrow>
          Some (s\<lparr>lg_writes := lg_writes s @ [WriteBatch fd batch], lg_worker := TakeDropped\<rparr>)
      | TakeDropped \<Rightarrow>
          Some (s\<lparr>lg_dropped := 0, lg_worker := (if lg_dropped s > 0 then Report (lg_dropped s) else Waiting)\<rparr>)
      | Report n \<Rightarrow> Some (s\<lparr>lg_writes := lg_writes s @ [WriteNotice n], lg_worker := Waiting\<rparr>)
      | Finished \<Rightarrow> None)"

section \<open>Interleavings\<close>

datatype log_event = EvLine string | EvFile string int | EvShutdown | EvWorker

fun logger_step :: "log_event \<Rightarrow> logger \<Rightarrow> logger" where
  "logger_step (EvLine full) s = enqueue full s"
| "logger_step (EvFile path fd) s = setLogFile path fd s"
| "logger_step EvShutdown s = shutdown_begin s"
| "logger_step EvWorker s = (case workerLoop_step s of None \<Rightarrow> s | Some s' \<Rightarrow> s')"

definition logger_run :: "log_event list \<Rightarrow> logger" where
  "logger_run evs = fold logger_step evs logger_init"

text \<open>The worker alone, for \<open>n\<close> steps.\<close>

fun worker_steps :: "nat \<Rightarrow> logger \<Rightarrow> logger" where
  "worker_steps 0 s = s"
| "worker_steps (Suc n) s = worker_steps n (logger_step EvWorker s)"

end
