(* ===== verification/Tls_Context.thy ===== *)
theory Tls_Context
  imports Config
begin

text \<open>
  TLS contexts (include/net/tls.h, src/net/tls.cpp): the choice between a configured certificate, a
  stored self-signed one and a new one, and the client's context.

  OpenSSL is the record \<open>ssl_world\<close>: what its calls return, and the functions it computes on PEM texts.
  The objects of \<open>generateSelfSigned\<close> and the contexts are followed through a log of allocations and
  releases. The log messages are left out.
\<close>

section \<open>State\<close>

record tls_setup =
  ts_enabled :: bool
  ts_certFile :: string
  ts_keyFile :: string
  ts_certDir :: string
  ts_certDays :: int
  ts_certSha256 :: string

text \<open>A server context holds the certificate chain and key it has loaded, a client context how it verifies.\<close>

datatype ssl_ctx = ServerCtx "(string \<times> string) option" | ClientCtx bool bool

datatype ssl_object = KeyCtx | Key | Cert | Bio | Ctx

datatype ssl_event = New ssl_object | Free ssl_object

text \<open>
  \<open>sw_calls n\<close>: does the n-th fallible call of \<open>generateSelfSigned\<close> succeed; \<open>sw_signed\<close> the PEM texts of
  certificate and key for a validity in days and a common name; \<open>sw_usable\<close>: do the certificate and
  key files load and match; \<open>sw_notAfter\<close> the end of validity of a certificate, when it can be parsed;
  \<open>sw_digest\<close> the SHA-256 of its DER form.
\<close>

record ssl_world =
  sw_ctx_new :: bool
  sw_calls :: "nat \<Rightarrow> bool"
  sw_signed :: "int \<Rightarrow> string \<Rightarrow> string \<times> string"
  sw_usable :: "string \<Rightarrow> string \<Rightarrow> bool"
  sw_notAfter :: "string \<Rightarrow> int option"
  sw_now :: int
  sw_digest :: "string \<Rightarrow> bytes option"
  sw_mkdir :: "string \<Rightarrow> bool"
  sw_isDir :: "string \<Rightarrow> bool"
  sw_writable :: "string \<Rightarrow> bool"

section \<open>Files and certificates\<close>

definition kRenewThresholdDays :: int where "kRenewThresholdDays = 30"

definition ensureDir :: "ssl_world \<Rightarrow> string \<Rightarrow> fs \<Rightarrow> bool \<times> fs" where
  "ensureDir W dir fs =
     (if dir = [] then (True, fs)
      else
        (let fs = fs\<lparr>fs_mkdirs := fs_mkdirs fs @ [dir]\<rparr> in
         if sw_mkdir W dir then (True, fs)
         else if sw_isDir W dir then (True, fs) else (False, fs)))"

text \<open>The contents, or \<open>None\<close> when the file cannot be read or is empty.\<close>

definition readFile :: "string \<Rightarrow> fs \<Rightarrow> string option" where
  "readFile path fs = (case fs_files fs path of None \<Rightarrow> None | Some s \<Rightarrow> if s = [] then None else Some s)"

text \<open>An \<open>ofstream\<close> that cannot be opened writes nothing, and nobody looks.\<close>

definition writeFile :: "ssl_world \<Rightarrow> string \<Rightarrow> string \<Rightarrow> fs \<Rightarrow> fs" where
  "writeFile W path s fs = (if sw_writable W path then fs\<lparr>fs_files := (fs_files fs)(path \<mapsto> s)\<rparr> else fs)"

definition certRemainingSeconds :: "ssl_world \<Rightarrow> string \<Rightarrow> int" where
  "certRemainingSeconds W pem = (case sw_notAfter W pem of None \<Rightarrow> -1 | Some expire \<Rightarrow> expire - sw_now W)"

definition hex_lower :: "nat \<Rightarrow> char" where
  "hex_lower n = ''0123456789abcdef'' ! n"

fun hexEncode :: "bytes \<Rightarrow> string" where
  "hexEncode [] = []"
| "hexEncode (b # bs) = hex_lower (unat (drop_bit 4 b)) # hex_lower (unat (b AND 0x0F)) # hexEncode bs"

definition certSha256Hex :: "ssl_world \<Rightarrow> string \<Rightarrow> string" where
  "certSha256Hex W pem = (case sw_digest W pem of None \<Rightarrow> [] | Some hash \<Rightarrow> hexEncode hash)"

section \<open>Generating a certificate\<close>

text \<open>
  The body of the \<open>do\<close> block: each \<open>break\<close> leaves with the events so far, and tells whether the key and the
  certificate exist; the calls are numbered in their order. \<open>None\<close> for the texts is a failure.
\<close>

definition self_signed_body ::
    "ssl_world \<Rightarrow> int \<Rightarrow> string \<Rightarrow> (string \<times> string) option \<times> bool \<times> bool \<times> ssl_event list" where
  "self_signed_body W days cn =
     (let ok = sw_calls W in
      if \<not> ok 0 then (None, False, False, [])
      else if \<not> ok 1 then (None, False, False, [New KeyCtx, Free KeyCtx])
      else if \<not> ok 2 then (None, False, False, [New KeyCtx, Free KeyCtx])
      else if \<not> ok 3 then (None, False, False, [New KeyCtx, Free KeyCtx])
      else
        (let evs = [New KeyCtx, New Key, Free KeyCtx] in
         if \<not> ok 4 then (None, True, False, evs)
         else
           (let evs = evs @ [New Cert] in
            if \<not> ok 5 then (None, True, True, evs)
            else if \<not> ok 6 then (None, True, True, evs)
            else if \<not> ok 7 then (None, True, True, evs @ [New Bio, Free Bio])
            else if \<not> ok 8 then (None, True, True, evs @ [New Bio, Free Bio])
            else if \<not> ok 9 then (None, True, True, evs @ [New Bio, Free Bio, New Bio, Free Bio])
            else (Some (sw_signed W days cn), True, True, evs @ [New Bio, Free Bio, New Bio, Free Bio]))))"

definition generateSelfSigned :: "ssl_world \<Rightarrow> int \<Rightarrow> string \<Rightarrow> (string \<times> string) option \<times> ssl_event list" where
  "generateSelfSigned W days cn =
     (case self_signed_body W days cn of (pems, pkey, x509, evs) \<Rightarrow>
        (pems, evs @ (if pkey then [Free Key] else []) @ (if x509 then [Free Cert] else [])))"

section \<open>The server's context\<close>

text \<open>Loading both files into the context, and the check that they match.\<close>

definition use_files :: "ssl_world \<Rightarrow> string \<Rightarrow> string \<Rightarrow> fs \<Rightarrow> ssl_ctx option" where
  "use_files W certPath keyPath fs =
     (case (fs_files fs certPath, fs_files fs keyPath) of
        (Some cert, Some key) \<Rightarrow> if sw_usable W cert key then Some (ServerCtx (Some (cert, key))) else None
      | _ \<Rightarrow> None)"

record tls_result =
  tr_ctx :: "ssl_ctx option"
  tr_cfg :: tls_setup
  tr_warn :: string
  tr_fs :: fs
  tr_events :: "ssl_event list"

definition no_context :: "tls_setup \<Rightarrow> string \<Rightarrow> fs \<Rightarrow> ssl_event list \<Rightarrow> tls_result" where
  "no_context cfg warn fs evs = \<lparr>tr_ctx = None, tr_cfg = cfg, tr_warn = warn, tr_fs = fs, tr_events = evs @ [Free Ctx]\<rparr>"

text \<open>\<open>use_files\<close>, and the fingerprint of the certificate text when it succeeds.\<close>

definition finish_context ::
    "ssl_world \<Rightarrow> string \<Rightarrow> string \<Rightarrow> string \<Rightarrow> tls_setup \<Rightarrow> string \<Rightarrow> string \<Rightarrow> fs \<Rightarrow> ssl_event list \<Rightarrow> tls_result" where
  "finish_context W certPath keyPath certPem cfg warn newWarn fs evs =
     (case use_files W certPath keyPath fs of
        None \<Rightarrow> no_context cfg warn fs evs
      | Some ctx \<Rightarrow> \<lparr>tr_ctx = Some ctx, tr_cfg = cfg\<lparr>ts_certSha256 := certSha256Hex W certPem\<rparr>, tr_warn = newWarn,
          tr_fs = fs, tr_events = evs\<rparr>)"

definition stored_certificate :: "ssl_world \<Rightarrow> string \<Rightarrow> string \<Rightarrow> fs \<Rightarrow> string option" where
  "stored_certificate W certPath keyPath fs =
     (case (readFile certPath fs, readFile keyPath fs) of
        (Some cert, Some key) \<Rightarrow>
          (let rem = certRemainingSeconds W cert
           in if rem > 0 \<and> rem > kRenewThresholdDays * 24 * 3600 then Some cert else None)
      | _ \<Rightarrow> None)"

definition configured_context :: "ssl_world \<Rightarrow> tls_setup \<Rightarrow> string \<Rightarrow> fs \<Rightarrow> tls_result" where
  "configured_context W cfg warn fs =
     (case (readFile (ts_certFile cfg) fs, readFile (ts_keyFile cfg) fs) of
        (Some certPem, Some keyPem) \<Rightarrow>
          finish_context W (ts_certFile cfg) (ts_keyFile cfg) certPem cfg warn [] fs [New Ctx]
      | _ \<Rightarrow> no_context cfg warn fs [New Ctx])"

definition new_certificate :: "ssl_world \<Rightarrow> string \<Rightarrow> string \<Rightarrow> tls_setup \<Rightarrow> string \<Rightarrow> fs \<Rightarrow> tls_result" where
  "new_certificate W certPath keyPath cfg warn fs =
     (case generateSelfSigned W (ts_certDays cfg) ''vless-self-signed'' of
        (None, evs) \<Rightarrow> no_context cfg warn fs (New Ctx # evs)
      | (Some (certPem, keyPem), evs) \<Rightarrow>
          finish_context W certPath keyPath certPem cfg warn
            (''self-signed fallback active: generated new cert '' @ certPath)
            (writeFile W keyPath keyPem (writeFile W certPath certPem fs)) (New Ctx # evs))"

definition self_signed_context :: "ssl_world \<Rightarrow> tls_setup \<Rightarrow> string \<Rightarrow> fs \<Rightarrow> tls_result" where
  "self_signed_context W cfg warn fs =
     (let dir = (if ts_certDir cfg = [] then ''./certs'' else ts_certDir cfg) in
      case ensureDir W dir fs of (made, fs) \<Rightarrow>
        if \<not> made then no_context cfg warn fs [New Ctx]
        else
          (let certPath = dir @ ''/cert.pem''; keyPath = dir @ ''/key.pem'' in
           case stored_certificate W certPath keyPath fs of
             Some certPem \<Rightarrow>
               finish_context W certPath keyPath certPem cfg warn
                 (''self-signed fallback: reusing existing cert '' @ certPath) fs [New Ctx]
           | None \<Rightarrow> new_certificate W certPath keyPath cfg warn fs))"

definition createServerSslContext :: "ssl_world \<Rightarrow> tls_setup \<Rightarrow> string \<Rightarrow> fs \<Rightarrow> tls_result" where
  "createServerSslContext W cfg warn fs =
     (if \<not> ts_enabled cfg then \<lparr>tr_ctx = None, tr_cfg = cfg, tr_warn = warn, tr_fs = fs, tr_events = []\<rparr>
      else if \<not> sw_ctx_new W then \<lparr>tr_ctx = None, tr_cfg = cfg, tr_warn = warn, tr_fs = fs, tr_events = []\<rparr>
      else if ts_certFile cfg \<noteq> [] \<and> ts_keyFile cfg \<noteq> [] then configured_context W cfg warn fs
      else self_signed_context W cfg warn fs)"

section \<open>The client's context\<close>

text \<open>\<open>ClientCtx verify paths\<close>: is the peer verified, and are the system's authorities trusted.\<close>

definition createClientSslContext :: "bool \<Rightarrow> bool \<Rightarrow> ssl_ctx option" where
  "createClientSslContext ctx_new insecure =
     (if \<not> ctx_new then None
      else if insecure then Some (ClientCtx False False)
      else Some (ClientCtx True True))"

end
