(* ===== verification/Event_Loop.thy ===== *)
theory Event_Loop
  imports Sys_Interface "HOL-Library.AList"
begin

text \<open>
  The event loop both programs run on (include/server/event_loop.h, src/server/event_loop.cpp,
  include/server/connection.h) and the runner that gives every loop a thread
  (src/server/event_loop_runner.cpp).

  \<open>connection_ops\<close> is the interface \<open>EventLoopConnection\<close>: a loop knows nothing else of its
  connections. \<open>connections\<close> is the table by descriptor. \<open>el_gone\<close> collects the destroyed
  connections in their final state. \<open>el_phase\<close> is the place of the loop's thread in \<open>run\<close>: \<open>AtWait\<close> at the
  head of the loop, \<open>AtCompletions\<close> between \<open>submitAndWait\<close> and \<open>cleanupClosedConnections\<close>; it moves in steps
  (\<open>loop_step\<close>) between which another thread or a signal may call \<open>stop\<close>.
\<close>

section \<open>State\<close>

record 'c connection_ops =
  cn_start :: "'c \<Rightarrow> 'c"
  cn_isClosed :: "'c \<Rightarrow> bool"
  cn_primaryFd :: "'c \<Rightarrow> int"
  cn_destroy :: "'c \<Rightarrow> 'c"

text \<open>\<open>hasFd\<close> as the interface defines it; both connections override it.\<close>

definition cn_hasFd :: "'c connection_ops \<Rightarrow> int \<Rightarrow> 'c \<Rightarrow> bool" where
  "cn_hasFd ops fd c \<longleftrightarrow> fd = cn_primaryFd ops c"

datatype accept_task = AcceptIdle | AcceptWaiting | AcceptEnded

datatype loop_phase = NotRun | AtWait | AtCompletions | Returned

record 'c event_loop =
  el_running :: bool
  listenFd :: int
  connections :: "(int \<times> 'c) list"
  acceptTask :: accept_task
  el_phase :: loop_phase
  el_gone :: "'c list"
  el_log :: "syscall list"

definition EventLoop :: "'c event_loop" where
  "EventLoop = \<lparr>el_running = False, listenFd = -1, connections = [], acceptTask = AcceptIdle,
     el_phase = NotRun, el_gone = [], el_log = []\<rparr>"

section \<open>Starting and stopping\<close>

text \<open>What \<open>socket\<close>, \<open>bind\<close> and \<open>listen\<close> return to \<open>run\<close>.\<close>

record listen_results =
  lr_socket :: int
  lr_bind :: int
  lr_listen :: int

definition el_call :: "syscall list \<Rightarrow> 'c event_loop \<Rightarrow> 'c event_loop" where
  "el_call cs s = s\<lparr>el_log := el_log s @ cs\<rparr>"

text \<open>The head of the accept loop: the next accept is submitted, or the coroutine ends.\<close>

definition accept_next :: "'c event_loop \<Rightarrow> 'c event_loop" where
  "accept_next s = s\<lparr>acceptTask := (if el_running s then AcceptWaiting else AcceptEnded)\<rparr>"

text \<open>\<open>run\<close> up to its main loop.\<close>

definition run_start :: "listen_results \<Rightarrow> ('c event_loop, unit) co" where
  "run_start r s =
     (let s = s\<lparr>listenFd := lr_socket r\<rparr> in
      if listenFd s < 0 then co_throw ''failed to create listen socket'' s
      else if lr_bind r < 0 then co_throw ''failed to bind listen socket'' (el_call [CloseFd (listenFd s)] s)
      else if lr_listen r < 0 then co_throw ''failed to listen'' (el_call [CloseFd (listenFd s)] s)
      else co_return () ((accept_next (s\<lparr>el_running := True\<rparr>))\<lparr>el_phase := AtWait\<rparr>))"

definition loop_stop :: "'c event_loop \<Rightarrow> 'c event_loop" where
  "loop_stop s =
     (let s = s\<lparr>el_running := False\<rparr> in
      if listenFd s \<ge> 0 then (el_call [ShutdownFd (listenFd s), CloseFd (listenFd s)] s)\<lparr>listenFd := -1\<rparr> else s)"

section \<open>The connection table\<close>

text \<open>\<open>connections_[fd] = std::move(conn)\<close>: an entry that is already there is destroyed.\<close>

definition insert_connection :: "'c connection_ops \<Rightarrow> int \<Rightarrow> 'c \<Rightarrow> 'c event_loop \<Rightarrow> 'c event_loop" where
  "insert_connection ops fd c s =
     s\<lparr>el_gone := el_gone s @ (case map_of (connections s) fd of None \<Rightarrow> [] | Some old \<Rightarrow> [cn_destroy ops old]),
       connections := AList.update fd c (connections s)\<rparr>"

text \<open>One turn of the accept loop, from the completion of the accept to the next one. \<open>made\<close> is what
the factory returns for the descriptor.\<close>

definition accept_complete :: "'c connection_ops \<Rightarrow> int \<Rightarrow> 'c option \<Rightarrow> 'c event_loop \<Rightarrow> 'c event_loop" where
  "accept_complete ops fd made s =
     (if fd < 0 then
        (if \<not> el_running s then s\<lparr>acceptTask := AcceptEnded\<rparr> else accept_next s)
      else case made of
        None \<Rightarrow> accept_next (el_call [CloseFd fd] s)
      | Some c \<Rightarrow> accept_next (insert_connection ops fd (cn_start ops c) s))"

text \<open>\<open>cleanupClosedConnections\<close>: the entries kept and the connections destroyed.\<close>

fun cleanup_loop :: "'c connection_ops \<Rightarrow> (int \<times> 'c) list \<Rightarrow> (int \<times> 'c) list \<times> 'c list" where
  "cleanup_loop ops [] = ([], [])"
| "cleanup_loop ops ((fd, c) # m) =
     (let (kept, gone) = cleanup_loop ops m in
      if cn_isClosed ops c then (kept, cn_destroy ops c # gone) else ((fd, c) # kept, gone))"

definition cleanupClosedConnections :: "'c connection_ops \<Rightarrow> 'c event_loop \<Rightarrow> 'c event_loop" where
  "cleanupClosedConnections ops s =
     (let (kept, gone) = cleanup_loop ops (connections s)
      in s\<lparr>connections := kept, el_gone := el_gone s @ gone\<rparr>)"

text \<open>\<open>run\<close> after its main loop.\<close>

definition run_end :: "'c connection_ops \<Rightarrow> 'c event_loop \<Rightarrow> 'c event_loop" where
  "run_end ops s =
     (let s = s\<lparr>el_gone := el_gone s @ map (cn_destroy ops \<circ> snd) (connections s), connections := []\<rparr>;
          s = (if listenFd s \<ge> 0 then (el_call [CloseFd (listenFd s)] s)\<lparr>listenFd := -1\<rparr> else s)
      in s\<lparr>el_phase := Returned\<rparr>)"

section \<open>The loop as a transition system\<close>

text \<open>
  \<open>step\<close> is how a connection moves when one of its coroutines is resumed, \<open>fds\<close> the descriptors a
  connection holds open, \<open>factory\<close> what the loop's factory may return for a descriptor. A descriptor
  that the kernel returns is not open at that moment.
\<close>

definition open_fds :: "('c \<Rightarrow> int set) \<Rightarrow> 'c event_loop \<Rightarrow> int set" where
  "open_fds fds s = {fd. fd = listenFd s \<and> 0 \<le> fd} \<union> (\<Union>c \<in> snd ` set (connections s). fds c)"

inductive loop_step ::
    "'c connection_ops \<Rightarrow> ('c \<Rightarrow> 'c \<Rightarrow> bool) \<Rightarrow> ('c \<Rightarrow> int set) \<Rightarrow> (int \<Rightarrow> 'c option set) \<Rightarrow>
     'c event_loop \<Rightarrow> 'c event_loop \<Rightarrow> bool"
  for ops step fds factory where
  ELWait: "el_phase s = AtWait \<Longrightarrow> el_running s \<Longrightarrow> loop_step ops step fds factory s (s\<lparr>el_phase := AtCompletions\<rparr>)"
| ELAcceptFailed: "el_phase s = AtCompletions \<Longrightarrow> acceptTask s = AcceptWaiting \<Longrightarrow> fd < 0 \<Longrightarrow>
    loop_step ops step fds factory s (accept_complete ops fd None s)"
| ELAccept: "el_phase s = AtCompletions \<Longrightarrow> acceptTask s = AcceptWaiting \<Longrightarrow> 0 \<le> fd \<Longrightarrow>
    fd \<notin> open_fds fds s \<Longrightarrow> made \<in> factory fd \<Longrightarrow>
    loop_step ops step fds factory s (accept_complete ops fd made s)"
| ELConnection: "el_phase s = AtCompletions \<Longrightarrow> map_of (connections s) fd = Some c \<Longrightarrow> step c c' \<Longrightarrow>
    (fds c' - fds c) \<inter> open_fds fds s = {} \<Longrightarrow>
    loop_step ops step fds factory s (s\<lparr>connections := AList.update fd c' (connections s)\<rparr>)"
| ELCleanup: "el_phase s = AtCompletions \<Longrightarrow>
    loop_step ops step fds factory s ((cleanupClosedConnections ops s)\<lparr>el_phase := AtWait\<rparr>)"
| ELStop: "loop_step ops step fds factory s (loop_stop s)"
| ELEnd: "el_phase s = AtWait \<Longrightarrow> \<not> el_running s \<Longrightarrow> loop_step ops step fds factory s (run_end ops s)"

inductive_cases loop_stepE: "loop_step ops step fds factory s s'"

inductive loop_reach ::
    "'c connection_ops \<Rightarrow> ('c \<Rightarrow> 'c \<Rightarrow> bool) \<Rightarrow> ('c \<Rightarrow> int set) \<Rightarrow> (int \<Rightarrow> 'c option set) \<Rightarrow>
     'c event_loop \<Rightarrow> bool"
  for ops step fds factory where
  loop_started: "run_start r EventLoop = Some (Inr (), s) \<Longrightarrow> loop_reach ops step fds factory s"
| loop_next: "loop_reach ops step fds factory s \<Longrightarrow> loop_step ops step fds factory s s' \<Longrightarrow>
    loop_reach ops step fds factory s'"

text \<open>A run of the loop: steps, or nothing happens.\<close>

definition loop_run ::
    "'c connection_ops \<Rightarrow> ('c \<Rightarrow> 'c \<Rightarrow> bool) \<Rightarrow> ('c \<Rightarrow> int set) \<Rightarrow> (int \<Rightarrow> 'c option set) \<Rightarrow>
     (nat \<Rightarrow> 'c event_loop) \<Rightarrow> bool" where
  "loop_run ops step fds factory \<sigma> \<longleftrightarrow> loop_reach ops step fds factory (\<sigma> 0) \<and>
     (\<forall>i. \<sigma> (Suc i) = \<sigma> i \<or> loop_step ops step fds factory (\<sigma> i) (\<sigma> (Suc i)))"

section \<open>The runner\<close>

text \<open>
  The worker threads of \<open>runEventLoops\<close>. A worker whose \<open>run\<close> throws keeps the message under the
  mutex unless an error was flagged before, flags the error, and stops every loop; these are three
  steps of the thread.
\<close>

datatype worker = WCreated | WRunning | WThrew string | WRecorded string | WFlagged string | WJoined "string option"

record 'c runner =
  rn_loops :: "'c event_loop list"
  rn_workers :: "worker list"
  hasError :: bool
  errorMessage :: string

definition runner_init :: "nat \<Rightarrow> 'c runner" where
  "runner_init n = \<lparr>rn_loops = replicate n EventLoop, rn_workers = replicate n WCreated, hasError = False,
     errorMessage = []\<rparr>"

definition set_worker :: "nat \<Rightarrow> worker \<Rightarrow> 'c runner \<Rightarrow> 'c runner" where
  "set_worker i w s = s\<lparr>rn_workers := (rn_workers s)[i := w]\<rparr>"

definition worker_start :: "nat \<Rightarrow> listen_results \<Rightarrow> 'c runner \<Rightarrow> 'c runner" where
  "worker_start i r s =
     (case run_start r (rn_loops s ! i) of
        None \<Rightarrow> s
      | Some (Inl (RuntimeError m), l) \<Rightarrow> set_worker i (WThrew m) (s\<lparr>rn_loops := (rn_loops s)[i := l]\<rparr>)
      | Some (Inr _, l) \<Rightarrow> set_worker i WRunning (s\<lparr>rn_loops := (rn_loops s)[i := l]\<rparr>))"

definition worker_record :: "nat \<Rightarrow> string \<Rightarrow> 'c runner \<Rightarrow> 'c runner" where
  "worker_record i m s =
     set_worker i (WRecorded m) (if \<not> hasError s then s\<lparr>errorMessage := m\<rparr> else s)"

definition worker_flag :: "nat \<Rightarrow> string \<Rightarrow> 'c runner \<Rightarrow> 'c runner" where
  "worker_flag i m s = set_worker i (WFlagged m) (s\<lparr>hasError := True\<rparr>)"

definition stop_all :: "'c runner \<Rightarrow> 'c runner" where
  "stop_all s = s\<lparr>rn_loops := map loop_stop (rn_loops s)\<rparr>"

inductive runner_step ::
    "'c connection_ops \<Rightarrow> ('c \<Rightarrow> 'c \<Rightarrow> bool) \<Rightarrow> ('c \<Rightarrow> int set) \<Rightarrow> (int \<Rightarrow> 'c option set) \<Rightarrow>
     'c runner \<Rightarrow> 'c runner \<Rightarrow> bool"
  for ops step fds factory where
  RNStart: "i < length (rn_workers s) \<Longrightarrow> rn_workers s ! i = WCreated \<Longrightarrow>
    runner_step ops step fds factory s (worker_start i r s)"
| RNLoop: "i < length (rn_workers s) \<Longrightarrow> rn_workers s ! i = WRunning \<Longrightarrow>
    loop_step ops step fds factory (rn_loops s ! i) l \<Longrightarrow>
    runner_step ops step fds factory s (s\<lparr>rn_loops := (rn_loops s)[i := l]\<rparr>)"
| RNThrow: "i < length (rn_workers s) \<Longrightarrow> rn_workers s ! i = WRunning \<Longrightarrow>
    runner_step ops step fds factory s (set_worker i (WThrew m) s)"
| RNRecord: "i < length (rn_workers s) \<Longrightarrow> rn_workers s ! i = WThrew m \<Longrightarrow>
    runner_step ops step fds factory s (worker_record i m s)"
| RNFlag: "i < length (rn_workers s) \<Longrightarrow> rn_workers s ! i = WRecorded m \<Longrightarrow>
    runner_step ops step fds factory s (worker_flag i m s)"
| RNStopAll: "i < length (rn_workers s) \<Longrightarrow> rn_workers s ! i = WFlagged m \<Longrightarrow>
    runner_step ops step fds factory s (set_worker i (WJoined (Some m)) (stop_all s))"
| RNReturn: "i < length (rn_workers s) \<Longrightarrow> rn_workers s ! i = WRunning \<Longrightarrow> el_phase (rn_loops s ! i) = Returned \<Longrightarrow>
    runner_step ops step fds factory s (set_worker i (WJoined None) s)"
| RNSignal: "runner_step ops step fds factory s (stop_all s)"

inductive_cases runner_stepE: "runner_step ops step fds factory s s'"

inductive runner_reach ::
    "'c connection_ops \<Rightarrow> ('c \<Rightarrow> 'c \<Rightarrow> bool) \<Rightarrow> ('c \<Rightarrow> int set) \<Rightarrow> (int \<Rightarrow> 'c option set) \<Rightarrow>
     nat \<Rightarrow> 'c runner \<Rightarrow> bool"
  for ops step fds factory n where
  runner_started: "runner_reach ops step fds factory n (runner_init n)"
| runner_next: "runner_reach ops step fds factory n s \<Longrightarrow> runner_step ops step fds factory s s' \<Longrightarrow>
    runner_reach ops step fds factory n s'"

text \<open>What \<open>runEventLoops\<close> returns, and leaves in \<open>errorOut\<close>, once every worker has been joined.\<close>

definition runner_result :: "'c runner \<Rightarrow> int \<times> string" where
  "runner_result s =
     (if hasError s then (1, if errorMessage s = [] then ''worker thread failed'' else errorMessage s) else (0, []))"

text \<open>Before any thread is started: the two vectors must agree.\<close>

definition runEventLoops :: "nat \<Rightarrow> nat \<Rightarrow> (int \<times> string) + 'c runner" where
  "runEventLoops nloops nports =
     (if nloops \<noteq> nports then Inl (1, ''internal: loops/ports size mismatch'') else Inr (runner_init nloops))"

end
