(* ===== verification/Server_Main.thy ===== *)
theory Server_Main
  imports Server Share_Link Logger Tls_Context Event_Loop
begin

text \<open>
  The server program (src/main.cpp): its command line, how it overrides the configuration file, the
  users, the start-up banner, and \<open>main\<close> up to the event loops it hands to \<open>runEventLoops\<close>.

  \<open>std::atoi\<close> is the number it reads; what it does with one outside of \<open>int\<close> is not defined by the
  language. Casts are written out at their widths. The usage text is not modelled.
\<close>

section \<open>Command line\<close>

record server_cli =
  portSet :: bool
  cl_port :: "32 word"
  logLevelSet :: bool
  cl_logLevel :: string
  workersSet :: bool
  cl_workers :: "32 word"
  tlsEnabledSet :: bool
  tlsPortSet :: bool
  cl_tlsPort :: "32 word"
  certSet :: bool
  cl_cert :: string
  keySet :: bool
  cl_key :: string
  certDirSet :: bool
  cl_certDir :: string
  certDaysSet :: bool
  cl_certDays :: int
  publicHostSet :: bool
  cl_publicHost :: string

definition server_cli_init :: server_cli where
  "server_cli_init = \<lparr>portSet = False, cl_port = 1080, logLevelSet = False, cl_logLevel = ''info'',
     workersSet = False, cl_workers = 0, tlsEnabledSet = False, tlsPortSet = False, cl_tlsPort = 0,
     certSet = False, cl_cert = [], keySet = False, cl_key = [], certDirSet = False, cl_certDir = [],
     certDaysSet = False, cl_certDays = 365, publicHostSet = False, cl_publicHost = []\<rparr>"

definition atoi :: "string \<Rightarrow> int" where
  "atoi s =
     (let s = dropWhile isspace s;
          digits = (\<lambda>s. int (undec (takeWhile is_digit s)))
      in case s of
           [] \<Rightarrow> 0
         | c # r \<Rightarrow> if c = CHR ''-'' then - digits r else if c = CHR ''+'' then digits r else digits s)"

text \<open>The variables \<open>parseArgs\<close> fills, and why it may return false.\<close>

record server_args =
  sa_cli :: server_cli
  sa_configPath :: string
  sa_logFile :: string
  sa_positional :: "string list"

datatype args_error = UsageAsked | UnknownOption string | UnpairedCert

definition server_args_init :: server_args where
  "server_args_init = \<lparr>sa_cli = server_cli_init, sa_configPath = [], sa_logFile = [], sa_positional = []\<rparr>"

definition sa_set :: "(server_cli \<Rightarrow> server_cli) \<Rightarrow> server_args \<Rightarrow> server_args" where
  "sa_set f a = a\<lparr>sa_cli := f (sa_cli a)\<rparr>"

text \<open>The options that take the next argument as their value.\<close>

definition value_option :: "string \<Rightarrow> string \<Rightarrow> server_args \<Rightarrow> server_args option" where
  "value_option arg v a =
     (if arg = ''--config'' then Some (a\<lparr>sa_configPath := v\<rparr>)
      else if arg = ''--tls-port'' then
        Some (sa_set (\<lambda>c. c\<lparr>tlsEnabledSet := True, tlsPortSet := True, cl_tlsPort := word_of_int (atoi v)\<rparr>) a)
      else if arg = ''--cert'' then Some (sa_set (\<lambda>c. c\<lparr>certSet := True, cl_cert := v\<rparr>) a)
      else if arg = ''--key'' then Some (sa_set (\<lambda>c. c\<lparr>keySet := True, cl_key := v\<rparr>) a)
      else if arg = ''--cert-dir'' then Some (sa_set (\<lambda>c. c\<lparr>certDirSet := True, cl_certDir := v\<rparr>) a)
      else if arg = ''--cert-days'' then Some (sa_set (\<lambda>c. c\<lparr>certDaysSet := True, cl_certDays := max 1 (atoi v)\<rparr>) a)
      else if arg = ''--public-host'' then Some (sa_set (\<lambda>c. c\<lparr>publicHostSet := True, cl_publicHost := v\<rparr>) a)
      else if arg = ''--log-file'' then Some (a\<lparr>sa_logFile := v\<rparr>)
      else None)"

definition other_argument :: "string \<Rightarrow> server_args \<Rightarrow> args_error + server_args" where
  "other_argument arg a =
     (if arg = ''-h'' \<or> arg = ''--help'' then Inl UsageAsked
      else if take 2 arg = ''--'' then Inl (UnknownOption arg)
      else Inr (a\<lparr>sa_positional := sa_positional a @ [arg]\<rparr>))"

fun parse_loop :: "string list \<Rightarrow> server_args \<Rightarrow> args_error + server_args" where
  "parse_loop [] a = Inr a"
| "parse_loop [arg] a = other_argument arg a"
| "parse_loop (arg # v # rest) a =
     (case value_option arg v a of
        Some a' \<Rightarrow> parse_loop rest a'
      | None \<Rightarrow>
          (case other_argument arg a of
             Inl e \<Rightarrow> Inl e
           | Inr a' \<Rightarrow> parse_loop (v # rest) a'))"

definition set_positional :: "server_args \<Rightarrow> server_args" where
  "set_positional a =
     (let ps = sa_positional a;
          a = (if ps \<noteq> [] then sa_set (\<lambda>c. c\<lparr>portSet := True, cl_port := word_of_int (atoi (ps ! 0))\<rparr>) a else a);
          a = (if length ps > 1 then sa_set (\<lambda>c. c\<lparr>logLevelSet := True, cl_logLevel := ps ! 1\<rparr>) a else a)
      in if length ps > 2
         then sa_set (\<lambda>c. c\<lparr>workersSet := True, cl_workers := max 1 (word_of_int (atoi (ps ! 2)))\<rparr>) a else a)"

text \<open>\<open>parseArgs\<close> of the arguments behind the program's name.\<close>

definition parseArgs :: "string list \<Rightarrow> args_error + server_args" where
  "parseArgs args =
     (case parse_loop args server_args_init of
        Inl e \<Rightarrow> Inl e
      | Inr a \<Rightarrow>
          (let a = set_positional a in
           if certSet (sa_cli a) \<noteq> keySet (sa_cli a) then Inl UnpairedCert else Inr a))"

definition applyCliOverrides :: "server_cli \<Rightarrow> server_config \<Rightarrow> server_config" where
  "applyCliOverrides cli cfg =
     (let tls = (\<lambda>f cfg. cfg\<lparr>sc_tls := f (sc_tls cfg)\<rparr>);
          cfg = (if portSet cli then cfg\<lparr>sc_port := ucast (cl_port cli)\<rparr> else cfg);
          cfg = (if logLevelSet cli then cfg\<lparr>sc_logLevel := cl_logLevel cli\<rparr> else cfg);
          cfg = (if workersSet cli then cfg\<lparr>sc_workers := sint (cl_workers cli)\<rparr> else cfg);
          cfg = (if tlsEnabledSet cli then
                   (let cfg = tls (\<lambda>t. t\<lparr>tc_enabled := True\<rparr>) cfg in
                    if tlsPortSet cli then tls (\<lambda>t. t\<lparr>tc_port := ucast (cl_tlsPort cli)\<rparr>) cfg else cfg)
                 else cfg);
          cfg = (if certSet cli then tls (\<lambda>t. t\<lparr>certFile := cl_cert cli\<rparr>) cfg else cfg);
          cfg = (if keySet cli then tls (\<lambda>t. t\<lparr>keyFile := cl_key cli\<rparr>) cfg else cfg);
          cfg = (if certDirSet cli then tls (\<lambda>t. t\<lparr>certDir := cl_certDir cli\<rparr>) cfg else cfg);
          cfg = (if certDaysSet cli then tls (\<lambda>t. t\<lparr>certDays := cl_certDays cli\<rparr>) cfg else cfg)
      in if publicHostSet cli then cfg\<lparr>sc_host := cl_publicHost cli\<rparr> else cfg)"

section \<open>Users\<close>

text \<open>\<open>std::getline\<close> on commas: the last token only when it is not empty.\<close>

fun comma_tokens :: "string \<Rightarrow> string list" where
  "comma_tokens s =
     (if s = [] then []
      else (let token = takeWhile (\<lambda>c. c \<noteq> CHR '','') s
            in token # comma_tokens (drop (length token + 1) s)))"

declare comma_tokens.simps [simp del]

definition appendEnvUsers :: "string option \<Rightarrow> server_config \<Rightarrow> server_config" where
  "appendEnvUsers usersEnv cfg =
     (case usersEnv of
        None \<Rightarrow> cfg
      | Some s \<Rightarrow>
          (if s = [] then cfg
           else cfg\<lparr>sc_users := sc_users cfg @
             map (\<lambda>token. \<lparr>uc_uuid = token, uc_name = ''env''\<rparr>)
               (filter (\<lambda>token. token \<noteq> []) (map (trim isspace) (comma_tokens s)))\<rparr>))"

definition ensureDefaultUser ::
    "(fs \<Rightarrow> string \<Rightarrow> bool) \<Rightarrow> (fs \<Rightarrow> string \<Rightarrow> bool) \<Rightarrow> string \<Rightarrow> string \<Rightarrow> server_config \<Rightarrow> fs \<Rightarrow>
     server_config \<times> fs" where
  "ensureDefaultUser writable flushed newUuid configPath cfg fs =
     (if sc_users cfg \<noteq> [] then (cfg, fs)
      else
        (let cfg = cfg\<lparr>sc_users := sc_users cfg @ [\<lparr>uc_uuid = newUuid, uc_name = ''default''\<rparr>]\<rparr>
         in (cfg, snd (snd (writeServerConfig writable flushed configPath cfg fs)))))"

section \<open>The banner\<close>

definition user_line :: "nat \<Rightarrow> user_config \<Rightarrow> string" where
  "user_line i u =
     ''  user['' @ dec_nat i @ '']: '' @ uc_uuid u @ (if uc_name u = [] then [] else '' ('' @ uc_name u @ '')'') @
     (if fst (parseUuid (uc_uuid u) (replicate 16 0)) then [] else '' [INVALID]'') @ nl"

text \<open>The UTF-8 texts of the source.\<close>

definition share_caption :: string where
  "share_caption =
     ''] ('' @ [CHR 0xE5, CHR 0xAE, CHR 0xA2, CHR 0xE6, CHR 0x88, CHR 0xB7, CHR 0xE7, CHR 0xAB, CHR 0xAF,
       CHR 0xE6, CHR 0x89, CHR 0xAB, CHR 0xE7, CHR 0xA0, CHR 0x81] @ ''/'' @ [CHR 0xE7, CHR 0xB2, CHR 0x98,
       CHR 0xE8, CHR 0xB4, CHR 0xB4, CHR 0xE5, CHR 0xAF, CHR 0xBC, CHR 0xE5, CHR 0x85, CHR 0xA5] @ ''):''"

definition host_hint :: string where
  "host_hint =
     ''Hint: '' @ [CHR 0xE9, CHR 0x85, CHR 0x8D, CHR 0xE7, CHR 0xBD, CHR 0xAE] @ '' host'' @ [CHR 0xEF,
     CHR 0xBC, CHR 0x88, CHR 0xE9, CHR 0x85, CHR 0x8D, CHR 0xE7, CHR 0xBD, CHR 0xAE, CHR 0xE6, CHR 0x96,
     CHR 0x87, CHR 0xE4, CHR 0xBB, CHR 0xB6] @ '' host '' @ [CHR 0xE5, CHR 0xAD, CHR 0x97, CHR 0xE6, CHR 0xAE, CHR 0xB5, CHR 0xEF, CHR 0xBC, CHR 0x89, CHR 0xE6, CHR 0x88, CHR 0x96] @ '' --public-host <'' @
     [CHR 0xE5, CHR 0x9F, CHR 0x9F, CHR 0xE5, CHR 0x90, CHR 0x8D] @ ''/IP> '' @ [CHR 0xE5, CHR 0x8F, CHR 0xAF, CHR 0xE8, CHR 0xBE, CHR 0x93, CHR 0xE5, CHR 0x87, CHR 0xBA] @ '' vless:// '' @ [CHR 0xE5, CHR 0x88, CHR 0x86, CHR 0xE4, CHR 0xBA, CHR 0xAB, CHR 0xE9, CHR 0x93, CHR 0xBE, CHR 0xE6, CHR 0x8E, CHR 0xA5, CHR 0xE4, CHR 0xB8, CHR 0x8E, CHR 0xE4, CHR 0xBA, CHR 0x8C, CHR 0xE7, CHR 0xBB, CHR 0xB4, CHR 0xE7, CHR 0xA0, CHR 0x81]"

text \<open>The part of the banner for one user's link; \<open>None\<close> when the QR code generator throws.\<close>

definition share_text ::
    "pton \<Rightarrow> pton \<Rightarrow> (string \<Rightarrow> qr option) \<Rightarrow> server_config \<Rightarrow> nat \<Rightarrow> user_config \<Rightarrow> string option" where
  "share_text pton4 pton6 encodeText cfg i u =
     (let link = buildVlessLink pton4 pton6 (sc_host cfg) cfg u (sc_remark cfg) in
      if link = [] then Some []
      else case renderQrText encodeText link 2 of
        None \<Rightarrow> None
      | Some qr \<Rightarrow> Some (nl @ ''Share link['' @ dec_nat i @ share_caption @ nl @ ''  '' @ link @ nl @ qr))"

fun share_texts ::
    "pton \<Rightarrow> pton \<Rightarrow> (string \<Rightarrow> qr option) \<Rightarrow> server_config \<Rightarrow> nat \<Rightarrow> user_config list \<Rightarrow> string option" where
  "share_texts pton4 pton6 encodeText cfg i [] = Some []"
| "share_texts pton4 pton6 encodeText cfg i (u # us) =
     (case share_text pton4 pton6 encodeText cfg i u of
        None \<Rightarrow> None
      | Some s \<Rightarrow> map_option (\<lambda>r. s @ r) (share_texts pton4 pton6 encodeText cfg (i + 1) us))"

definition printBanner ::
    "pton \<Rightarrow> pton \<Rightarrow> (string \<Rightarrow> qr option) \<Rightarrow> server_config \<Rightarrow> string \<Rightarrow> bool \<Rightarrow> nat \<Rightarrow> tls_setup \<Rightarrow> string \<Rightarrow>
     string option" where
  "printBanner pton4 pton6 encodeText cfg configPath cfgCreated workerCount tls tlsWarn =
     (let head =
            ''=== VLESS Server ==='' @ nl @
            ''Config: '' @ configPath @ (if cfgCreated then '' (generated on first run)'' else []) @ nl @
            ''Port: '' @ dec_int (uint (sc_port cfg)) @ nl @
            (if ts_enabled tls then
               ''TLS Port: '' @ dec_int (uint (tc_port (sc_tls cfg))) @ nl @
               ''TLS Cert: '' @ (if ts_certFile tls = [] then ''self-signed (fallback)'' else ts_certFile tls) @ nl @
               (if tlsWarn \<noteq> [] then ''TLS Warn: '' @ tlsWarn @ nl else [])
             else ''TLS: disabled'' @ nl) @
            ''LogLevel: '' @ sc_logLevel cfg @ nl @
            (if ts_enabled tls then
               ''Workers: '' @ dec_nat workerCount @ '' per port group ('' @
               dec_int (uint (of_nat workerCount * 2 :: 32 word)) @ '' threads total: plaintext + TLS)'' @ nl
             else ''Workers: '' @ dec_nat workerCount @ nl) @
            ''Users: '' @ dec_nat (length (sc_users cfg)) @ nl @
            concat (map (\<lambda>(i, u). user_line i u) (enumerate 0 (sc_users cfg)));
          share = (if sc_host cfg \<noteq> [] then share_texts pton4 pton6 encodeText cfg 0 (sc_users cfg)
                   else Some (nl @ host_hint @ nl));
          foot =
            ''Protocol: VLESS'' @ (if ts_enabled tls then '' + TLS (built-in)'' else '' (plaintext, no TLS)'') @ nl @
            ''Press Ctrl+C to stop'' @ nl @ nl
      in map_option (\<lambda>s. head @ s @ foot) share)"

section \<open>main\<close>

text \<open>What \<open>main\<close> gets from the system, from OpenSSL and from the vendored QR code generator.\<close>

record main_env =
  me_getenv :: "string \<Rightarrow> string option"
  me_strtod :: "string \<Rightarrow> int"
  me_writable :: "fs \<Rightarrow> string \<Rightarrow> bool"
  me_flushed :: "fs \<Rightarrow> string \<Rightarrow> bool"
  me_uuid1 :: string
  me_uuid2 :: string
  me_ssl :: ssl_world
  me_pton4 :: pton
  me_pton6 :: pton
  me_echo :: echo_env
  me_encodeText :: "string \<Rightarrow> qr option"
  me_hardware :: nat
  me_open :: "string \<Rightarrow> int"

datatype main_error = BadArgs args_error | BadConfig string | UnpairedFiles | NoTlsContext | BannerThrows

text \<open>What the program runs with once it has started: the loops by their use of TLS and their port.\<close>

record server_start =
  st_cfg :: server_config
  st_configPath :: string
  st_validator :: validator
  st_logger :: logger
  st_tls :: "ssl_ctx option"
  st_workers :: nat
  st_loops :: "(bool \<times> 16 word) list"
  st_reusePort :: bool
  st_banner :: string

definition non_empty :: "string option \<Rightarrow> string option" where
  "non_empty v = (case v of None \<Rightarrow> None | Some s \<Rightarrow> if s = [] then None else Some s)"

definition or_env :: "string \<Rightarrow> string option \<Rightarrow> string" where
  "or_env s v = (if s = [] then (case non_empty v of None \<Rightarrow> s | Some e \<Rightarrow> e) else s)"

definition config_path :: "string \<Rightarrow> string option \<Rightarrow> string \<Rightarrow> string" where
  "config_path given env fallback = (let p = or_env given env in if p = [] then fallback else p)"

definition server_tls_setup :: "tls_config \<Rightarrow> tls_setup" where
  "server_tls_setup t = \<lparr>ts_enabled = tc_enabled t, ts_certFile = certFile t, ts_keyFile = keyFile t,
     ts_certDir = certDir t, ts_certDays = certDays t, ts_certSha256 = []\<rparr>"

definition detect_host :: "main_env \<Rightarrow> server_config \<Rightarrow> server_config" where
  "detect_host E cfg =
     (if sc_host cfg \<noteq> [] then cfg
      else
        (let noAuto = me_getenv E ''VLESS_NO_AUTO_HOST'' in
         if noAuto \<noteq> None \<and> noAuto \<noteq> Some ''0'' then cfg
         else
           (let ip = fst (detectPublicIp (me_pton4 E) (me_pton6 E) (me_echo E) 3000)
            in if ip \<noteq> [] then cfg\<lparr>sc_host := ip\<rparr> else cfg)))"

definition worker_count :: "int \<Rightarrow> nat \<Rightarrow> nat" where
  "worker_count workers hardware =
     (let n = (if workers > 0 then nat workers else hardware) in if n = 0 then 1 else n)"

fun assemble_loops :: "nat \<Rightarrow> bool \<Rightarrow> 16 word \<Rightarrow> 16 word \<Rightarrow> (bool \<times> 16 word) list" where
  "assemble_loops 0 tls port tlsPort = []"
| "assemble_loops (Suc n) tls port tlsPort =
     (False, port) # (if tls then [(True, tlsPort)] else []) @ assemble_loops n tls port tlsPort"

text \<open>Steps 4 to 9 of \<open>main\<close>, from the configuration with its users.\<close>

definition start_server ::
    "main_env \<Rightarrow> server_args \<Rightarrow> string \<Rightarrow> bool \<Rightarrow> server_config \<Rightarrow> fs \<Rightarrow> (main_error + server_start) \<times> fs" where
  "start_server E a configPath cfgCreated cfg fs =
     (let v = fst (register_users (map uc_uuid (sc_users cfg)) validator_init);
          logFile = or_env (sa_logFile a) (me_getenv E ''VLESS_LOG_FILE'');
          lg = setLevel (parseLogLevel (sc_logLevel cfg)) (setLogFile logFile (me_open E logFile) logger_init);
          tls = server_tls_setup (sc_tls cfg);
          r = (if ts_enabled tls then createServerSslContext (me_ssl E) tls [] fs
               else \<lparr>tr_ctx = None, tr_cfg = tls, tr_warn = [], tr_fs = fs, tr_events = []\<rparr>)
      in if ts_enabled tls \<and> tr_ctx r = None then (Inl NoTlsContext, tr_fs r)
         else
           (let cfg = (if ts_enabled tls
                       then cfg\<lparr>sc_tls := (sc_tls cfg)\<lparr>certSha256 := ts_certSha256 (tr_cfg r)\<rparr>\<rparr> else cfg);
                cfg = detect_host E cfg;
                n = worker_count (sc_workers cfg) (me_hardware E)
            in case printBanner (me_pton4 E) (me_pton6 E) (me_encodeText E) cfg configPath cfgCreated n (tr_cfg r) (tr_warn r) of
                 None \<Rightarrow> (Inl BannerThrows, tr_fs r)
               | Some banner \<Rightarrow>
                   (Inr \<lparr>st_cfg = cfg, st_configPath = configPath, st_validator = v, st_logger = lg, st_tls = tr_ctx r, st_workers = n,
                      st_loops = assemble_loops n (ts_enabled tls) (sc_port cfg) (tc_port (sc_tls cfg)),
                      st_reusePort = n > 1, st_banner = banner\<rparr>, tr_fs r)))"

definition server_main :: "main_env \<Rightarrow> string list \<Rightarrow> fs \<Rightarrow> (main_error + server_start) \<times> fs" where
  "server_main E args fs =
     (case parseArgs args of
        Inl e \<Rightarrow> (Inl (BadArgs e), fs)
      | Inr a \<Rightarrow>
          (let configPath = config_path (sa_configPath a) (me_getenv E ''VLESS_CONFIG'') ''/etc/vless/config.json'' in
           case loadServerConfig (me_strtod E) (me_writable E) (me_flushed E) (me_uuid1 E) configPath server_config_init fs of
             ((ok, cfg, created, err), fs) \<Rightarrow>
               (if \<not> ok then (Inl (BadConfig err), fs)
                else
                  (let cfg = applyCliOverrides (sa_cli a) cfg in
                   if (certFile (sc_tls cfg) = []) \<noteq> (keyFile (sc_tls cfg) = []) then (Inl UnpairedFiles, fs)
                   else
                     (case ensureDefaultUser (me_writable E) (me_flushed E) (me_uuid2 E) configPath
                        (appendEnvUsers (me_getenv E ''VLESS_USERS'') cfg) fs of
                        (cfg, fs) \<Rightarrow> start_server E a configPath created cfg fs)))))"

text \<open>The exit code once every loop has ended.\<close>

definition server_exit :: "'c runner \<Rightarrow> int" where
  "server_exit r = (if fst (runner_result r) \<noteq> 0 then 1 else 0)"

end
