(* ===== verification/Vless_Client.thy ===== *)
theory Vless_Client
  imports Socks5 Sys_Interface Json
begin

text \<open>
  The VLESS client (include/client/vless_client.h, src/client/vless_client.cpp): its configuration,
  the translation of SOCKS5 requests, and the handshake with the remote server.

  \<open>client_env\<close> holds the services of the system the client uses. A client configuration with TLS
  carries the TLS handshake and stream over a descriptor as a parameter; \<open>tlsCtx = None\<close> is the null
  pointer.
\<close>

section \<open>Configuration\<close>

record client_env =
  ce_getaddrinfo :: "string \<Rightarrow> string \<Rightarrow> sockaddr list option"
  ce_socket :: "sockaddr \<Rightarrow> int"
  ce_connect :: "int \<Rightarrow> sockaddr \<Rightarrow> (net, int) co"
  ce_udp_socket :: int
  ce_udp_bind :: "int \<Rightarrow> int"
  ce_udp_port :: "int \<Rightarrow> 16 word"
  ce_eventfd :: int
  ce_pton4 :: "string \<Rightarrow> bytes option"
  ce_pton6 :: "string \<Rightarrow> bytes option"
  ce_ntop6 :: "bytes \<Rightarrow> string option"

type_synonym tls_factory = "int \<Rightarrow> (net, bool) co \<times> net stream_ops"

record vless_client_config =
  remoteHost :: string
  remotePort :: "16 word"
  cc_uuid :: bytes
  tlsEnabled :: bool
  tlsInsecure :: bool
  tlsCtx :: "tls_factory option"

definition vless_client_config_init :: vless_client_config where
  "vless_client_config_init = \<lparr>remoteHost = [], remotePort = 443, cc_uuid = replicate 16 0,
     tlsEnabled = False, tlsInsecure = False, tlsCtx = None\<rparr>"

text \<open>\<open>std::stoi\<close>: leading white space, a sign, digits; what follows them is ignored. \<open>None\<close> is its exception.\<close>

definition stoi :: "string \<Rightarrow> int option" where
  "stoi s =
     (let t = dropWhile isspace s;
          (neg, t) = (if t \<noteq> [] \<and> hd t = CHR ''-'' then (True, tl t)
                      else if t \<noteq> [] \<and> hd t = CHR ''+'' then (False, tl t) else (False, t));
          ds = takeWhile is_digit t;
          v = (if neg then - int (undec ds) else int (undec ds))
      in if ds = [] then None
         else if v < - (2 ^ 31) \<or> v \<ge> 2 ^ 31 then None else Some v)"

definition fromString :: "string \<Rightarrow> vless_client_config" where
  "fromString s =
     (if CHR '':'' \<notin> set s then vless_client_config_init\<lparr>remoteHost := s\<rparr>
      else
        (let port = rev (takeWhile (\<lambda>c. c \<noteq> CHR '':'') (rev s));
             host = take (length s - length port - 1) s
         in case stoi port of
              None \<Rightarrow> vless_client_config_init\<lparr>remoteHost := host\<rparr>
            | Some v \<Rightarrow> vless_client_config_init\<lparr>remoteHost := host, remotePort := word_of_int v\<rparr>))"

definition toVlessRequest :: "socks_request \<Rightarrow> command \<Rightarrow> request" where
  "toVlessRequest req cmd =
     request_init\<lparr>req_command := cmd, req_port := sr_port req, req_address := sr_address req\<rparr>"

section \<open>Connecting and the handshake\<close>

definition resolveRemote :: "client_env \<Rightarrow> string \<Rightarrow> 16 word \<Rightarrow> sockaddr option" where
  "resolveRemote E host port =
     (case ce_getaddrinfo E (c_str host) (dec_nat (unat port)) of
        None \<Rightarrow> None
      | Some [] \<Rightarrow> None
      | Some (addr # _) \<Rightarrow> Some addr)"

record handshake_result =
  hr_remoteFd :: int
  hr_stream :: "net stream_ops option"
  hr_raw :: "net stream_ops option"
  hr_remaining :: bytes

definition handshake_failed :: handshake_result where
  "handshake_failed = \<lparr>hr_remoteFd = -1, hr_stream = None, hr_raw = None, hr_remaining = []\<rparr>"

text \<open>Step 3: the plain stream, or the TLS stream after its handshake; \<open>None\<close> when that fails.\<close>

definition open_stream :: "vless_client_config \<Rightarrow> int \<Rightarrow> (net, net stream_ops option) co" where
  "open_stream cfg fd =
     (if \<not> tlsEnabled cfg then co_return (Some (async_stream fd))
      else case tlsCtx cfg of
        None \<Rightarrow> co_return None
      | Some tls \<Rightarrow> co_bind (fst (tls fd)) (\<lambda>ok. co_return (if ok then Some (snd (tls fd)) else None)))"

text \<open>Steps 5 and 6: the response, and what the buffer holds beyond it; \<open>None\<close> when it is invalid.\<close>

definition read_response :: "net stream_ops \<Rightarrow> (net, bytes option) co" where
  "read_response ops = buffered
     (co_bind (decodeResponse (ubs_read (st_read ops))) (\<lambda>ok.
        if \<not> ok then co_return None
        else co_bind ubs_drainRemaining (\<lambda>remaining. co_return (Some remaining))))"

definition vlessConnectAndHandshake ::
    "client_env \<Rightarrow> vless_client_config \<Rightarrow> request \<Rightarrow> (sys, handshake_result) co" where
  "vlessConnectAndHandshake E cfg vlessReq =
     (case resolveRemote E (remoteHost cfg) (remotePort cfg) of
        None \<Rightarrow> co_return handshake_failed
      | Some addr \<Rightarrow>
          (let fd = ce_socket E addr;
               abandon = co_bind (co_modify (sys_call [CloseFd fd])) (\<lambda>_. co_return handshake_failed)
           in if fd < 0 then co_return handshake_failed
              else co_bind (on_sys_net (ce_connect E fd addr)) (\<lambda>connectResult.
                if connectResult < 0 then abandon
                else co_bind (on_sys_net (open_stream cfg fd)) (\<lambda>stream.
                  case stream of
                    None \<Rightarrow> abandon
                  | Some ops \<Rightarrow>
                      co_bind (lift_exn (encodeRequest (vlessReq\<lparr>req_uuid := cc_uuid cfg\<rparr>))) (\<lambda>requestBytes.
                        co_bind (on_sys_net (st_writeFull ops requestBytes)) (\<lambda>sent.
                          if sent \<le> 0 then abandon
                          else co_bind (on_sys_net (read_response ops)) (\<lambda>response.
                            case response of
                              None \<Rightarrow> abandon
                            | Some remaining \<Rightarrow>
                                co_return \<lparr>hr_remoteFd = fd, hr_stream = Some ops,
                                  hr_raw = Some (async_stream fd), hr_remaining = remaining\<rparr>)))))))"

end
