(* ===== verification/Client_Main.thy ===== *)
theory Client_Main
  imports Server_Main Vless_Client
begin

text \<open>
  The client program (src/client/client_main.cpp): its command line, how it overrides the
  configuration file, and \<open>main\<close> up to the event loops. An option whose value is missing at the end of
  the line takes the empty string.
\<close>

section \<open>Command line\<close>

record client_cli =
  socks5PortSet :: bool
  cm_socks5Port :: "32 word"
  remoteSet :: bool
  cm_remote :: string
  uuidSet :: bool
  cm_uuid :: string
  cm_logLevelSet :: bool
  cm_logLevel :: string
  cm_workersSet :: bool
  cm_workers :: "32 word"
  cm_tlsEnabled :: bool
  cm_tlsEnabledSet :: bool
  cm_tlsInsecure :: bool
  cm_tlsInsecureSet :: bool

definition client_cli_init :: client_cli where
  "client_cli_init = \<lparr>socks5PortSet = False, cm_socks5Port = 1080, remoteSet = False, cm_remote = [],
     uuidSet = False, cm_uuid = [], cm_logLevelSet = False, cm_logLevel = [], cm_workersSet = False, cm_workers = 0,
     cm_tlsEnabled = False, cm_tlsEnabledSet = False, cm_tlsInsecure = False, cm_tlsInsecureSet = False\<rparr>"

record client_args =
  ca_cli :: client_cli
  ca_configPath :: string
  ca_logFile :: string

definition client_args_init :: client_args where
  "client_args_init = \<lparr>ca_cli = client_cli_init, ca_configPath = [], ca_logFile = []\<rparr>"

definition ca_set :: "(client_cli \<Rightarrow> client_cli) \<Rightarrow> client_args \<Rightarrow> client_args" where
  "ca_set f a = a\<lparr>ca_cli := f (ca_cli a)\<rparr>"

text \<open>The options with a value, given what \<open>next\<close> returns for them, and the flags.\<close>

definition client_option :: "string \<Rightarrow> string \<Rightarrow> client_args \<Rightarrow> client_args option" where
  "client_option arg v a =
     (if arg = ''--config'' then Some (a\<lparr>ca_configPath := v\<rparr>)
      else if arg = ''--socks5-port'' then
        Some (ca_set (\<lambda>c. c\<lparr>socks5PortSet := True, cm_socks5Port := word_of_int (atoi v)\<rparr>) a)
      else if arg = ''--remote'' then Some (ca_set (\<lambda>c. c\<lparr>remoteSet := True, cm_remote := v\<rparr>) a)
      else if arg = ''--uuid'' then Some (ca_set (\<lambda>c. c\<lparr>uuidSet := True, cm_uuid := v\<rparr>) a)
      else if arg = ''--log'' then Some (ca_set (\<lambda>c. c\<lparr>cm_logLevelSet := True, cm_logLevel := v\<rparr>) a)
      else if arg = ''--log-file'' then Some (a\<lparr>ca_logFile := v\<rparr>)
      else if arg = ''--workers'' then
        Some (ca_set (\<lambda>c. c\<lparr>cm_workersSet := True, cm_workers := max 1 (word_of_int (atoi v))\<rparr>) a)
      else None)"

definition client_flag :: "string \<Rightarrow> client_args \<Rightarrow> args_error + client_args" where
  "client_flag arg a =
     (if arg = ''--tls'' then Inr (ca_set (\<lambda>c. c\<lparr>cm_tlsEnabled := True, cm_tlsEnabledSet := True\<rparr>) a)
      else if arg = ''--tls-insecure'' then Inr (ca_set (\<lambda>c. c\<lparr>cm_tlsInsecure := True, cm_tlsInsecureSet := True\<rparr>) a)
      else if arg = ''-h'' \<or> arg = ''--help'' then Inl UsageAsked
      else Inl (UnknownOption arg))"

fun client_parse_loop :: "string list \<Rightarrow> client_args \<Rightarrow> args_error + client_args" where
  "client_parse_loop [] a = Inr a"
| "client_parse_loop [arg] a =
     (case client_option arg [] a of Some a' \<Rightarrow> Inr a' | None \<Rightarrow> client_flag arg a)"
| "client_parse_loop (arg # v # rest) a =
     (case client_option arg v a of
        Some a' \<Rightarrow> client_parse_loop rest a'
      | None \<Rightarrow>
          (case client_flag arg a of
             Inl e \<Rightarrow> Inl e
           | Inr a' \<Rightarrow> client_parse_loop (v # rest) a'))"

definition client_parseArgs :: "string list \<Rightarrow> args_error + client_args" where
  "client_parseArgs args = client_parse_loop args client_args_init"

definition client_applyCliOverrides :: "client_cli \<Rightarrow> client_config \<Rightarrow> client_config" where
  "client_applyCliOverrides cli cfg =
     (let cfg = (if socks5PortSet cli then cfg\<lparr>socks5Port := ucast (cm_socks5Port cli)\<rparr> else cfg);
          cfg = (if remoteSet cli then cfg\<lparr>client_config.cc_remote := cm_remote cli\<rparr> else cfg);
          cfg = (if uuidSet cli then cfg\<lparr>client_config.cc_uuid := cm_uuid cli\<rparr> else cfg);
          cfg = (if cm_logLevelSet cli then cfg\<lparr>cc_logLevel := cm_logLevel cli\<rparr> else cfg);
          cfg = (if cm_workersSet cli then cfg\<lparr>cc_workers := sint (cm_workers cli)\<rparr> else cfg);
          cfg = (if cm_tlsEnabledSet cli then cfg\<lparr>client_config.tlsEnabled := cm_tlsEnabled cli\<rparr> else cfg)
      in if cm_tlsInsecureSet cli then cfg\<lparr>client_config.tlsInsecure := cm_tlsInsecure cli\<rparr> else cfg)"

section \<open>main\<close>

record client_main_env =
  cme_getenv :: "string \<Rightarrow> string option"
  cme_strtod :: "string \<Rightarrow> int"
  cme_ctx_new :: bool
  cme_tls :: "ssl_ctx \<Rightarrow> tls_factory"
  cme_hardware :: nat
  cme_open :: "string \<Rightarrow> int"

datatype client_main_error = ClientBadArgs args_error | InvalidUuid string | NoClientContext

record client_start =
  cs_file :: client_config
  cs_cfg :: vless_client_config
  cs_ctx :: "ssl_ctx option"
  cs_logger :: logger
  cs_workers :: nat
  cs_loops :: "16 word list"
  cs_reusePort :: bool
  cs_banner :: string

definition default_uuid :: string where
  "default_uuid = ''e3e740b0-2c3a-4b0e-9f1a-2c8f7d5e3a1b''"

definition client_banner :: "string \<Rightarrow> string \<Rightarrow> client_config \<Rightarrow> vless_client_config \<Rightarrow> nat \<Rightarrow> string" where
  "client_banner configPath cfgWarn ccfg cfg workerCount =
     ''=== VLESS Client (SOCKS5) ==='' @ nl @
     ''Config: '' @ configPath @ (if cfgWarn = [] then [] else '' (using defaults)'') @ nl @
     ''Socks5 Listen: 127.0.0.1:'' @ dec_int (uint (socks5Port ccfg)) @ nl @
     ''Remote: '' @ remoteHost cfg @ '':'' @ dec_int (uint (remotePort cfg)) @ nl @
     ''Uuid: '' @ client_config.cc_uuid ccfg @ nl @
     ''LogLevel: '' @ cc_logLevel ccfg @ nl @
     ''Workers: '' @ dec_nat workerCount @ nl @
     ''Protocol: VLESS + '' @
     (if client_config.tlsEnabled ccfg
      then ''TLS (tls-insecure='' @ (if client_config.tlsInsecure ccfg then ''on'' else ''off'') @ '')''
      else ''plaintext (no TLS)'') @ nl @
     ''Press Ctrl+C to stop'' @ nl @ nl"

text \<open>Step 2 of \<open>main\<close>: the configuration in effect.\<close>

definition client_settings :: "client_main_env \<Rightarrow> client_args \<Rightarrow> fs \<Rightarrow> string \<times> client_config \<times> string" where
  "client_settings E a fs =
     (let configPath = config_path (ca_configPath a) (cme_getenv E ''VLESS_CLIENT_CONFIG'') ''/etc/vless/client.json''
      in case loadClientConfig (cme_strtod E) configPath client_config_init fs of (_, ccfg, cfgWarn) \<Rightarrow>
           (let ccfg = client_applyCliOverrides (ca_cli a) ccfg
            in (configPath,
                if client_config.cc_uuid ccfg = [] then ccfg\<lparr>client_config.cc_uuid := default_uuid\<rparr> else ccfg, cfgWarn)))"

text \<open>Step 4: what every connection of the client is given.\<close>

definition client_identity ::
    "client_main_env \<Rightarrow> client_config \<Rightarrow> client_main_error + ssl_ctx option \<times> vless_client_config" where
  "client_identity E ccfg =
     (case parseUuid (client_config.cc_uuid ccfg) (replicate 16 0) of (parsed, uuid) \<Rightarrow>
        if \<not> parsed then Inl (InvalidUuid (client_config.cc_uuid ccfg))
        else
          (let cfg = (fromString (client_config.cc_remote ccfg))\<lparr>vless_client_config.cc_uuid := uuid,
                 vless_client_config.tlsEnabled := client_config.tlsEnabled ccfg,
                 vless_client_config.tlsInsecure := client_config.tlsInsecure ccfg\<rparr>
           in if client_config.tlsEnabled ccfg then
                (case createClientSslContext (cme_ctx_new E) (client_config.tlsInsecure ccfg) of
                   None \<Rightarrow> Inl NoClientContext
                 | Some ctx \<Rightarrow> Inr (Some ctx, cfg\<lparr>tlsCtx := Some (cme_tls E ctx)\<rparr>))
              else Inr (None, cfg)))"

text \<open>Steps 3 to 5, up to the event loops.\<close>

definition start_client ::
    "client_main_env \<Rightarrow> client_args \<Rightarrow> string \<Rightarrow> client_config \<Rightarrow> string \<Rightarrow> client_main_error + client_start" where
  "start_client E a configPath ccfg cfgWarn =
     (let logFile = or_env (ca_logFile a) (cme_getenv E ''VLESS_LOG_FILE'');
          lg = setLevel (parseLogLevel (cc_logLevel ccfg)) (setLogFile logFile (cme_open E logFile) logger_init)
      in case client_identity E ccfg of
           Inl e \<Rightarrow> Inl e
         | Inr (ctx, cfg) \<Rightarrow>
             (let n = worker_count (cc_workers ccfg) (cme_hardware E)
              in Inr \<lparr>cs_file = ccfg, cs_cfg = cfg, cs_ctx = ctx, cs_logger = lg, cs_workers = n,
                   cs_loops = replicate n (socks5Port ccfg), cs_reusePort = n > 1,
                   cs_banner = client_banner configPath cfgWarn ccfg cfg n\<rparr>))"

definition client_main :: "client_main_env \<Rightarrow> string list \<Rightarrow> fs \<Rightarrow> client_main_error + client_start" where
  "client_main E args fs =
     (case client_parseArgs args of
        Inl e \<Rightarrow> Inl (ClientBadArgs e)
      | Inr a \<Rightarrow> (case client_settings E a fs of (configPath, ccfg, cfgWarn) \<Rightarrow> start_client E a configPath ccfg cfgWarn))"

end
