(* ===== verification/Tls_Context_Props.thy ===== *)
theory Tls_Context_Props
  imports Tls_Context
begin

text \<open>
  The choice of the server's certificate: a configured one or nothing, never a silent fallback; a
  stored self-signed one as long as it is valid long enough; and every OpenSSL object is released.
\<close>

section \<open>Objects\<close>

definition balance :: "ssl_object \<Rightarrow> ssl_event list \<Rightarrow> int" where
  "balance x evs = int (count_list evs (New x)) - int (count_list evs (Free x))"

lemma balance_simps [simp]:
  "balance x [] = 0" "balance x (evs @ evs') = balance x evs + balance x evs'"
  "balance x (New y # evs) = (if x = y then 1 else 0) + balance x evs"
  "balance x (Free y # evs) = (if x = y then -1 else 0) + balance x evs"
  by (simp_all add: balance_def)

lemma self_signed_balance: "balance x (snd (generateSelfSigned W days cn)) = 0"
  by (simp add: generateSelfSigned_def self_signed_body_def Let_def split: prod.split)

lemma finish_context_balance:
  "balance x (tr_events (finish_context W certPath keyPath pem cfg warn newWarn fs evs)) =
     balance x evs - (if x = Ctx \<and> tr_ctx (finish_context W certPath keyPath pem cfg warn newWarn fs evs) = None then 1 else 0)"
  by (simp add: finish_context_def no_context_def split: option.split)

lemma new_certificate_balance:
  "balance x (tr_events (new_certificate W c k cfg warn fs)) =
     (if x = Ctx \<and> tr_ctx (new_certificate W c k cfg warn fs) \<noteq> None then 1 else 0)"
proof -
  obtain pems evs where gen: "generateSelfSigned W (ts_certDays cfg) ''vless-self-signed'' = (pems, evs)"
    by (cases "generateSelfSigned W (ts_certDays cfg) ''vless-self-signed''")
  with self_signed_balance [of x W "ts_certDays cfg" "''vless-self-signed''"] have "balance x evs = 0"
    by simp
  then show ?thesis
    by (cases pems) (auto simp: new_certificate_def gen finish_context_balance no_context_def split: prod.split)
qed

lemma self_signed_context_balance:
  "balance x (tr_events (self_signed_context W cfg warn fs)) =
     (if x = Ctx \<and> tr_ctx (self_signed_context W cfg warn fs) \<noteq> None then 1 else 0)"
  by (simp add: self_signed_context_def finish_context_balance new_certificate_balance no_context_def Let_def
      split: prod.split option.split)

lemma configured_context_balance:
  "balance x (tr_events (configured_context W cfg warn fs)) =
     (if x = Ctx \<and> tr_ctx (configured_context W cfg warn fs) \<noteq> None then 1 else 0)"
  by (simp add: configured_context_def finish_context_balance no_context_def split: option.split)

text \<open>Creating the server's TLS context leaks nothing: on every path, whichever call of OpenSSL or of the
file system fails, each key, certificate and memory buffer allocated is freed, and the context itself
is freed unless it is returned.\<close>

theorem context_objects_freed:
  "balance x (tr_events (createServerSslContext W cfg warn fs)) =
     (if x = Ctx \<and> tr_ctx (createServerSslContext W cfg warn fs) \<noteq> None then 1 else 0)"
  by (simp add: createServerSslContext_def self_signed_context_balance configured_context_balance)

section \<open>Which certificate\<close>

text \<open>C36: With a certificate and a key configured there is no fallback: the server gets a context exactly when
both files can be read, load and match, it is the context of these two files, the fingerprint
published in the share links is that of this certificate, and no file is written.\<close>

theorem configured_certificate_only:
  assumes "ts_enabled cfg" and "ts_certFile cfg \<noteq> []" and "ts_keyFile cfg \<noteq> []"
  shows "tr_fs (createServerSslContext W cfg warn fs) = fs \<and>
    (\<forall>ctx. tr_ctx (createServerSslContext W cfg warn fs) = Some ctx \<longleftrightarrow>
       sw_ctx_new W \<and> (\<exists>cert key. readFile (ts_certFile cfg) fs = Some cert \<and> readFile (ts_keyFile cfg) fs = Some key \<and>
         sw_usable W cert key \<and> ctx = ServerCtx (Some (cert, key)))) \<and>
    (\<forall>cert key. tr_ctx (createServerSslContext W cfg warn fs) = Some (ServerCtx (Some (cert, key))) \<longrightarrow>
       ts_certSha256 (tr_cfg (createServerSslContext W cfg warn fs)) = certSha256Hex W cert)"
  using assms
  by (auto simp: createServerSslContext_def configured_context_def finish_context_def use_files_def no_context_def readFile_def
      split: option.splits if_splits)

definition sample_ssl :: ssl_world where
  "sample_ssl = \<lparr>sw_ctx_new = True, sw_calls = (\<lambda>_. True), sw_signed = (\<lambda>days cn. (''CERT'', ''KEY'')),
     sw_usable = (\<lambda>cert key. cert = ''CERT'' \<and> key = ''KEY''), sw_notAfter = (\<lambda>_. Some 31536000), sw_now = 0,
     sw_digest = (\<lambda>_. Some [0xAB, 0x01]), sw_mkdir = (\<lambda>_. True), sw_isDir = (\<lambda>_. False), sw_writable = (\<lambda>_. True)\<rparr>"

definition sample_setup :: tls_setup where
  "sample_setup = \<lparr>ts_enabled = True, ts_certFile = [], ts_keyFile = [], ts_certDir = ''d'', ts_certDays = 365,
     ts_certSha256 = []\<rparr>"

definition sample_ssl_fs :: fs where
  "sample_ssl_fs = \<lparr>fs_files = (\<lambda>p. if p = ''c'' then Some ''CERT'' else if p = ''k'' then Some ''KEY'' else None), fs_mkdirs = []\<rparr>"

lemma configured_certificate_only_witness:
  "tr_ctx (createServerSslContext sample_ssl (sample_setup\<lparr>ts_certFile := ''c'', ts_keyFile := ''k''\<rparr>) [] sample_ssl_fs) =
    Some (ServerCtx (Some (''CERT'', ''KEY'')))"
  using configured_certificate_only [of "sample_setup\<lparr>ts_certFile := ''c'', ts_keyFile := ''k''\<rparr>" sample_ssl "[]" sample_ssl_fs]
  by (simp add: sample_setup_def sample_ssl_def sample_ssl_fs_def readFile_def)

text \<open>The self-signed path, by what is stored.\<close>

definition cert_dir :: "tls_setup \<Rightarrow> string" where
  "cert_dir cfg = (if ts_certDir cfg = [] then ''./certs'' else ts_certDir cfg)"

definition self_signed :: "tls_setup \<Rightarrow> bool" where
  "self_signed cfg \<longleftrightarrow> ts_enabled cfg \<and> \<not> (ts_certFile cfg \<noteq> [] \<and> ts_keyFile cfg \<noteq> [])"

definition lasting :: "ssl_world \<Rightarrow> string \<Rightarrow> bool" where
  "lasting W cert \<longleftrightarrow> certRemainingSeconds W cert > 30 * 24 * 3600"

lemma stored_files: "stored_certificate W c k (fs\<lparr>fs_mkdirs := ds\<rparr>) = stored_certificate W c k fs"
  by (simp add: stored_certificate_def readFile_def)

lemma ensureDir_files: "fs_files (snd (ensureDir W dir fs)) = fs_files fs"
  by (simp add: ensureDir_def Let_def)

lemma stored_certificate_iff:
  "stored_certificate W c k fs = Some cert \<longleftrightarrow>
     fs_files fs c = Some cert \<and> cert \<noteq> [] \<and> (\<exists>key. fs_files fs k = Some key \<and> key \<noteq> []) \<and> lasting W cert"
  by (auto simp: stored_certificate_def readFile_def lasting_def kRenewThresholdDays_def Let_def
      split: option.splits if_splits)

lemma use_files_Some:
  "use_files W c k fs = Some (ServerCtx (Some (cert, key))) \<longleftrightarrow>
     fs_files fs c = Some cert \<and> fs_files fs k = Some key \<and> sw_usable W cert key"
  by (auto simp: use_files_def split: option.splits)

text \<open>A self-signed context stands on the files of the certificate directory, however it came about.\<close>

lemma create_self_signed:
  "self_signed cfg \<Longrightarrow> createServerSslContext W cfg warn fs =
    (if sw_ctx_new W then self_signed_context W cfg warn fs
     else \<lparr>tr_ctx = None, tr_cfg = cfg, tr_warn = warn, tr_fs = fs, tr_events = []\<rparr>)"
  by (auto simp: createServerSslContext_def self_signed_def)

lemma finish_context_files:
  assumes "tr_ctx (finish_context W c k pem cfg warn newWarn fs evs) = Some (ServerCtx (Some (cert, key)))"
  shows "tr_fs (finish_context W c k pem cfg warn newWarn fs evs) = fs \<and> fs_files fs c = Some cert \<and>
    fs_files fs k = Some key \<and> sw_usable W cert key \<and>
    ts_certSha256 (tr_cfg (finish_context W c k pem cfg warn newWarn fs evs)) = certSha256Hex W pem"
proof (cases "use_files W c k fs")
  case None
  with assms show ?thesis by (simp add: finish_context_def no_context_def)
next
  case (Some ctx)
  with assms have "ctx = ServerCtx (Some (cert, key))"
    by (simp add: finish_context_def)
  with Some have "fs_files fs c = Some cert \<and> fs_files fs k = Some key \<and> sw_usable W cert key"
    by (simp only: use_files_Some)
  with Some show ?thesis by (simp add: finish_context_def)
qed

lemma new_certificate_files:
  assumes "tr_ctx (new_certificate W c k cfg warn fs) = Some (ServerCtx (Some (cert, key)))"
  shows "fs_files (tr_fs (new_certificate W c k cfg warn fs)) c = Some cert \<and>
    fs_files (tr_fs (new_certificate W c k cfg warn fs)) k = Some key \<and> sw_usable W cert key"
proof (cases "generateSelfSigned W (ts_certDays cfg) ''vless-self-signed''")
  case (Pair pems evs)
  with assms obtain p q where "pems = Some (p, q)"
    by (cases pems) (auto simp: new_certificate_def no_context_def)
  with Pair assms show ?thesis
    by (auto simp: new_certificate_def dest!: finish_context_files)
qed

lemma self_signed_files:
  assumes "self_signed cfg" and "tr_ctx (createServerSslContext W cfg warn fs) = Some (ServerCtx (Some (cert, key)))"
  shows "fs_files (tr_fs (createServerSslContext W cfg warn fs)) (cert_dir cfg @ ''/cert.pem'') = Some cert \<and>
    fs_files (tr_fs (createServerSslContext W cfg warn fs)) (cert_dir cfg @ ''/key.pem'') = Some key \<and> sw_usable W cert key"
proof -
  let ?c = "cert_dir cfg @ ''/cert.pem''" and ?k = "cert_dir cfg @ ''/key.pem''"
  obtain made fs' where dir: "ensureDir W (cert_dir cfg) fs = (made, fs')"
    by (cases "ensureDir W (cert_dir cfg) fs")
  from assms have eq: "createServerSslContext W cfg warn fs = self_signed_context W cfg warn fs"
    by (simp add: create_self_signed split: if_splits)
  with assms(2) dir have "made"
    by (auto simp: self_signed_context_def cert_dir_def [symmetric] no_context_def Let_def split: if_splits)
  with assms(2) dir eq show ?thesis
    by (cases "stored_certificate W ?c ?k fs'")
      (auto simp: self_signed_context_def cert_dir_def [symmetric] Let_def
        dest: new_certificate_files finish_context_files)
qed

lemma reuse_stored:
  assumes "self_signed cfg" and "sw_ctx_new W" and "fst (ensureDir W (cert_dir cfg) fs)"
    and "fs_files fs (cert_dir cfg @ ''/cert.pem'') = Some cert" and "cert \<noteq> []"
    and "fs_files fs (cert_dir cfg @ ''/key.pem'') = Some key" and "key \<noteq> []"
    and "lasting W cert" and "sw_usable W cert key"
  shows "tr_ctx (createServerSslContext W cfg warn fs) = Some (ServerCtx (Some (cert, key))) \<and>
    ts_certSha256 (tr_cfg (createServerSslContext W cfg warn fs)) = certSha256Hex W cert \<and>
    fs_files (tr_fs (createServerSslContext W cfg warn fs)) = fs_files fs"
proof -
  obtain fs' where dir: "ensureDir W (cert_dir cfg) fs = (True, fs')"
    using assms(3) by (cases "ensureDir W (cert_dir cfg) fs") auto
  then have files: "fs_files fs' = fs_files fs"
    using ensureDir_files [of W "cert_dir cfg" fs] by simp
  have "stored_certificate W (cert_dir cfg @ ''/cert.pem'') (cert_dir cfg @ ''/key.pem'') fs' = Some cert"
    using assms files by (simp add: stored_certificate_iff)
  moreover have "use_files W (cert_dir cfg @ ''/cert.pem'') (cert_dir cfg @ ''/key.pem'') fs' = Some (ServerCtx (Some (cert, key)))"
    using assms files by (simp add: use_files_Some)
  ultimately show ?thesis
    using assms(1,2) dir files
    by (simp add: create_self_signed self_signed_context_def cert_dir_def [symmetric] finish_context_def Let_def)
qed

text \<open>A self-signed certificate survives restarts: when one start has given the server a self-signed context,
then a later start on the files it left, at which more than 30 days of validity remain, uses the same
certificate and key, publishes the same fingerprint, so that links handed out before stay valid, and
changes no file.\<close>

theorem self_signed_reused:
  assumes "self_signed cfg" and "tr_ctx (createServerSslContext W cfg warn fs) = Some (ServerCtx (Some (cert, key)))"
    and "cert \<noteq> []" and "key \<noteq> []" and "fs' = tr_fs (createServerSslContext W cfg warn fs)"
    and "W' = W\<lparr>sw_now := now\<rparr>" and "lasting W' cert" and "fst (ensureDir W' (cert_dir cfg) fs')" and "sw_ctx_new W'"
  shows "tr_ctx (createServerSslContext W' cfg warn' fs') = Some (ServerCtx (Some (cert, key))) \<and>
    ts_certSha256 (tr_cfg (createServerSslContext W' cfg warn' fs')) = certSha256Hex W cert \<and>
    fs_files (tr_fs (createServerSslContext W' cfg warn' fs')) = fs_files fs'"
proof -
  have files: "fs_files fs' (cert_dir cfg @ ''/cert.pem'') = Some cert" "fs_files fs' (cert_dir cfg @ ''/key.pem'') = Some key"
    "sw_usable W' cert key"
    using self_signed_files [OF assms(1,2)] assms(5,6) by simp_all
  have "certSha256Hex W' cert = certSha256Hex W cert"
    by (simp add: certSha256Hex_def assms(6))
  with reuse_stored [OF assms(1,9,8) files(1) assms(3) files(2) assms(4,7) files(3)] show ?thesis
    by simp
qed

lemma self_signed_reused_witness:
  "tr_ctx (createServerSslContext (sample_ssl\<lparr>sw_now := 86400\<rparr>) sample_setup []
      (tr_fs (createServerSslContext sample_ssl sample_setup [] \<lparr>fs_files = (\<lambda>_. None), fs_mkdirs = []\<rparr>))) =
    Some (ServerCtx (Some (''CERT'', ''KEY'')))"
proof -
  have "tr_ctx (createServerSslContext sample_ssl sample_setup [] \<lparr>fs_files = (\<lambda>_. None), fs_mkdirs = []\<rparr>) =
      Some (ServerCtx (Some (''CERT'', ''KEY'')))"
    by (simp add: createServerSslContext_def sample_ssl_def sample_setup_def ensureDir_def stored_certificate_def readFile_def
        self_signed_context_def new_certificate_def generateSelfSigned_def self_signed_body_def finish_context_def use_files_def
        writeFile_def Let_def)
  from self_signed_reused [OF _ this _ _ refl refl, of 86400 "[]"] show ?thesis
    by (simp add: self_signed_def lasting_def certRemainingSeconds_def ensureDir_def sample_ssl_def sample_setup_def Let_def)
qed

lemma new_certificate_signed:
  assumes "tr_ctx (new_certificate W (d @ ''/cert.pem'') (d @ ''/key.pem'') cfg warn fs) = Some (ServerCtx (Some (cert, key)))"
    and "\<forall>p. sw_writable W p"
  shows "(cert, key) = sw_signed W (ts_certDays cfg) ''vless-self-signed'' \<and>
    ts_certSha256 (tr_cfg (new_certificate W (d @ ''/cert.pem'') (d @ ''/key.pem'') cfg warn fs)) = certSha256Hex W cert"
proof -
  have signed: "pems = Some (sw_signed W (ts_certDays cfg) ''vless-self-signed'')"
    if "generateSelfSigned W (ts_certDays cfg) ''vless-self-signed'' = (pems, evs)" "pems \<noteq> None" for pems evs
    using that by (auto simp: generateSelfSigned_def self_signed_body_def Let_def split: if_splits)
  show ?thesis
  proof (cases "generateSelfSigned W (ts_certDays cfg) ''vless-self-signed''")
    case (Pair pems evs)
    with assms(1) have "pems \<noteq> None"
      by (cases pems) (auto simp: new_certificate_def no_context_def)
    with signed [OF Pair] Pair assms show ?thesis
      by (cases "sw_signed W (ts_certDays cfg) ''vless-self-signed''")
        (auto simp: new_certificate_def writeFile_def dest!: finish_context_files)
  qed
qed

text \<open>A self-signed certificate issued for 30 days or less is never reused: whenever it was issued, every
start replaces it by a new one, so the fingerprint pinned in the share links changes at each restart,
although the certificate is still valid.\<close>

theorem short_certificate_never_reused:
  assumes "self_signed cfg" and "fs_files fs (cert_dir cfg @ ''/cert.pem'') = Some old"
    and "sw_notAfter W old = Some (issued + days * 24 * 3600)" and "days \<le> 30" and "issued \<le> sw_now W"
    and "tr_ctx (createServerSslContext W cfg warn fs) = Some (ServerCtx (Some (cert, key)))"
    and "\<forall>p. sw_writable W p"
  shows "(cert, key) = sw_signed W (ts_certDays cfg) ''vless-self-signed'' \<and>
    ts_certSha256 (tr_cfg (createServerSslContext W cfg warn fs)) = certSha256Hex W cert"
proof -
  let ?c = "cert_dir cfg @ ''/cert.pem''" and ?k = "cert_dir cfg @ ''/key.pem''"
  have "\<not> lasting W old"
    using assms(3-5) by (simp add: lasting_def certRemainingSeconds_def)
  obtain made fs' where dir: "ensureDir W (cert_dir cfg) fs = (made, fs')"
    by (cases "ensureDir W (cert_dir cfg) fs")
  then have "fs_files fs' ?c = Some old"
    using assms(2) ensureDir_files [of W "cert_dir cfg" fs] by simp
  with \<open>\<not> lasting W old\<close> have none: "stored_certificate W ?c ?k fs' = None"
    using stored_certificate_iff [of W ?c ?k fs'] by (metis not_None_eq option.inject)
  from assms(1,6) have "createServerSslContext W cfg warn fs = self_signed_context W cfg warn fs"
    by (simp add: create_self_signed split: if_splits)
  with assms(6) dir none have new: "createServerSslContext W cfg warn fs = new_certificate W ?c ?k cfg warn fs'"
    by (auto simp: self_signed_context_def cert_dir_def [symmetric] no_context_def Let_def split: if_splits)
  then show ?thesis
    using assms(6,7) new_certificate_signed [of W "cert_dir cfg" cfg warn fs' cert key] by simp
qed

text \<open>The sample certificate, issued for 20 days.\<close>

lemma short_certificate_never_reused_witness:
  "ts_certSha256 (tr_cfg (createServerSslContext (sample_ssl\<lparr>sw_notAfter := \<lambda>_. Some 1728000\<rparr>) (sample_setup\<lparr>ts_certDays := 20\<rparr>) []
      \<lparr>fs_files = (\<lambda>p. if p = ''d/cert.pem'' then Some ''CERT'' else if p = ''d/key.pem'' then Some ''KEY'' else None), fs_mkdirs = []\<rparr>)) =
    ''ab01''"
proof -
  let ?W = "sample_ssl\<lparr>sw_notAfter := \<lambda>_. Some 1728000\<rparr>" and ?cfg = "sample_setup\<lparr>ts_certDays := 20\<rparr>"
  let ?fs = "\<lparr>fs_files = (\<lambda>p. if p = ''d/cert.pem'' then Some ''CERT'' else if p = ''d/key.pem'' then Some ''KEY'' else None), fs_mkdirs = []\<rparr>"
  have ctx: "tr_ctx (createServerSslContext ?W ?cfg [] ?fs) = Some (ServerCtx (Some (''CERT'', ''KEY'')))"
    by (simp add: createServerSslContext_def sample_ssl_def sample_setup_def ensureDir_def stored_certificate_def readFile_def
        self_signed_context_def new_certificate_def generateSelfSigned_def self_signed_body_def finish_context_def use_files_def
        certRemainingSeconds_def kRenewThresholdDays_def writeFile_def Let_def)
  have "hexEncode [0xAB, 0x01] = ''ab01''"
    by code_simp
  with short_certificate_never_reused [OF _ _ _ _ _ ctx, of "''CERT''" 0 20] show ?thesis
    by (simp add: self_signed_def cert_dir_def sample_ssl_def sample_setup_def certSha256Hex_def)
qed

end
