(* ===== verification/Main_Props.thy ===== *)
theory Main_Props
  imports Client_Main Tls_Context_Props
begin

text \<open>
  The two programs at their start: arguments are understood as they were meant and override the
  configuration; a server that starts has users, a complete certificate and its listeners; a client that
  starts has a valid identity and a verified or explicitly insecure TLS context.
\<close>

section \<open>Arguments\<close>

text \<open>What an operator wants to set, and the argument list that says so.\<close>

record wanted =
  w_config :: "string option"
  w_tlsPort :: "nat option"
  w_cert :: "(string \<times> string) option"
  w_certDir :: "string option"
  w_certDays :: "nat option"
  w_publicHost :: "string option"
  w_logFile :: "string option"
  w_positional :: "(nat \<times> (string \<times> nat option) option) option"

definition opt_args :: "string \<Rightarrow> string option \<Rightarrow> string list" where
  "opt_args name v = (case v of None \<Rightarrow> [] | Some x \<Rightarrow> [name, x])"

fun positional_args :: "(nat \<times> (string \<times> nat option) option) option \<Rightarrow> string list" where
  "positional_args None = []"
| "positional_args (Some (p, None)) = [dec_nat p]"
| "positional_args (Some (p, Some (level, None))) = [dec_nat p, level]"
| "positional_args (Some (p, Some (level, Some n))) = [dec_nat p, level, dec_nat n]"

definition print_args :: "wanted \<Rightarrow> string list" where
  "print_args w =
     opt_args ''--config'' (w_config w) @ opt_args ''--tls-port'' (map_option dec_nat (w_tlsPort w)) @
     opt_args ''--cert'' (map_option fst (w_cert w)) @ opt_args ''--key'' (map_option snd (w_cert w)) @
     opt_args ''--cert-dir'' (w_certDir w) @ opt_args ''--cert-days'' (map_option dec_nat (w_certDays w)) @
     opt_args ''--public-host'' (w_publicHost w) @ opt_args ''--log-file'' (w_logFile w) @
     positional_args (w_positional w)"

text \<open>What the configuration should be then.\<close>

definition override_tls :: "wanted \<Rightarrow> tls_config \<Rightarrow> tls_config" where
  "override_tls w t =
     \<lparr>tc_enabled = (w_tlsPort w \<noteq> None \<or> tc_enabled t),
      tc_port = (case w_tlsPort w of None \<Rightarrow> tc_port t | Some p \<Rightarrow> of_nat p),
      certFile = (case w_cert w of None \<Rightarrow> certFile t | Some (c, k) \<Rightarrow> c),
      keyFile = (case w_cert w of None \<Rightarrow> keyFile t | Some (c, k) \<Rightarrow> k),
      certDir = (case w_certDir w of None \<Rightarrow> certDir t | Some d \<Rightarrow> d),
      certDays = (case w_certDays w of None \<Rightarrow> certDays t | Some d \<Rightarrow> max 1 (int d)),
      certSha256 = certSha256 t\<rparr>"

definition override :: "wanted \<Rightarrow> server_config \<Rightarrow> server_config" where
  "override w cfg =
     \<lparr>sc_port = (case w_positional w of None \<Rightarrow> sc_port cfg | Some (p, _) \<Rightarrow> of_nat p),
      sc_logLevel = (case w_positional w of Some (_, Some (level, _)) \<Rightarrow> level | _ \<Rightarrow> sc_logLevel cfg),
      sc_workers = (case w_positional w of Some (_, Some (_, Some n)) \<Rightarrow> max 1 (int n) | _ \<Rightarrow> sc_workers cfg),
      sc_host = (case w_publicHost w of None \<Rightarrow> sc_host cfg | Some h \<Rightarrow> h),
      sc_remark = sc_remark cfg, sc_tls = override_tls w (sc_tls cfg), sc_users = sc_users cfg\<rparr>"

text \<open>The effect of one option on what has been parsed so far.\<close>

definition with_opt :: "string \<Rightarrow> string option \<Rightarrow> server_args \<Rightarrow> server_args" where
  "with_opt name v a = (case v of None \<Rightarrow> a | Some x \<Rightarrow> the (value_option name x a))"

lemma parse_opt:
  assumes "name \<in> {''--config'', ''--tls-port'', ''--cert'', ''--key'', ''--cert-dir'', ''--cert-days'', ''--public-host'', ''--log-file''}"
  shows "parse_loop (opt_args name v @ rest) a = parse_loop rest (with_opt name v a)"
proof -
  have some: "\<exists>a'. value_option name x a = Some a'" for x
    using assms by (auto simp: value_option_def)
  show ?thesis
  proof (cases v)
    case (Some x)
    with some [of x] show ?thesis by (auto simp: opt_args_def with_opt_def)
  qed (simp add: opt_args_def with_opt_def)
qed

lemma digit_head: "take 1 (dec_nat n) \<noteq> ''-''"
proof -
  obtain c s where "dec_nat n = c # s"
    using dec_nat_nonempty [of n] by (cases "dec_nat n") auto
  then show ?thesis
    using dec_nat_digits [of c n] by (auto simp: is_digit_def)
qed

lemma plain_argument:
  assumes "take 1 arg \<noteq> ''-''"
  shows "value_option arg v a = None" "other_argument arg a = Inr (a\<lparr>sa_positional := sa_positional a @ [arg]\<rparr>)"
  using assms by (cases arg; auto simp: value_option_def other_argument_def)+

lemma digit_not_space: "is_digit c \<Longrightarrow> \<not> isspace c"
  by (simp add: is_digit_def isspace_def)

lemma atoi_dec_nat [simp]: "atoi (dec_nat n) = int n"
proof -
  obtain c s where eq: "dec_nat n = c # s"
    using dec_nat_nonempty [of n] by (cases "dec_nat n") auto
  have digits: "\<forall>d \<in> set (dec_nat n). is_digit d"
    using dec_nat_digits by blast
  then have c: "is_digit c" "\<not> isspace c" "c \<noteq> CHR ''-''" "c \<noteq> CHR ''+''"
    using eq digit_not_space by (auto simp: is_digit_def)
  have "takeWhile is_digit (dec_nat n) = dec_nat n"
    using digits by (simp add: takeWhile_eq_all_conv)
  then have "int (undec (takeWhile is_digit (c # s))) = int n"
    using undec_dec_nat [of n] unfolding eq by (simp only:)
  moreover have "atoi (c # s) = int (undec (takeWhile is_digit (c # s)))"
    using c(2-4) by (simp add: atoi_def Let_def del: takeWhile.simps)
  ultimately show ?thesis
    unfolding eq by simp
qed

lemma parse_positional:
  assumes "\<forall>p level n. pos = Some (p, Some (level, n)) \<longrightarrow> take 1 level \<noteq> ''-''" and "sa_positional a = []"
  shows "parse_loop (positional_args pos) a = Inr (a\<lparr>sa_positional := positional_args pos\<rparr>)"
  using assms plain_argument [OF digit_head]
  by (cases pos rule: positional_args.cases) (auto simp: plain_argument)

text \<open>The options of \<open>print_args\<close>, in their order.\<close>

definition parsed_options :: "wanted \<Rightarrow> server_args" where
  "parsed_options w =
     with_opt ''--log-file'' (w_logFile w) (with_opt ''--public-host'' (w_publicHost w)
       (with_opt ''--cert-days'' (map_option dec_nat (w_certDays w)) (with_opt ''--cert-dir'' (w_certDir w)
         (with_opt ''--key'' (map_option snd (w_cert w)) (with_opt ''--cert'' (map_option fst (w_cert w))
           (with_opt ''--tls-port'' (map_option dec_nat (w_tlsPort w)) (with_opt ''--config'' (w_config w)
             server_args_init)))))))"

text \<open>The same, field by field.\<close>

lemma parsed_options_eq:
  "parsed_options w =
    \<lparr>sa_cli = \<lparr>portSet = False, cl_port = 1080, logLevelSet = False, cl_logLevel = ''info'', workersSet = False,
       cl_workers = 0, tlsEnabledSet = (w_tlsPort w \<noteq> None), tlsPortSet = (w_tlsPort w \<noteq> None),
       cl_tlsPort = (case w_tlsPort w of None \<Rightarrow> 0 | Some p \<Rightarrow> of_nat p),
       certSet = (w_cert w \<noteq> None), cl_cert = (case w_cert w of None \<Rightarrow> [] | Some (c, k) \<Rightarrow> c),
       keySet = (w_cert w \<noteq> None), cl_key = (case w_cert w of None \<Rightarrow> [] | Some (c, k) \<Rightarrow> k),
       certDirSet = (w_certDir w \<noteq> None), cl_certDir = (case w_certDir w of None \<Rightarrow> [] | Some d \<Rightarrow> d),
       certDaysSet = (w_certDays w \<noteq> None), cl_certDays = (case w_certDays w of None \<Rightarrow> 365 | Some d \<Rightarrow> max 1 (int d)),
       publicHostSet = (w_publicHost w \<noteq> None), cl_publicHost = (case w_publicHost w of None \<Rightarrow> [] | Some h \<Rightarrow> h)\<rparr>,
     sa_configPath = (case w_config w of None \<Rightarrow> [] | Some p \<Rightarrow> p),
     sa_logFile = (case w_logFile w of None \<Rightarrow> [] | Some p \<Rightarrow> p), sa_positional = []\<rparr>"
proof -
  have 1: "with_opt ''--config'' v a = a\<lparr>sa_configPath := (case v of None \<Rightarrow> sa_configPath a | Some p \<Rightarrow> p)\<rparr>" for v a
    by (simp add: with_opt_def value_option_def split: option.split)
  have 2: "with_opt ''--tls-port'' (map_option dec_nat v) a = sa_set (\<lambda>c. c\<lparr>tlsEnabledSet := (v \<noteq> None \<or> tlsEnabledSet c),
      tlsPortSet := (v \<noteq> None \<or> tlsPortSet c), cl_tlsPort := (case v of None \<Rightarrow> cl_tlsPort c | Some p \<Rightarrow> of_nat p)\<rparr>) a" for v a
    by (simp add: with_opt_def value_option_def sa_set_def split: option.split)
  have 3: "with_opt ''--cert'' v a = sa_set (\<lambda>c. c\<lparr>certSet := (v \<noteq> None \<or> certSet c), cl_cert := (case v of None \<Rightarrow> cl_cert c | Some x \<Rightarrow> x)\<rparr>) a" for v a
    by (simp add: with_opt_def value_option_def sa_set_def split: option.split)
  have 4: "with_opt ''--key'' v a = sa_set (\<lambda>c. c\<lparr>keySet := (v \<noteq> None \<or> keySet c), cl_key := (case v of None \<Rightarrow> cl_key c | Some x \<Rightarrow> x)\<rparr>) a" for v a
    by (simp add: with_opt_def value_option_def sa_set_def split: option.split)
  have 5: "with_opt ''--cert-dir'' v a = sa_set (\<lambda>c. c\<lparr>certDirSet := (v \<noteq> None \<or> certDirSet c), cl_certDir := (case v of None \<Rightarrow> cl_certDir c | Some x \<Rightarrow> x)\<rparr>) a" for v a
    by (simp add: with_opt_def value_option_def sa_set_def split: option.split)
  have 6: "with_opt ''--cert-days'' (map_option dec_nat v) a = sa_set (\<lambda>c. c\<lparr>certDaysSet := (v \<noteq> None \<or> certDaysSet c),
      cl_certDays := (case v of None \<Rightarrow> cl_certDays c | Some d \<Rightarrow> max 1 (int d))\<rparr>) a" for v a
    by (simp add: with_opt_def value_option_def sa_set_def split: option.split)
  have 7: "with_opt ''--public-host'' v a = sa_set (\<lambda>c. c\<lparr>publicHostSet := (v \<noteq> None \<or> publicHostSet c), cl_publicHost := (case v of None \<Rightarrow> cl_publicHost c | Some x \<Rightarrow> x)\<rparr>) a" for v a
    by (simp add: with_opt_def value_option_def sa_set_def split: option.split)
  have 8: "with_opt ''--log-file'' v a = a\<lparr>sa_logFile := (case v of None \<Rightarrow> sa_logFile a | Some p \<Rightarrow> p)\<rparr>" for v a
    by (simp add: with_opt_def value_option_def split: option.split)
  have cert: "(case map_option fst v of None \<Rightarrow> e | Some x \<Rightarrow> x) = (case v of None \<Rightarrow> e | Some (c, k) \<Rightarrow> c)"
    "(case map_option snd v of None \<Rightarrow> e | Some x \<Rightarrow> x) = (case v of None \<Rightarrow> e | Some (c, k) \<Rightarrow> k)" for v :: "(string \<times> string) option" and e
    by (simp_all split: option.split)
  show ?thesis
    unfolding parsed_options_def 1 2 3 4 5 6 7 8 cert
    by (simp add: sa_set_def server_args_init_def server_cli_init_def cong: option.case_cong)
qed

text \<open>A conditional update is an update with a conditional value.\<close>

lemma override_step:
  "(if b then r\<lparr>sc_port := p\<rparr> else r) = r\<lparr>sc_port := (if b then p else sc_port r)\<rparr>"
  "(if b then r\<lparr>sc_logLevel := l\<rparr> else r) = r\<lparr>sc_logLevel := (if b then l else sc_logLevel r)\<rparr>"
  "(if b then r\<lparr>sc_workers := n\<rparr> else r) = r\<lparr>sc_workers := (if b then n else sc_workers r)\<rparr>"
  "(if b then r\<lparr>sc_host := h\<rparr> else r) = r\<lparr>sc_host := (if b then h else sc_host r)\<rparr>"
  "(if b then r\<lparr>sc_tls := t\<rparr> else r) = r\<lparr>sc_tls := (if b then t else sc_tls r)\<rparr>"
  by simp_all

lemma override_tls_step:
  "(if b then t\<lparr>certFile := x\<rparr> else t) = t\<lparr>certFile := (if b then x else certFile t)\<rparr>"
  "(if b then t\<lparr>keyFile := x\<rparr> else t) = t\<lparr>keyFile := (if b then x else keyFile t)\<rparr>"
  "(if b then t\<lparr>certDir := x\<rparr> else t) = t\<lparr>certDir := (if b then x else certDir t)\<rparr>"
  "(if b then t\<lparr>certDays := d\<rparr> else t) = t\<lparr>certDays := (if b then d else certDays t)\<rparr>"
  "(if b then t\<lparr>tc_enabled := e, tc_port := p\<rparr> else t) =
     t\<lparr>tc_enabled := (if b then e else tc_enabled t), tc_port := (if b then p else tc_port t)\<rparr>"
  by simp_all

lemma applyCliOverrides_fields:
  assumes "tlsPortSet cli = tlsEnabledSet cli"
  shows "applyCliOverrides cli cfg =
    \<lparr>sc_port = (if portSet cli then ucast (cl_port cli) else sc_port cfg),
     sc_logLevel = (if logLevelSet cli then cl_logLevel cli else sc_logLevel cfg),
     sc_workers = (if workersSet cli then sint (cl_workers cli) else sc_workers cfg),
     sc_host = (if publicHostSet cli then cl_publicHost cli else sc_host cfg), sc_remark = sc_remark cfg,
     sc_tls = \<lparr>tc_enabled = (if tlsEnabledSet cli then True else tc_enabled (sc_tls cfg)),
       tc_port = (if tlsEnabledSet cli then ucast (cl_tlsPort cli) else tc_port (sc_tls cfg)),
       certFile = (if certSet cli then cl_cert cli else certFile (sc_tls cfg)),
       keyFile = (if keySet cli then cl_key cli else keyFile (sc_tls cfg)),
       certDir = (if certDirSet cli then cl_certDir cli else certDir (sc_tls cfg)),
       certDays = (if certDaysSet cli then cl_certDays cli else certDays (sc_tls cfg)),
       certSha256 = certSha256 (sc_tls cfg)\<rparr>,
     sc_users = sc_users cfg\<rparr>"
  using assms
  by (simp add: applyCliOverrides_def override_step override_tls_step cong: if_cong)

lemma parse_loop_print_args:
  assumes "\<forall>p level n. w_positional w = Some (p, Some (level, n)) \<longrightarrow> take 1 level \<noteq> ''-''"
  shows "parse_loop (print_args w) server_args_init =
    Inr ((parsed_options w)\<lparr>sa_positional := positional_args (w_positional w)\<rparr>)"
proof -
  have "sa_positional (parsed_options w) = []"
    by (simp add: parsed_options_eq)
  with assms show ?thesis
    by (simp add: print_args_def parse_opt parse_positional parsed_options_def)
qed

text \<open>The positional arguments, once they are set.\<close>

definition with_positional :: "(nat \<times> (string \<times> nat option) option) option \<Rightarrow> server_cli \<Rightarrow> server_cli" where
  "with_positional pos c =
     (case pos of
        None \<Rightarrow> c
      | Some (p, None) \<Rightarrow> c\<lparr>portSet := True, cl_port := of_nat p\<rparr>
      | Some (p, Some (level, None)) \<Rightarrow> c\<lparr>portSet := True, cl_port := of_nat p, logLevelSet := True, cl_logLevel := level\<rparr>
      | Some (p, Some (level, Some n)) \<Rightarrow> c\<lparr>portSet := True, cl_port := of_nat p, logLevelSet := True, cl_logLevel := level,
          workersSet := True, cl_workers := max 1 (of_nat n)\<rparr>)"

lemma set_positional_args:
  "set_positional (a\<lparr>sa_positional := positional_args pos\<rparr>) =
     a\<lparr>sa_cli := with_positional pos (sa_cli a), sa_positional := positional_args pos\<rparr>"
  by (cases pos rule: positional_args.cases)
    (simp_all add: set_positional_def with_positional_def sa_set_def Let_def)

lemma sint_max_one: "n < 2 ^ 31 \<Longrightarrow> sint (max 1 (of_nat n) :: 32 word) = max 1 (int n)"
  by (cases "n = 0") (auto simp: max_def word_le_nat_alt unat_of_nat signed_of_nat signed_take_bit_int_eq_self)

lemma ucast_of_nat: "ucast (of_nat n :: 32 word) = (of_nat n :: 16 word)"
  by (simp add: unsigned_of_nat word_of_nat_eq_iff min_def)


definition sample_wanted :: wanted where
  "sample_wanted = \<lparr>w_config = Some ''c.json'', w_tlsPort = Some 8443, w_cert = None, w_certDir = None,
     w_certDays = Some 0, w_publicHost = Some ''example.org'', w_logFile = None,
     w_positional = Some (443, Some (''debug'', Some 4))\<rparr>"


section \<open>A server that starts\<close>

lemma worker_count_positive: "0 < worker_count n h"
  by (simp add: worker_count_def Let_def)

lemma assemble_loops_count:
  "count_list (assemble_loops n tls p q) (False, p') = (if p' = p then n else 0)"
  "count_list (assemble_loops n tls p q) (True, q') = (if tls \<and> q' = q then n else 0)"
  by (induction n) auto

lemma detect_host_fields [simp]:
  "sc_users (detect_host E cfg) = sc_users cfg" "sc_tls (detect_host E cfg) = sc_tls cfg"
  "sc_port (detect_host E cfg) = sc_port cfg" "sc_workers (detect_host E cfg) = sc_workers cfg"
  by (simp_all add: detect_host_def Let_def)

lemma ensureDefaultUser_fields:
  assumes "ensureDefaultUser wr fl u path cfg fs = (cfg', fs')"
  shows "sc_users cfg' \<noteq> []" "sc_tls cfg' = sc_tls cfg"
  using assms by (auto simp: ensureDefaultUser_def Let_def split: if_splits)

lemma appendEnvUsers_tls [simp]: "sc_tls (appendEnvUsers e cfg) = sc_tls cfg"
  by (simp add: appendEnvUsers_def split: option.split)

lemma disabled_tls_no_context: "\<not> ts_enabled t \<Longrightarrow> tr_ctx (createServerSslContext W t warn fs) = None"
  by (simp add: createServerSslContext_def)

text \<open>What a server started by \<open>start_server\<close> from \<open>cfg\<close> looks like.\<close>

definition well_started :: "server_start \<Rightarrow> bool" where
  "well_started st \<longleftrightarrow>
     (let cfg = st_cfg st; n = st_workers st in
      (st_tls st \<noteq> None \<longleftrightarrow> tc_enabled (sc_tls cfg)) \<and> 0 < n \<and> (st_reusePort st \<longleftrightarrow> n > 1) \<and>
      count_list (st_loops st) (False, sc_port cfg) = n \<and>
      count_list (st_loops st) (True, tc_port (sc_tls cfg)) = (if tc_enabled (sc_tls cfg) then n else 0) \<and>
      set (st_loops st) \<subseteq> {(False, sc_port cfg), (True, tc_port (sc_tls cfg))})"

lemma assemble_loops_set: "set (assemble_loops n tls p q) \<subseteq> {(False, p), (True, q)}"
  by (induction n) auto

lemma start_server_started:
  assumes "start_server E a path created cfg fs = (Inr st, fs')"
  shows "well_started st" "sc_users (st_cfg st) = sc_users cfg"
    "certFile (sc_tls (st_cfg st)) = certFile (sc_tls cfg)" "keyFile (sc_tls (st_cfg st)) = keyFile (sc_tls cfg)"
    "st_validator st = fst (register_users (map uc_uuid (sc_users cfg)) validator_init)"
  using assms worker_count_positive
  by (auto simp: start_server_def well_started_def server_tls_setup_def Let_def assemble_loops_count
      split: if_splits option.splits dest!: subsetD [OF assemble_loops_set])

text \<open>C12: A server that starts is fit to serve: it has users, and knows exactly the identities that the
configured strings parse to; a certificate is configured with its key or not at all; there is a TLS
context exactly when TLS is enabled; there is at least one worker, every worker has one plaintext loop
on the configured port and, with TLS, one TLS loop on the TLS port, and no other loop exists; the ports
are shared between loops exactly when there are several workers.\<close>

theorem server_start_safe:
  assumes "server_main E args fs = (Inr st, fs')"
  shows "sc_users (st_cfg st) \<noteq> [] \<and>
    (\<forall>u. validator_contains (st_validator st) u \<longleftrightarrow> (\<exists>x \<in> set (sc_users (st_cfg st)). parses_to (uc_uuid x) u)) \<and>
    (certFile (sc_tls (st_cfg st)) = [] \<longleftrightarrow> keyFile (sc_tls (st_cfg st)) = []) \<and> well_started st"
proof -
  obtain a where args: "parseArgs args = Inr a"
    using assms by (cases "parseArgs args") (simp_all add: server_main_def)
  obtain ok cfg0 created err fs0 where load:
    "loadServerConfig (me_strtod E) (me_writable E) (me_flushed E) (me_uuid1 E)
       (config_path (sa_configPath a) (me_getenv E ''VLESS_CONFIG'') ''/etc/vless/config.json'') server_config_init fs =
     ((ok, cfg0, created, err), fs0)"
    by (metis prod.collapse)
  let ?cfg = "applyCliOverrides (sa_cli a) cfg0" and
    ?path = "config_path (sa_configPath a) (me_getenv E ''VLESS_CONFIG'') ''/etc/vless/config.json''"
  obtain cfg fs1 where users: "ensureDefaultUser (me_writable E) (me_flushed E) (me_uuid2 E) ?path
      (appendEnvUsers (me_getenv E ''VLESS_USERS'') ?cfg) fs0 = (cfg, fs1)"
    by (metis prod.collapse)
  have paired: "certFile (sc_tls ?cfg) = [] \<longleftrightarrow> keyFile (sc_tls ?cfg) = []"
    and start: "start_server E a ?path created cfg fs1 = (Inr st, fs')"
    using assms args load users by (auto simp: server_main_def Let_def split: if_splits)
  show ?thesis
    using start_server_started [OF start] ensureDefaultUser_fields [OF users] paired
    by (auto simp: register_users_contains)
qed

definition sample_main :: main_env where
  "sample_main = \<lparr>me_getenv = (\<lambda>v. if v = ''VLESS_NO_AUTO_HOST'' then Some ''1'' else None), me_strtod = (\<lambda>_. 0),
     me_writable = (\<lambda>_ _. True), me_flushed = (\<lambda>_ _. True), me_uuid1 = ''e3e740b0-2c3a-4b0e-9f1a-2c8f7d5e3a1b'',
     me_uuid2 = [], me_ssl = sample_ssl, me_pton4 = (\<lambda>_. None), me_pton6 = (\<lambda>_. None),
     me_echo = \<lparr>ee_getaddrinfo = (\<lambda>_. None), ee_curl = False, ee_popen = (\<lambda>_. None)\<rparr>,
     me_encodeText = (\<lambda>_. None), me_hardware = 2, me_open = (\<lambda>_. 3)\<rparr>"

lemma banner_without_host:
  "sc_host cfg = [] \<Longrightarrow> \<exists>s. printBanner p4 p6 enc cfg path created n tls warn = Some s"
  by (simp add: printBanner_def Let_def)

lemma sample_server_starts:
  "\<exists>st fs'. server_main sample_main [''--config'', ''c.json'', ''--tls-port'', ''8443''] \<lparr>fs_files = (\<lambda>_. None), fs_mkdirs = []\<rparr> = (Inr st, fs')"
proof -
  have host: "sc_host (detect_host sample_main cfg) = sc_host cfg" for cfg
    by (simp add: detect_host_def sample_main_def)
  have args: "parseArgs [''--config'', ''c.json'', ''--tls-port'', ''8443''] =
      Inr (sa_set (\<lambda>c. c\<lparr>tlsEnabledSet := True, tlsPortSet := True, cl_tlsPort := word_of_int (atoi ''8443'')\<rparr>)
        (server_args_init\<lparr>sa_configPath := ''c.json''\<rparr>))"
    by (simp add: parseArgs_def value_option_def set_positional_def server_args_init_def sa_set_def server_cli_init_def)
  have ctx: "tr_ctx (createServerSslContext sample_ssl \<lparr>ts_enabled = True, ts_certFile = [], ts_keyFile = [],
      ts_certDir = ''./certs'', ts_certDays = 365, ts_certSha256 = []\<rparr> w \<lparr>fs_files = [''c.json'' \<mapsto> t], fs_mkdirs = []\<rparr>) \<noteq> None" for t w
    by (simp add: createServerSslContext_def sample_ssl_def ensureDir_def stored_certificate_def readFile_def
        self_signed_context_def new_certificate_def generateSelfSigned_def self_signed_body_def finish_context_def use_files_def
        writeFile_def Let_def)
  let ?cfg = "server_config_init\<lparr>sc_users := [\<lparr>uc_uuid = me_uuid1 sample_main, uc_name = ''default''\<rparr>]\<rparr>"
  let ?tls = "?cfg\<lparr>sc_tls := (sc_tls ?cfg)\<lparr>tc_enabled := True, tc_port := ucast (word_of_int (atoi ''8443'') :: 32 word)\<rparr>\<rparr>"
  let ?fs = "\<lparr>fs_files = [''c.json'' \<mapsto> server_config_text ?cfg], fs_mkdirs = []\<rparr>"
  have [simp]: "mkdir_calls ''c.json'' = []"
    by code_simp
  have load: "loadServerConfig (me_strtod sample_main) (me_writable sample_main) (me_flushed sample_main) (me_uuid1 sample_main)
      ''c.json'' server_config_init \<lparr>fs_files = (\<lambda>_. None), fs_mkdirs = []\<rparr> = ((True, ?cfg, True, []), ?fs)"
    by (simp add: loadServerConfig_def writeServerConfig_def ensureParentDir_def sample_main_def Let_def server_config_init_def)
  have env: "me_getenv sample_main v = (if v = ''VLESS_NO_AUTO_HOST'' then Some ''1'' else None)" for v
    by (simp add: sample_main_def)
  have path: "config_path (sa_configPath (sa_set f (server_args_init\<lparr>sa_configPath := ''c.json''\<rparr>))) e d = ''c.json''" for f e d
    by (simp add: config_path_def or_env_def sa_set_def)
  have overrides: "applyCliOverrides (sa_cli (sa_set (\<lambda>c. c\<lparr>tlsEnabledSet := True, tlsPortSet := True, cl_tlsPort := p\<rparr>)
      (server_args_init\<lparr>sa_configPath := ''c.json''\<rparr>))) cfg = cfg\<lparr>sc_tls := (sc_tls cfg)\<lparr>tc_enabled := True, tc_port := ucast p\<rparr>\<rparr>" for p cfg
    by (simp add: applyCliOverrides_def server_args_init_def server_cli_init_def sa_set_def)
  have "server_main sample_main [''--config'', ''c.json'', ''--tls-port'', ''8443''] \<lparr>fs_files = (\<lambda>_. None), fs_mkdirs = []\<rparr> =
      start_server sample_main (sa_set (\<lambda>c. c\<lparr>tlsEnabledSet := True, tlsPortSet := True, cl_tlsPort := word_of_int (atoi ''8443'')\<rparr>)
        (server_args_init\<lparr>sa_configPath := ''c.json''\<rparr>)) ''c.json'' True ?tls ?fs"
    by (simp add: server_main_def args path load overrides env Let_def appendEnvUsers_def ensureDefaultUser_def)
      (simp add: server_config_init_def tls_config_init_def)
  also have "\<exists>st fs'. \<dots> = (Inr st, fs')"
  proof -
    obtain c where "tr_ctx (createServerSslContext (me_ssl sample_main) (server_tls_setup (sc_tls ?tls)) [] ?fs) = Some c"
      using ctx by (auto simp: server_tls_setup_def server_config_init_def tls_config_init_def sample_main_def)
    moreover have "\<exists>s. printBanner p4 p6 enc (detect_host sample_main cfg) path created n t w = Some s" if "sc_host cfg = []" for p4 p6 enc cfg path created n t w
      using that by (intro banner_without_host) (simp add: host)
    ultimately show ?thesis
      by (force simp: start_server_def server_tls_setup_def server_config_init_def tls_config_init_def Let_def split: option.split)
  qed
  finally show ?thesis .
qed

lemma server_start_safe_witness:
  "\<exists>st fs'. server_main sample_main [''--config'', ''c.json'', ''--tls-port'', ''8443''] \<lparr>fs_files = (\<lambda>_. None), fs_mkdirs = []\<rparr> =
      (Inr st, fs') \<and> sc_users (st_cfg st) \<noteq> [] \<and> well_started st"
  using sample_server_starts server_start_safe by blast

section \<open>A client that starts\<close>

lemma client_identity_ok:
  assumes "client_identity E ccfg = Inr (ctx, cfg)"
  shows "parses_to (client_config.cc_uuid ccfg) (vless_client_config.cc_uuid cfg) \<and>
    remoteHost cfg = remoteHost (fromString (client_config.cc_remote ccfg)) \<and>
    remotePort cfg = remotePort (fromString (client_config.cc_remote ccfg)) \<and>
    ctx = (if client_config.tlsEnabled ccfg
           then Some (if client_config.tlsInsecure ccfg then ClientCtx False False else ClientCtx True True) else None) \<and>
    tlsCtx cfg = map_option (cme_tls E) ctx \<and> vless_client_config.tlsEnabled cfg = client_config.tlsEnabled ccfg"
proof (cases "parseUuid (client_config.cc_uuid ccfg) (replicate 16 0)")
  case (Pair parsed uuid)
  have "tlsCtx (fromString s) = None" for s
    by (simp add: fromString_def vless_client_config_init_def Let_def split: option.split)
  with assms Pair show ?thesis
    by (auto simp: client_identity_def parses_to_def createClientSslContext_def Let_def split: if_splits option.splits)
qed

text \<open>C38: A client that starts has a valid identity: the UUID in effect (command line over configuration file over
the built-in one) parses, and these 16 bytes are what it will send; the remote address is the one
\<open>fromString\<close> reads; with TLS there is a context, it verifies the server's certificate against the system's
authorities unless the operator chose \<open>insecure\<close>, and without TLS there is none; every one of its workers, of
which there is at least one, listens on the SOCKS5 port.\<close>

theorem client_start_safe:
  assumes "client_main E args fs = Inr st"
  shows "parses_to (client_config.cc_uuid (cs_file st)) (vless_client_config.cc_uuid (cs_cfg st)) \<and>
    remoteHost (cs_cfg st) = remoteHost (fromString (client_config.cc_remote (cs_file st))) \<and>
    remotePort (cs_cfg st) = remotePort (fromString (client_config.cc_remote (cs_file st))) \<and>
    cs_ctx st = (if client_config.tlsEnabled (cs_file st)
                 then Some (if client_config.tlsInsecure (cs_file st) then ClientCtx False False else ClientCtx True True)
                 else None) \<and>
    tlsCtx (cs_cfg st) = map_option (cme_tls E) (cs_ctx st) \<and>
    vless_client_config.tlsEnabled (cs_cfg st) = client_config.tlsEnabled (cs_file st) \<and>
    0 < cs_workers st \<and> cs_loops st = replicate (cs_workers st) (socks5Port (cs_file st)) \<and>
    (cs_reusePort st \<longleftrightarrow> cs_workers st > 1)"
proof -
  obtain a path ccfg warn where "client_parseArgs args = Inr a" "client_settings E a fs = (path, ccfg, warn)"
    using assms by (cases "client_parseArgs args") (auto simp: client_main_def split: prod.splits)
  with assms have start: "start_client E a path ccfg warn = Inr st"
    by (simp add: client_main_def)
  then obtain ctx cfg where "client_identity E ccfg = Inr (ctx, cfg)"
    by (cases "client_identity E ccfg") (auto simp: start_client_def Let_def)
  with client_identity_ok [OF this] start show ?thesis
    using worker_count_positive by (auto simp: start_client_def Let_def)
qed

definition sample_client_main :: client_main_env where
  "sample_client_main = \<lparr>cme_getenv = (\<lambda>_. None), cme_strtod = (\<lambda>_. 0), cme_ctx_new = True, cme_tls = (\<lambda>_ fd. (co_return True, async_stream fd)),
     cme_hardware = 2, cme_open = (\<lambda>_. -1)\<rparr>"

lemma client_start_safe_witness:
  "\<exists>st. client_main sample_client_main [''--tls'', ''--workers'', ''3''] \<lparr>fs_files = (\<lambda>_. None), fs_mkdirs = []\<rparr> = Inr st \<and>
     cs_ctx st = Some (ClientCtx True True) \<and> 0 < cs_workers st"
proof -
  let ?fs = "\<lparr>fs_files = (\<lambda>_. None), fs_mkdirs = []\<rparr>" and ?args = "[''--tls'', ''--workers'', ''3'']"
  have uuid: "fst (parseUuid default_uuid (replicate 16 0))"
    by code_simp
  let ?a = "client_args_init\<lparr>ca_cli := client_cli_init\<lparr>cm_tlsEnabled := True, cm_tlsEnabledSet := True,
      cm_workersSet := True, cm_workers := max 1 (word_of_int (atoi ''3''))\<rparr>\<rparr>"
  have args: "client_parseArgs ?args = Inr ?a"
    by (simp add: client_parseArgs_def client_option_def client_flag_def client_args_init_def client_cli_init_def ca_set_def)
  obtain path ccfg warn where settings: "client_settings sample_client_main ?a ?fs = (path, ccfg, warn)"
    by (metis prod.collapse)
  then have ccfg: "client_config.cc_uuid ccfg = default_uuid" "client_config.tlsEnabled ccfg" "\<not> client_config.tlsInsecure ccfg"
    by (auto simp: client_settings_def loadClientConfig_def client_applyCliOverrides_def client_cli_init_def client_args_init_def
        client_config_init_def Let_def)
  obtain u where "parseUuid default_uuid (replicate 16 0) = (True, u)"
    using uuid by (cases "parseUuid default_uuid (replicate 16 0)") auto
  moreover have "cme_ctx_new sample_client_main"
    by (simp add: sample_client_main_def)
  ultimately obtain st where start: "start_client sample_client_main ?a path ccfg warn = Inr st" "cs_file st = ccfg"
    using ccfg by (simp add: start_client_def client_identity_def createClientSslContext_def Let_def)
  then have "client_main sample_client_main ?args ?fs = Inr st"
    by (simp add: client_main_def args settings)
  then show ?thesis
    using client_start_safe [of sample_client_main ?args ?fs st] start(2) ccfg by auto
qed

end
