(* ===== verification/Tasks.thy ===== *)
theory Tasks
  imports Vless_Prelude
begin

text \<open>
  Coroutine tasks (include/coro/task.h): the promise, the handle, and how one coroutine awaits
  another, on a machine of coroutine frames.

  A coroutine's body is a tree (\<open>prog\<close>): it returns, throws, acts on the state of the program (the
  action tells whether the coroutine was suspended for it, as for every io_uring operation; \<open>None\<close>
  means that the operation never completes), or awaits a call of another coroutine, after which it
  goes on with the value or the exception. The frames are numbered in the order of their creation;
  \<open>m_current\<close> is the frame that has control, \<open>None\<close> when control is back in the event loop; \<open>m_depth\<close>
  counts the calls of \<open>resume\<close> on the native stack, which unwinds when the coroutine suspends for an
  operation; the event loop then resumes it from the bottom of the stack.
\<close>

datatype ('s, 'v) prog =
    CoReturn 'v
  | CoThrow exn
  | CoAct "'s \<Rightarrow> ((bool \<times> 'v) \<times> 's) option" "'v \<Rightarrow> ('s, 'v) prog"
  | CoAwait "('s, 'v) prog" "exn + 'v \<Rightarrow> ('s, 'v) prog"

section \<open>Promises and frames\<close>

record 'v promise =
  pr_value :: "'v option"
  pr_exception :: "exn option"
  pr_continuation :: "nat option"

definition promise_init :: "'v promise" where
  "promise_init = \<lparr>pr_value = None, pr_exception = None, pr_continuation = None\<rparr>"

text \<open>Where a frame stands: before a piece of its body, in \<open>co_await\<close> of a task, at its final suspend point.\<close>

datatype ('s, 'v) place = At "('s, 'v) prog" | Awaiting nat "exn + 'v \<Rightarrow> ('s, 'v) prog" | Final

record ('s, 'v) frame =
  fr_place :: "('s, 'v) place"
  fr_promise :: "'v promise"

record ('s, 'v) machine =
  m_frames :: "nat \<Rightarrow> ('s, 'v) frame option"
  m_next :: nat
  m_current :: "nat option"
  m_depth :: nat
  m_state :: 's
  m_destroyed :: "nat list"

definition set_place :: "nat \<Rightarrow> ('s, 'v) place \<Rightarrow> ('s, 'v) machine \<Rightarrow> ('s, 'v) machine" where
  "set_place f p M = M\<lparr>m_frames := (m_frames M)(f := map_option (\<lambda>fr. fr\<lparr>fr_place := p\<rparr>) (m_frames M f))\<rparr>"

definition set_promise :: "nat \<Rightarrow> ('v promise \<Rightarrow> 'v promise) \<Rightarrow> ('s, 'v) machine \<Rightarrow> ('s, 'v) machine" where
  "set_promise f g M =
     M\<lparr>m_frames := (m_frames M)(f := map_option (\<lambda>fr. fr\<lparr>fr_promise := g (fr_promise fr)\<rparr>) (m_frames M f))\<rparr>"

text \<open>\<open>std::coroutine_handle::resume\<close>.\<close>

definition resume :: "nat \<Rightarrow> ('s, 'v) machine \<Rightarrow> ('s, 'v) machine" where
  "resume f M = M\<lparr>m_current := Some f, m_depth := m_depth M + 1\<rparr>"

section \<open>TaskPromise\<close>

text \<open>\<open>get_return_object\<close> with \<open>initial_suspend\<close>: a new frame, suspended before its body.\<close>

definition get_return_object :: "('s, 'v) prog \<Rightarrow> ('s, 'v) machine \<Rightarrow> nat option \<times> ('s, 'v) machine" where
  "get_return_object p M =
     (Some (m_next M),
      M\<lparr>m_frames := (m_frames M)(m_next M \<mapsto> \<lparr>fr_place = At p, fr_promise = promise_init\<rparr>), m_next := m_next M + 1\<rparr>)"

definition return_value :: "nat \<Rightarrow> 'v \<Rightarrow> ('s, 'v) machine \<Rightarrow> ('s, 'v) machine" where
  "return_value f v = set_promise f (\<lambda>pr. pr\<lparr>pr_value := Some v\<rparr>)"

definition unhandled_exception :: "nat \<Rightarrow> exn \<Rightarrow> ('s, 'v) machine \<Rightarrow> ('s, 'v) machine" where
  "unhandled_exception f e = set_promise f (\<lambda>pr. pr\<lparr>pr_exception := Some e\<rparr>)"

text \<open>\<open>FinalAwaitable::await_suspend\<close>: the continuation, if there is one, gets control.\<close>

definition final_suspend :: "nat \<Rightarrow> ('s, 'v) machine \<Rightarrow> ('s, 'v) machine" where
  "final_suspend f M =
     (let M = set_place f Final M in
      case m_frames M f of
        None \<Rightarrow> M\<lparr>m_current := None\<rparr>
      | Some fr \<Rightarrow>
          (case pr_continuation (fr_promise fr) of
             Some c \<Rightarrow> resume c M
           | None \<Rightarrow> M\<lparr>m_current := None, m_depth := 0\<rparr>))"

section \<open>Task\<close>

definition task_destroy :: "nat option \<Rightarrow> ('s, 'v) machine \<Rightarrow> ('s, 'v) machine" where
  "task_destroy h M =
     (case h of
        None \<Rightarrow> M
      | Some f \<Rightarrow> M\<lparr>m_frames := (m_frames M)(f := None), m_destroyed := m_destroyed M @ [f]\<rparr>)"

text \<open>Both moves, the assignment between different objects: the new handle, the old object's handle, and the
machine.\<close>

definition task_move :: "nat option \<Rightarrow> nat option \<times> nat option" where
  "task_move other = (other, None)"

definition task_assign :: "nat option \<Rightarrow> nat option \<Rightarrow> ('s, 'v) machine \<Rightarrow> nat option \<times> nat option \<times> ('s, 'v) machine" where
  "task_assign this other M = (other, None, task_destroy this M)"

definition task_done :: "nat option \<Rightarrow> ('s, 'v) machine \<Rightarrow> bool" where
  "task_done h M =
     (case h of
        None \<Rightarrow> True
      | Some f \<Rightarrow> (case m_frames M f of None \<Rightarrow> False | Some fr \<Rightarrow> (case fr_place fr of Final \<Rightarrow> True | _ \<Rightarrow> False)))"

definition await_ready :: "nat option \<Rightarrow> ('s, 'v) machine \<Rightarrow> bool" where
  "await_ready h M = task_done h M"

definition await_suspend :: "nat option \<Rightarrow> nat \<Rightarrow> ('s, 'v) machine \<Rightarrow> ('s, 'v) machine" where
  "await_suspend h caller M =
     (case h of
        None \<Rightarrow> M
      | Some f \<Rightarrow> resume f (set_promise f (\<lambda>pr. pr\<lparr>pr_continuation := Some caller\<rparr>) M))"

text \<open>\<open>None\<close> where the code dereferences an empty \<open>optional\<close> or a null handle.\<close>

definition await_resume :: "nat option \<Rightarrow> ('s, 'v) machine \<Rightarrow> (exn + 'v) option" where
  "await_resume h M =
     (case Option.bind h (m_frames M) of
        None \<Rightarrow> None
      | Some fr \<Rightarrow>
          (case pr_exception (fr_promise fr) of
             Some e \<Rightarrow> Some (Inl e)
           | None \<Rightarrow> map_option Inr (pr_value (fr_promise fr))))"

section \<open>Running\<close>

text \<open>
  One step of the frame that has control; \<open>None\<close> when control is in the event loop, or when the code
  would touch a frame that does not exist.
\<close>

definition frame_step :: "nat \<Rightarrow> ('s, 'v) place \<Rightarrow> ('s, 'v) machine \<Rightarrow> ('s, 'v) machine option" where
  "frame_step f pl M =
     (case pl of
        At (CoReturn v) \<Rightarrow> Some (final_suspend f (return_value f v M))
      | At (CoThrow e) \<Rightarrow> Some (final_suspend f (unhandled_exception f e M))
      | At (CoAct act k) \<Rightarrow>
          (case act (m_state M) of
             None \<Rightarrow> Some (M\<lparr>m_current := None, m_depth := 0\<rparr>)
           | Some ((suspended, v), s) \<Rightarrow>
               Some (set_place f (At (k v)) (M\<lparr>m_state := s, m_depth := (if suspended then 1 else m_depth M)\<rparr>)))
      | At (CoAwait c k) \<Rightarrow>
          (case get_return_object c M of (h, M) \<Rightarrow>
             (let M = set_place f (Awaiting (the h) k) M
              in Some (if await_ready h M then M else await_suspend h f M)))
      | Awaiting n k \<Rightarrow>
          (case await_resume (Some n) M of
             None \<Rightarrow> None
           | Some r \<Rightarrow> Some (set_place f (At (k r)) (task_destroy (Some n) M)))
      | Final \<Rightarrow> None)"

definition machine_step :: "('s, 'v) machine \<Rightarrow> ('s, 'v) machine option" where
  "machine_step M =
     (case m_current M of
        None \<Rightarrow> None
      | Some f \<Rightarrow> (case m_frames M f of None \<Rightarrow> None | Some fr \<Rightarrow> frame_step f (fr_place fr) M))"

fun machine_steps :: "nat \<Rightarrow> ('s, 'v) machine \<Rightarrow> ('s, 'v) machine option" where
  "machine_steps 0 M = Some M"
| "machine_steps (Suc n) M = Option.bind (machine_step M) (machine_steps n)"

text \<open>Until control is back in the event loop.\<close>

partial_function (option) machine_run :: "('s, 'v) machine \<Rightarrow> ('s, 'v) machine option" where
  "machine_run M =
     (if m_current M = None then Some M
      else Option.bind (machine_step M) machine_run)"

text \<open>\<open>Task::result\<close>, called outside of a coroutine: one \<open>resume\<close>, then the promise is read.\<close>

definition task_result :: "nat option \<Rightarrow> ('s, 'v) machine \<Rightarrow> (exn + 'v) option" where
  "task_result h M =
     (case h of
        None \<Rightarrow> None
      | Some f \<Rightarrow>
          (if task_done h M then await_resume h M
           else Option.bind (machine_run (resume f M)) (await_resume h)))"

definition machine_init :: "'s \<Rightarrow> ('s, 'v) machine" where
  "machine_init s = \<lparr>m_frames = (\<lambda>_. None), m_next = 0, m_current = None, m_depth = 0, m_state = s, m_destroyed = []\<rparr>"

text \<open>How the event loop starts a coroutine: it makes the task, and resumes it if it is not done.\<close>

definition task_start :: "('s, 'v) prog \<Rightarrow> 's \<Rightarrow> ('s, 'v) machine" where
  "task_start p s = (case get_return_object p (machine_init s) of (h, M) \<Rightarrow> if task_done h M then M else resume (the h) M)"

section \<open>The state function of a body\<close>

primrec prog_co :: "('s, 'v) prog \<Rightarrow> ('s, 'v) co" where
  "prog_co (CoReturn v) = co_return v"
| "prog_co (CoThrow e) = (\<lambda>s. Some (Inl e, s))"
| "prog_co (CoAct act k) = (\<lambda>s. case act s of None \<Rightarrow> None | Some (r, s') \<Rightarrow> prog_co (k (snd r)) s')"
| "prog_co (CoAwait c k) = (\<lambda>s. case prog_co c s of None \<Rightarrow> None | Some (r, s') \<Rightarrow> prog_co (k r) s')"

end
