(* ===== verification/Tasks_Props.thy ===== *)
theory Tasks_Props
  imports Tasks
begin

text \<open>
  Tasks implement the state functions by which all other theories describe coroutines: running a body
  on the machine of frames, with its promises, continuations and nested resumes, gives what \<open>prog_co\<close>
  says, and every frame but the first is destroyed exactly once.
\<close>

lemma machine_steps_add: "machine_steps (m + n) M = Option.bind (machine_steps m M) (machine_steps n)"
  by (induction m arbitrary: M) (auto split: option.split simp: bind_eq_Some_conv split: bind_split)

lemma steps_trans: "machine_steps m M = Some M' \<Longrightarrow> machine_steps n M' = r \<Longrightarrow> machine_steps (m + n) M = r"
  by (simp add: machine_steps_add)

definition set_result :: "exn + 'v \<Rightarrow> 'v promise \<Rightarrow> 'v promise" where
  "set_result r pr = (case r of Inl e \<Rightarrow> pr\<lparr>pr_exception := Some e\<rparr> | Inr v \<Rightarrow> pr\<lparr>pr_value := Some v\<rparr>)"

text \<open>Frame \<open>f\<close> has control before the body \<open>p\<close>, in state \<open>s\<close>.\<close>

definition ready :: "('s, 'v) machine \<Rightarrow> nat \<Rightarrow> ('s, 'v) prog \<Rightarrow> 'v promise \<Rightarrow> 's \<Rightarrow> bool" where
  "ready M f p pr s \<longleftrightarrow> m_current M = Some f \<and> m_frames M f = Some \<lparr>fr_place = At p, fr_promise = pr\<rparr> \<and>
     pr_value pr = None \<and> pr_exception pr = None \<and> m_state M = s \<and> f < m_next M \<and> (\<forall>i\<ge>m_next M. m_frames M i = None)"

text \<open>What has changed when the body has run: the state, the promise, and frames that came and went.\<close>

definition changed :: "('s, 'v) machine \<Rightarrow> nat \<Rightarrow> 's \<Rightarrow> ('s, 'v) machine \<Rightarrow> bool" where
  "changed M f s M' \<longleftrightarrow> m_state M' = s \<and> m_next M \<le> m_next M' \<and> (\<forall>i<m_next M. i \<noteq> f \<longrightarrow> m_frames M' i = m_frames M i) \<and>
     (\<forall>i\<ge>m_next M. m_frames M' i = None) \<and>
     (\<exists>ds. m_destroyed M' = m_destroyed M @ ds \<and> distinct ds \<and> set ds = {m_next M..<m_next M'})"

definition finished :: "('s, 'v) machine \<Rightarrow> nat \<Rightarrow> 'v promise \<Rightarrow> exn + 'v \<Rightarrow> 's \<Rightarrow> ('s, 'v) machine \<Rightarrow> bool" where
  "finished M f pr r s M' \<longleftrightarrow> changed M f s M' \<and>
     m_frames M' f = Some \<lparr>fr_place = Final, fr_promise = set_result r pr\<rparr> \<and>
     m_current M' = pr_continuation pr"

lemma changed_trans:
  assumes "changed M f s M'" and "changed M' f s' M''" and "f < m_next M"
  shows "changed M f s' M''"
proof -
  obtain ds ds' where ds: "m_destroyed M' = m_destroyed M @ ds" "distinct ds" "set ds = {m_next M..<m_next M'}"
    "m_destroyed M'' = m_destroyed M' @ ds'" "distinct ds'" "set ds' = {m_next M'..<m_next M''}"
    using assms(1,2) unfolding changed_def by blast
  have le: "m_next M \<le> m_next M'" "m_next M' \<le> m_next M''"
    using assms(1,2) by (simp_all add: changed_def)
  have "m_frames M'' i = None" if "i \<ge> m_next M" for i
    using assms that by (cases "i < m_next M'") (auto simp: changed_def)
  moreover have "m_frames M'' i = m_frames M i" if "i < m_next M" "i \<noteq> f" for i
    using assms that le by (auto simp: changed_def)
  moreover have "distinct (ds @ ds')" "set (ds @ ds') = {m_next M..<m_next M''}"
    using ds le by (auto simp: disjoint_iff)
  ultimately show ?thesis
    using assms(2) le ds by (auto simp: changed_def)
qed

lemma task_return:
  assumes "ready M f (CoReturn v) pr s"
  shows "\<exists>M'. machine_steps 1 M = Some M' \<and> finished M f pr (Inr v) s M'"
  using assms
  by (cases "pr_continuation pr")
    (auto simp: ready_def machine_step_def frame_step_def return_value_def set_promise_def set_place_def final_suspend_def
      resume_def finished_def changed_def set_result_def Let_def)

lemma task_throw:
  assumes "ready M f (CoThrow e) pr s"
  shows "\<exists>M'. machine_steps 1 M = Some M' \<and> finished M f pr (Inl e) s M'"
  using assms
  by (cases "pr_continuation pr")
    (auto simp: ready_def machine_step_def frame_step_def unhandled_exception_def set_promise_def set_place_def
      final_suspend_def resume_def finished_def changed_def set_result_def Let_def)

lemma task_act:
  assumes "ready M f (CoAct act k) pr s" and "act s = Some ((suspended, v), s')"
  shows "\<exists>M'. machine_steps 1 M = Some M' \<and> ready M' f (k v) pr s' \<and> changed M f s' M'"
  using assms
  by (auto simp: ready_def machine_step_def frame_step_def set_place_def changed_def)

text \<open>\<open>co_await\<close>: the new frame has control, and its end gives control back with its result.\<close>

lemma task_await:
  assumes "ready M f (CoAwait c k) pr s"
  shows "\<exists>M'. machine_steps 1 M = Some M' \<and> ready M' (m_next M) c (promise_init\<lparr>pr_continuation := Some f\<rparr>) s \<and>
    m_next M' = m_next M + 1 \<and> m_frames M' f = Some \<lparr>fr_place = Awaiting (m_next M) k, fr_promise = pr\<rparr> \<and>
    (\<forall>i<m_next M. i \<noteq> f \<longrightarrow> m_frames M' i = m_frames M i) \<and> m_destroyed M' = m_destroyed M"
  using assms
  by (auto simp: ready_def machine_step_def frame_step_def get_return_object_def set_place_def await_ready_def task_done_def
      await_suspend_def set_promise_def resume_def promise_init_def Let_def)

lemma task_awaited:
  assumes "finished M' (m_next M) (promise_init\<lparr>pr_continuation := Some f\<rparr>) r s' M''" and "f < m_next M"
    and "m_next M' = m_next M + 1" and "m_frames M' f = Some \<lparr>fr_place = Awaiting (m_next M) k, fr_promise = pr\<rparr>"
    and "\<forall>i<m_next M. i \<noteq> f \<longrightarrow> m_frames M' i = m_frames M i" and "m_destroyed M' = m_destroyed M"
    and "pr_value pr = None" and "pr_exception pr = None"
  shows "\<exists>N. machine_steps 1 M'' = Some N \<and> ready N f (k r) pr s' \<and> changed M f s' N"
proof -
  have f: "m_frames M'' f = Some \<lparr>fr_place = Awaiting (m_next M) k, fr_promise = pr\<rparr>" "m_current M'' = Some f"
    using assms(1-4) by (auto simp: finished_def changed_def)
  have child: "await_resume (Some (m_next M)) M'' = Some r"
    using assms(1) by (cases r) (auto simp: finished_def await_resume_def set_result_def promise_init_def)
  let ?N = "set_place f (At (k r)) (task_destroy (Some (m_next M)) M'')"
  have "machine_steps 1 M'' = Some ?N"
    using f child by (simp add: machine_step_def frame_step_def)
  moreover obtain ds where ds: "m_destroyed M'' = m_destroyed M @ ds" "distinct ds" "set ds = {m_next M + 1..<m_next M''}"
    "m_next M + 1 \<le> m_next M''"
    using assms(1,3,6) by (auto simp: finished_def changed_def)
  have "distinct (ds @ [m_next M])" "set (ds @ [m_next M]) = {m_next M..<m_next M''}"
    using ds by auto
  with ds(1,4) assms(1,2,3,5) have "changed M f s' ?N"
    by (auto simp: finished_def changed_def set_place_def task_destroy_def)
  moreover have "ready ?N f (k r) pr s'"
    using f assms(1,2,3,7,8) ds(4) by (auto simp: ready_def finished_def changed_def set_place_def task_destroy_def)
  ultimately show ?thesis by blast
qed

lemma body_finishes:
  "prog_co p s = Some (r, s') \<Longrightarrow> ready M f p pr s \<Longrightarrow> \<exists>n M'. machine_steps n M = Some M' \<and> finished M f pr r s' M'"
proof (induction p arbitrary: M f pr s r s')
  case (CoReturn v)
  then have "r = Inr v" "s' = s" by simp_all
  with task_return [OF CoReturn(2)] show ?case by blast
next
  case (CoThrow e)
  then have "r = Inl e" "s' = s" by simp_all
  with task_throw [OF CoThrow(2)] show ?case by blast
next
  case (CoAct act k)
  then obtain suspended v t where act: "act s = Some ((suspended, v), t)" "prog_co (k v) t = Some (r, s')"
    by (auto split: option.splits)
  from task_act [OF CoAct.prems(2) act(1)] obtain M' where M': "machine_steps 1 M = Some M'" "ready M' f (k v) pr t" "changed M f t M'"
    by blast
  from CoAct.IH [OF _ act(2) M'(2)] obtain n N where N: "machine_steps n M' = Some N" "finished M' f pr r s' N"
    by blast
  have "finished M f pr r s' N"
    using changed_trans [OF M'(3)] N(2) CoAct.prems(2) by (auto simp: finished_def ready_def)
  with steps_trans [OF M'(1) N(1)] show ?case by blast
next
  case (CoAwait c k)
  then obtain q t where c: "prog_co c s = Some (q, t)" "prog_co (k q) t = Some (r, s')"
    by (auto split: option.splits)
  from task_await [OF CoAwait.prems(2)] obtain M1 where M1: "machine_steps 1 M = Some M1"
    "ready M1 (m_next M) c (promise_init\<lparr>pr_continuation := Some f\<rparr>) s" "m_next M1 = m_next M + 1"
    "m_frames M1 f = Some \<lparr>fr_place = Awaiting (m_next M) k, fr_promise = pr\<rparr>"
    "\<forall>i<m_next M. i \<noteq> f \<longrightarrow> m_frames M1 i = m_frames M i" "m_destroyed M1 = m_destroyed M"
    by blast
  from CoAwait.IH(1) [OF c(1) M1(2)] obtain n M2 where M2: "machine_steps n M1 = Some M2"
    "finished M1 (m_next M) (promise_init\<lparr>pr_continuation := Some f\<rparr>) q t M2"
    by blast
  have pr: "f < m_next M" "pr_value pr = None" "pr_exception pr = None"
    using CoAwait.prems(2) by (simp_all add: ready_def)
  from task_awaited [OF M2(2) pr(1) M1(3-6) pr(2,3)] obtain M3 where M3: "machine_steps 1 M2 = Some M3" "ready M3 f (k q) pr t"
    "changed M f t M3"
    by blast
  from CoAwait.IH(2) [OF _ c(2) M3(2)] obtain m N where N: "machine_steps m M3 = Some N" "finished M3 f pr r s' N"
    by blast
  have "finished M f pr r s' N"
    using changed_trans [OF M3(3) _ pr(1)] N(2) by (auto simp: finished_def)
  with steps_trans [OF M1(1) steps_trans [OF M2(1) steps_trans [OF M3(1) N(1)]]] show ?case by blast
qed

text \<open>An operation that never completes leaves the frame before its end, with control in the event loop.\<close>

definition stuck :: "nat \<Rightarrow> ('s, 'v) machine \<Rightarrow> bool" where
  "stuck f M \<longleftrightarrow> m_current M = None \<and> \<not> task_done (Some f) M \<and> await_resume (Some f) M = None"

lemma body_suspends:
  "prog_co p s = None \<Longrightarrow> ready M f p pr s \<Longrightarrow> \<exists>n M'. machine_steps n M = Some M' \<and> m_current M' = None \<and>
    (\<forall>i<m_next M. i \<noteq> f \<longrightarrow> m_frames M' i = m_frames M i) \<and> stuck f M'"
proof (induction p arbitrary: M f pr s)
  case (CoAct act k)
  show ?case
  proof (cases "act s")
    case None
    let ?M = "M\<lparr>m_current := None, m_depth := 0\<rparr>"
    have "machine_steps 1 M = Some ?M" "stuck f ?M"
      using CoAct.prems(2) None by (auto simp: ready_def machine_step_def frame_step_def stuck_def task_done_def await_resume_def)
    then show ?thesis by (intro exI [of _ 1] exI [of _ ?M]) simp
  next
    case (Some x)
    then obtain suspended v t where act: "act s = Some ((suspended, v), t)" "prog_co (k v) t = None"
      using CoAct.prems(1) by (cases x) auto
    from task_act [OF CoAct.prems(2) act(1)] obtain M' where M': "machine_steps 1 M = Some M'" "ready M' f (k v) pr t" "changed M f t M'"
      by blast
    from CoAct.IH [OF _ act(2) M'(2)] obtain n N where "machine_steps n M' = Some N" "m_current N = None"
      "\<forall>i<m_next M'. i \<noteq> f \<longrightarrow> m_frames N i = m_frames M' i" "stuck f N"
      by blast
    with steps_trans [OF M'(1)] M'(3) show ?thesis
      by (intro exI [of _ "1 + n"] exI [of _ N]) (auto simp: changed_def)
  qed
next
  case (CoAwait c k)
  from task_await [OF CoAwait.prems(2)] obtain M1 where M1: "machine_steps 1 M = Some M1"
    "ready M1 (m_next M) c (promise_init\<lparr>pr_continuation := Some f\<rparr>) s" "m_next M1 = m_next M + 1"
    "m_frames M1 f = Some \<lparr>fr_place = Awaiting (m_next M) k, fr_promise = pr\<rparr>"
    "\<forall>i<m_next M. i \<noteq> f \<longrightarrow> m_frames M1 i = m_frames M i" "m_destroyed M1 = m_destroyed M"
    by blast
  have pr: "f < m_next M" "pr_value pr = None" "pr_exception pr = None"
    using CoAwait.prems(2) by (simp_all add: ready_def)
  show ?case
  proof (cases "prog_co c s")
    case None
    from CoAwait.IH(1) [OF None M1(2)] obtain n N where "machine_steps n M1 = Some N" "m_current N = None"
      "\<forall>i<m_next M1. i \<noteq> m_next M \<longrightarrow> m_frames N i = m_frames M1 i"
      by blast
    with steps_trans [OF M1(1)] M1 pr show ?thesis
      by (intro exI [of _ "1 + n"] exI [of _ N]) (auto simp: stuck_def task_done_def await_resume_def)
  next
    case (Some x)
    then obtain q t where c: "prog_co c s = Some (q, t)" "prog_co (k q) t = None"
      using CoAwait.prems(1) by (cases x) auto
    from body_finishes [OF c(1) M1(2)] obtain n M2 where M2: "machine_steps n M1 = Some M2"
      "finished M1 (m_next M) (promise_init\<lparr>pr_continuation := Some f\<rparr>) q t M2"
      by blast
    from task_awaited [OF M2(2) pr(1) M1(3-6) pr(2,3)] obtain M3 where M3: "machine_steps 1 M2 = Some M3" "ready M3 f (k q) pr t"
      "changed M f t M3"
      by blast
    from CoAwait.IH(2) [OF _ c(2) M3(2)] obtain m N where "machine_steps m M3 = Some N" "m_current N = None"
      "\<forall>i<m_next M3. i \<noteq> f \<longrightarrow> m_frames N i = m_frames M3 i" "stuck f N"
      by blast
    with steps_trans [OF M1(1) steps_trans [OF M2(1) steps_trans [OF M3(1)]]] M3(3) show ?thesis
      by (intro exI [of _ "1 + (n + (1 + m))"] exI [of _ N]) (auto simp: changed_def)
  qed
qed simp_all

text \<open>C13: Tasks implement the state functions by which this development describes coroutines. A coroutine started by
the event loop, with everything it awaits: if its state function yields a value or an exception, the
machine of promises and continuations reaches the end of the coroutine with exactly this result in
the promise and the same state, control is back in the event loop, and every frame created for an
awaited coroutine has been destroyed, once; if the state function suspends for ever, the coroutine
never ends and control is in the event loop.\<close>

theorem tasks_implement_co:
  "case prog_co p s of
     Some (r, s') \<Rightarrow> \<exists>n M. machine_steps n (task_start p s) = Some M \<and> m_current M = None \<and> task_done (Some 0) M \<and>
       await_resume (Some 0) M = Some r \<and> m_state M = s' \<and> dom (m_frames M) = {0} \<and>
       distinct (m_destroyed M) \<and> set (m_destroyed M) = {1..<m_next M}
   | None \<Rightarrow> \<exists>n M. machine_steps n (task_start p s) = Some M \<and> m_current M = None \<and> \<not> task_done (Some 0) M"
proof -
  have ready: "ready (task_start p s) 0 p promise_init s" "m_next (task_start p s) = 1" "m_destroyed (task_start p s) = []"
    by (simp_all add: task_start_def get_return_object_def machine_init_def task_done_def resume_def ready_def promise_init_def)
  show ?thesis
  proof (cases "prog_co p s")
    case None
    with body_suspends [OF None ready(1)] show ?thesis by (auto simp: stuck_def)
  next
    case (Some x)
    then obtain r s' where x: "prog_co p s = Some (r, s')" by (cases x) auto
    from body_finishes [OF x ready(1)] obtain n M where M: "machine_steps n (task_start p s) = Some M"
      "finished (task_start p s) 0 promise_init r s' M"
      by blast
    then have "await_resume (Some 0) M = Some r"
      by (cases r) (auto simp: finished_def await_resume_def set_result_def promise_init_def)
    with M ready(2,3) show ?thesis
      unfolding x by (auto simp: finished_def changed_def task_done_def promise_init_def Suc_le_eq dom_def
        intro!: exI [of _ n] exI [of _ M])
  qed
qed

section \<open>Calls from outside of a coroutine\<close>

lemma machine_run_steps:
  "machine_steps n M = Some M' \<Longrightarrow> m_current M' = None \<Longrightarrow> machine_run M = Some M'"
proof (induction n arbitrary: M)
  case (Suc n)
  then obtain N where "machine_step M = Some N" "machine_steps n N = Some M'"
    by (auto simp: bind_eq_Some_conv)
  moreover from this obtain f where "m_current M = Some f"
    by (auto simp: machine_step_def split: option.splits)
  ultimately show ?case
    using Suc by (simp add: machine_run.simps [of M])
qed (simp add: machine_run.simps)

text \<open>\<open>result\<close> of a fresh task is the coroutine's result, unless the coroutine suspends for ever: then the code reads an
empty \<open>optional\<close>.\<close>

lemma result_of_fresh_task:
  "task_result (Some 0) (snd (get_return_object p (machine_init s))) = map_option fst (prog_co p s)"
proof -
  let ?M = "snd (get_return_object p (machine_init s))"
  have start: "\<not> task_done (Some 0) ?M" "ready (resume 0 ?M) 0 p promise_init s"
    by (simp_all add: get_return_object_def machine_init_def task_done_def resume_def ready_def promise_init_def)
  show ?thesis
  proof (cases "prog_co p s")
    case None
    from body_suspends [OF None start(2)] obtain n M' where "machine_steps n (resume 0 ?M) = Some M'" "m_current M' = None"
      "await_resume (Some 0) M' = None"
      by (auto simp: stuck_def)
    with None start(1) show ?thesis by (simp add: task_result_def machine_run_steps)
  next
    case (Some x)
    then obtain r t where x: "prog_co p s = Some (r, t)" by (cases x) auto
    from body_finishes [OF x start(2)] obtain n M' where M': "machine_steps n (resume 0 ?M) = Some M'"
      "finished (resume 0 ?M) 0 promise_init r t M'"
      by blast
    then have "await_resume (Some 0) M' = Some r" "m_current M' = None"
      by (cases r; auto simp: finished_def await_resume_def set_result_def promise_init_def)+
    with x start(1) M'(1) show ?thesis by (simp add: task_result_def machine_run_steps)
  qed
qed

end
