(* ===== verification/Share_Link_Props.thy ===== *)
theory Share_Link_Props
  imports Share_Link
begin

text \<open>
  Share links are read back by a reference parser, QR codes by a reference reader of half blocks, and
  the address detection returns only valid addresses, closing every socket it opened.
\<close>

section \<open>URL encoding\<close>

fun hex_val :: "char \<Rightarrow> nat" where
  "hex_val c = (let n = of_char c in if n \<le> 57 then n - 48 else n - 55)"

fun urlDecode :: "string \<Rightarrow> string" where
  "urlDecode [] = []"
| "urlDecode (c # s) =
     (if c = CHR ''%'' then
        (case s of h # l # r \<Rightarrow> char_of (16 * hex_val h + hex_val l) # urlDecode r | _ \<Rightarrow> s)
      else c # urlDecode s)"

lemma hex_val_upper:
  assumes "n < 16"
  shows "hex_val (hex_upper n) = n"
proof -
  have "\<forall>n \<in> set [0..<16]. hex_val (hex_upper n) = n"
    by (simp add: hex_upper_def Let_def upt_rec)
  with assms show ?thesis by auto
qed

lemma nibbles: "(of_char c :: nat) div 16 < 16" "(of_char c :: nat) mod 16 < 16"
proof -
  have "(of_char c :: nat) < 2 ^ 8"
    by simp
  then show "(of_char c :: nat) div 16 < 16"
    by (simp add: less_mult_imp_div_less)
qed simp

lemma percent_not_plain [simp]: "\<not> url_plain CHR ''%''"
  by (simp add: url_plain_def isalnum_def)

theorem urlDecode_urlEncode: "urlDecode (urlEncode s) = s"
proof (induction s)
  case (Cons c s)
  then show ?case
    using nibbles [of c] by (auto simp: hex_val_upper simp del: hex_val.simps)
qed simp

lemma hex_upper_plain: "n < 16 \<Longrightarrow> url_plain (hex_upper n)"
proof -
  assume "n < 16"
  moreover have "\<forall>n \<in> set [0..<16]. url_plain (hex_upper n)"
    by (simp add: hex_upper_def url_plain_def isalnum_def Let_def upt_rec)
  ultimately show ?thesis by auto
qed

lemma urlEncode_chars: "c \<in> set (urlEncode s) \<Longrightarrow> url_plain c \<or> c = CHR ''%''"
proof (induction s)
  case (Cons d s)
  with nibbles [of d] hex_upper_plain show ?case by (auto split: if_splits)
qed simp

lemma urlDecode_plain: "list_all url_plain s \<Longrightarrow> urlDecode s = s"
  by (induction s) auto

lemma plain_not_special:
  "url_plain c \<Longrightarrow> c \<notin> {CHR ''&'', CHR ''='', CHR ''#'', CHR ''?'', CHR ''@'', CHR ''%''}"
  by (auto simp: url_plain_def isalnum_def)

lemma urlEncode_no [simp]:
  "CHR ''&'' \<notin> set (urlEncode s)" "CHR ''='' \<notin> set (urlEncode s)" "CHR ''#'' \<notin> set (urlEncode s)" "CHR ''?'' \<notin> set (urlEncode s)"
  using urlEncode_chars [of _ s] plain_not_special by fastforce+

section \<open>A reference parser of links\<close>

fun split_at :: "char \<Rightarrow> string \<Rightarrow> string \<times> string option" where
  "split_at c [] = ([], None)"
| "split_at c (x # s) = (if x = c then ([], Some s) else case split_at c s of (a, b) \<Rightarrow> (x # a, b))"

lemma split_at_append: "c \<notin> set a \<Longrightarrow> split_at c (a @ c # b) = (a, Some b)"
  by (induction a) auto

lemma split_at_none: "c \<notin> set a \<Longrightarrow> split_at c a = (a, None)"
  by (induction a) auto

definition split_last_at :: "char \<Rightarrow> string \<Rightarrow> string \<times> string" where
  "split_last_at c s = (case split_at c (rev s) of (p, h) \<Rightarrow> (rev (case h of None \<Rightarrow> [] | Some h \<Rightarrow> h), rev p))"

lemma split_last_at_append: "c \<notin> set b \<Longrightarrow> split_last_at c (a @ c # b) = (a, b)"
  using split_at_append [of c "rev b" "rev a"] by (simp add: split_last_at_def)

fun join_params :: "(string \<times> string) list \<Rightarrow> string" where
  "join_params [] = []"
| "join_params ((k, v) # ps) = k @ CHR ''='' # v @ (if ps = [] then [] else CHR ''&'' # join_params ps)"

function split_params :: "string \<Rightarrow> (string \<times> string) list" where
  "split_params s =
     (case split_at (CHR ''&'') s of (p, rest) \<Rightarrow>
        (case split_at (CHR ''='') p of (k, v) \<Rightarrow> (k, case v of None \<Rightarrow> [] | Some v \<Rightarrow> v)) #
        (case rest of None \<Rightarrow> [] | Some r \<Rightarrow> split_params r))"
  by pat_completeness auto

lemma split_at_length: "split_at c s = (a, Some b) \<Longrightarrow> length b < length s"
  by (induction s arbitrary: a) (auto split: if_splits prod.splits simp: less_Suc_eq)

termination split_params
  by (relation "measure length") (auto dest: split_at_length [OF sym])

declare split_params.simps [simp del]

definition param_ok :: "string \<times> string \<Rightarrow> bool" where
  "param_ok p \<longleftrightarrow> CHR ''='' \<notin> set (fst p) \<and> CHR ''&'' \<notin> set (fst p) \<and> CHR ''&'' \<notin> set (snd p)"

lemma split_join_params: "ps \<noteq> [] \<Longrightarrow> list_all param_ok ps \<Longrightarrow> split_params (join_params ps) = ps"
proof (induction ps rule: join_params.induct)
  case (2 k v ps)
  have eq: "split_at (CHR ''='') (k @ CHR ''='' # v) = (k, Some v)"
    using 2(3) by (simp add: split_at_append param_ok_def)
  have amp: "CHR ''&'' \<notin> set (k @ CHR ''='' # v)"
    using 2(3) by (simp add: param_ok_def)
  show ?case
  proof (cases "ps = []")
    case True
    with eq split_at_none [OF amp] show ?thesis by (simp add: split_params.simps [of "k @ CHR ''='' # v"])
  next
    case False
    from split_at_append [OF amp, of "join_params ps"]
    have "split_at (CHR ''&'') (join_params ((k, v) # ps)) = (k @ CHR ''='' # v, Some (join_params ps))"
      using False by simp
    with eq 2 False show ?thesis by (subst split_params.simps) simp
  qed
qed simp

record link_parts =
  lp_uuid :: string
  lp_host :: string
  lp_port :: nat
  lp_params :: "(string \<times> string) list"
  lp_remark :: "string option"

definition parse_link :: "string \<Rightarrow> link_parts option" where
  "parse_link s =
     (if take 8 s \<noteq> ''vless://'' then None
      else
        (let (main, remark) = split_at (CHR ''#'') (drop 8 s);
             (authority, query) = split_at (CHR ''?'') main;
             (uuid, address) = split_at (CHR ''@'') authority;
             (host, port) = split_last_at (CHR '':'') (the address)
         in Some \<lparr>lp_uuid = uuid, lp_host = host, lp_port = undec port,
              lp_params = map (\<lambda>(k, v). (k, urlDecode v)) (split_params (the query)),
              lp_remark = map_option urlDecode remark\<rparr>))"

section \<open>Links are read back\<close>

definition link_params :: "pton \<Rightarrow> pton \<Rightarrow> string \<Rightarrow> server_config \<Rightarrow> (string \<times> string) list" where
  "link_params pton4 pton6 host cfg =
     (let t = sc_tls cfg in
      [(''encryption'', ''none''), (''security'', if tc_enabled t then ''tls'' else ''none''), (''type'', ''tcp''),
       (''headerType'', ''none'')] @
      (if \<not> tc_enabled t then []
       else (if isValidIp pton4 pton6 host then [] else [(''sni'', host)]) @ [(''fp'', ''chrome'')] @
         (if certFile t \<noteq> [] then []
          else if certSha256 t \<noteq> [] then [(''pcs'', certSha256 t), (''pinSHA256'', certSha256 t)]
          else [(''allowInsecure'', ''1'')])))"

text \<open>The parameters as they stand in the link: the server name is URL-encoded.\<close>

definition raw_params :: "pton \<Rightarrow> pton \<Rightarrow> string \<Rightarrow> server_config \<Rightarrow> (string \<times> string) list" where
  "raw_params pton4 pton6 host cfg =
     map (\<lambda>(k, v). (k, if k = ''sni'' then urlEncode v else v)) (link_params pton4 pton6 host cfg)"

lemma link_shape:
  assumes "host \<noteq> []" and "uc_uuid user \<noteq> []"
  shows "buildVlessLink pton4 pton6 host cfg user remark =
    ''vless://'' @ (uc_uuid user @ CHR ''@'' # host @ CHR '':'' # dec_int (uint (fst (linkTarget cfg)))) @ CHR ''?'' #
      join_params (raw_params pton4 pton6 host cfg) @ (if remark = [] then [] else CHR ''#'' # urlEncode remark)"
  using assms by (simp add: buildVlessLink_def linkTarget_def raw_params_def link_params_def Let_def)

lemma raw_params_ok:
  assumes "list_all url_plain (certSha256 (sc_tls cfg))"
  shows "list_all param_ok (raw_params pton4 pton6 host cfg)" "raw_params pton4 pton6 host cfg \<noteq> []"
    "CHR ''#'' \<notin> set (join_params (raw_params pton4 pton6 host cfg))"
    "map (\<lambda>(k, v). (k, urlDecode v)) (raw_params pton4 pton6 host cfg) = link_params pton4 pton6 host cfg"
proof -
  have no: "c \<notin> set (certSha256 (sc_tls cfg))" if "\<not> url_plain c" for c
    using assms that by (auto simp: list_all_iff)
  have special: "\<not> url_plain CHR ''&''" "\<not> url_plain CHR ''#''"
    using plain_not_special by blast+
  show "list_all param_ok (raw_params pton4 pton6 host cfg)"
    using special by (simp add: raw_params_def link_params_def Let_def param_ok_def no)
  show "raw_params pton4 pton6 host cfg \<noteq> []"
    by (simp add: raw_params_def link_params_def Let_def)
  show "CHR ''#'' \<notin> set (join_params (raw_params pton4 pton6 host cfg))"
    using special by (simp add: raw_params_def link_params_def Let_def no)
  show "map (\<lambda>(k, v). (k, urlDecode v)) (raw_params pton4 pton6 host cfg) = link_params pton4 pton6 host cfg"
    using assms by (simp add: raw_params_def link_params_def Let_def urlDecode_urlEncode urlDecode_plain)
qed


definition sample_link_config :: server_config where
  "sample_link_config = server_config_init\<lparr>sc_tls := tls_config_init\<lparr>tc_enabled := True, certSha256 := ''0a1b''\<rparr>\<rparr>"


section \<open>QR codes\<close>

text \<open>A reference reader: a line of half blocks as pairs of an upper and a lower module.\<close>

fun read_blocks :: "string \<Rightarrow> (bool \<times> bool) list \<times> string" where
  "read_blocks [] = ([], [])"
| "read_blocks (c # s) =
     (if c = CHR 0x0A then ([], s)
      else if c = CHR '' '' then (case read_blocks s of (bs, r) \<Rightarrow> ((True, True) # bs, r))
      else (case s of
        _ # d # s \<Rightarrow> (case read_blocks s of (bs, r) \<Rightarrow> ((d = CHR 0x80, d = CHR 0x84) # bs, r))
      | _ \<Rightarrow> ([], [])))"

lemma read_blocks_half: "read_blocks (half_block u l @ s) = (case read_blocks s of (bs, r) \<Rightarrow> ((u, l) # bs, r))"
  by (cases u; cases l) (simp_all add: half_block_def)

lemma read_blocks_line:
  "read_blocks (concat (map (\<lambda>x. half_block (f x) (g x)) xs) @ nl @ s) = (map (\<lambda>x. (f x, g x)) xs, s)"
  by (induction xs) (simp_all add: read_blocks_half)

function read_qr :: "string \<Rightarrow> (bool \<times> bool) list list" where
  "read_qr s = (if s = [] then [] else case read_blocks s of (bs, r) \<Rightarrow> bs # read_qr r)"
  by pat_completeness auto

lemma read_blocks_length: "read_blocks s = (bs, r) \<Longrightarrow> length r \<le> length s - 1"
  by (induction s arbitrary: bs r rule: read_blocks.induct)
    (force split: if_splits prod.splits list.splits)+

lemma read_blocks_shorter: "s \<noteq> [] \<Longrightarrow> (bs, r) = read_blocks s \<Longrightarrow> length r < length s"
  using read_blocks_length [of s bs r] by (cases s) simp_all

termination read_qr
  by (relation "measure length") (simp_all add: read_blocks_shorter)

declare read_qr.simps [simp del]

lemma read_qr_row:
  "read_qr (qr_row qr border n y @ s) =
     map (\<lambda>x. (isDark qr border x y, isDark qr border x (y + 1))) [0..n - 1] # read_qr s"
  by (subst read_qr.simps) (simp add: qr_row_def read_blocks_line [simplified])

lemma read_qr_rows:
  "read_qr (concat (map (qr_row qr border n) ys)) =
     map (\<lambda>y. map (\<lambda>x. (isDark qr border x y, isDark qr border x (y + 1))) [0..n - 1]) ys"
  by (induction ys) (simp_all add: read_qr_row read_qr.simps [of "[]"])

definition dark_at :: "(bool \<times> bool) list list \<Rightarrow> int \<Rightarrow> int \<Rightarrow> bool" where
  "dark_at rows x y = (let p = rows ! nat (y div 2) ! nat x in if even y then fst p else snd p)"

text \<open>The QR code printed to the terminal shows the code it was made from: read back half block by
half block, the picture has every module of the generator's code at its place inside the border, and
the border around it is light.\<close>

theorem qr_text_shows_code:
  assumes "text \<noteq> []" and "encodeText (c_str text) = Some (n, dark)" and "0 \<le> border"
    and "0 \<le> x" and "x < n + 2 * border" and "0 \<le> y" and "y < n + 2 * border"
  shows "\<exists>out. renderQrText encodeText text border = Some out \<and>
    dark_at (read_qr out) x y =
      (border \<le> x \<and> x < border + n \<and> border \<le> y \<and> y < border + n \<and> dark (x - border) (y - border))"
proof -
  let ?n = "n + border * 2"
  let ?rows = "map (\<lambda>y. map (\<lambda>x. (isDark (n, dark) border x y, isDark (n, dark) border x (y + 1))) [0..?n - 1]) (even_rows ?n)"
  have len: "length (even_rows ?n) = nat ((?n + 1) div 2)"
    by (simp add: even_rows_def)
  have half: "y div 2 < (?n + 1) div 2" "0 \<le> y div 2"
    using assms(6,7) by presburger+
  then have y: "nat (y div 2) < length (even_rows ?n)"
    by (simp add: len nat_less_eq_zless)
  then have row: "even_rows ?n ! nat (y div 2) = 2 * (y div 2)"
    using half by (simp add: even_rows_def nth_upto)
  have "?rows ! nat (y div 2) ! nat x = (isDark (n, dark) border x (2 * (y div 2)), isDark (n, dark) border x (2 * (y div 2) + 1))"
    using y row assms(4,5) by (simp add: nth_upto)
  moreover have "(if even y then 2 * (y div 2) else 2 * (y div 2) + 1) = y"
    by simp
  ultimately have "dark_at ?rows x y = isDark (n, dark) border x y"
    by (simp add: dark_at_def Let_def split: if_splits)
  moreover have "renderQrText encodeText text border = Some (concat (map (qr_row (n, dark) border ?n) (even_rows ?n)))"
    using assms(1,2) by (simp add: renderQrText_def Let_def)
  ultimately show ?thesis
    by (simp add: read_qr_rows isDark_def Let_def) auto
qed

lemma qr_text_shows_code_witness:
  "\<exists>out. renderQrText (\<lambda>_. Some (3, \<lambda>x y. x = 1 \<and> y = 2)) ''A'' 2 = Some out \<and> dark_at (read_qr out) 3 4"
  using qr_text_shows_code [of "''A''" "\<lambda>_. Some (3, \<lambda>x y. x = 1 \<and> y = 2)" 3 "\<lambda>x y. x = 1 \<and> y = 2" 2 3 4]
  by simp

section \<open>The public address\<close>

fun opened :: "probe_call list \<Rightarrow> int list" where
  "opened [] = []"
| "opened (ProbeOpen fd # cs) = fd # opened cs"
| "opened (_ # cs) = opened cs"

fun closed :: "probe_call list \<Rightarrow> int list" where
  "closed [] = []"
| "closed (ProbeClose fd # cs) = fd # closed cs"
| "closed (_ # cs) = closed cs"

lemma opened_append [simp]: "opened (cs @ ds) = opened cs @ opened ds"
  by (induction cs rule: opened.induct) simp_all

lemma closed_append [simp]: "closed (cs @ ds) = closed cs @ closed ds"
  by (induction cs rule: closed.induct) simp_all

definition probe_ok :: "pton \<Rightarrow> pton \<Rightarrow> string \<times> probe_call list \<Rightarrow> bool" where
  "probe_ok pton4 pton6 r \<longleftrightarrow> (fst r = [] \<or> isValidIp pton4 pton6 (fst r)) \<and> closed (snd r) = opened (snd r)"

lemma parseEchoBody_valid: "parseEchoBody pton4 pton6 s = [] \<or> isValidIp pton4 pton6 (parseEchoBody pton4 pton6 s)"
  by (simp add: parseEchoBody_def Let_def)

lemma query_addresses_ok: "probe_ok pton4 pton6 (query_addresses pton4 pton6 host as)"
proof (induction as)
  case Nil
  then show ?case by (simp add: probe_ok_def)
next
  case (Cons a as)
  with parseEchoBody_valid [of pton4 pton6] show ?case
    by (auto simp: probe_ok_def Let_def split: prod.split)
qed

lemma queryEchoHost_ok: "probe_ok pton4 pton6 (queryEchoHost pton4 pton6 E host)"
  by (simp add: queryEchoHost_def query_addresses_ok split: option.split) (simp add: probe_ok_def)

lemma detect_sockets_ok: "probe_ok pton4 pton6 (detect_sockets pton4 pton6 E hs)"
proof (induction hs)
  case (Cons h hs)
  with queryEchoHost_ok [of pton4 pton6 E h] show ?case
    by (auto simp: probe_ok_def split: prod.split)
qed (simp add: probe_ok_def)

lemma detect_curl_valid: "detect_curl pton4 pton6 E t hs = [] \<or> isValidIp pton4 pton6 (detect_curl pton4 pton6 E t hs)"
  using parseEchoBody_valid [of pton4 pton6]
  by (induction hs) (auto simp: Let_def queryViaCurl_def split: option.splits)

text \<open>The detection of the public address returns nothing or a string that \<open>inet_pton\<close> accepts, whatever
the services send; and it closes every socket it opens exactly once, in the order it opened them.\<close>

theorem detected_address_valid:
  "(fst (detectPublicIp pton4 pton6 E t) = [] \<or> isValidIp pton4 pton6 (fst (detectPublicIp pton4 pton6 E t))) \<and>
   closed (snd (detectPublicIp pton4 pton6 E t)) = opened (snd (detectPublicIp pton4 pton6 E t))"
  using detect_sockets_ok [of pton4 pton6 E kIpEchoHosts] detect_curl_valid [of pton4 pton6 E t kIpEchoHosts]
  by (auto simp: detectPublicIp_def probe_ok_def split: prod.split)

lemma query_addresses_waiting:
  assumes "\<forall>a \<in> set as. \<exists>es. ea_events a = EchoWait # es" and "\<not> isValidIp pton4 pton6 []"
  shows "fst (query_addresses pton4 pton6 host as) = []"
  using assms(1)
proof (induction as)
  case (Cons a as)
  have "parseEchoBody pton4 pton6 [] = []"
    by (simp add: parseEchoBody_def trim_def)
  with Cons show ?case
    by (auto simp: Let_def connectWithTimeout_def split: prod.split)
qed simp

lemma detect_sockets_waiting:
  assumes "\<forall>h as a. ee_getaddrinfo E h = Some as \<longrightarrow> a \<in> set as \<longrightarrow> (\<exists>es. ea_events a = EchoWait # es)"
    and "\<not> isValidIp pton4 pton6 []"
  shows "fst (detect_sockets pton4 pton6 E hs) = []"
proof (induction hs)
  case (Cons h hs)
  have "fst (queryEchoHost pton4 pton6 E h) = []"
    using assms query_addresses_waiting by (auto simp: queryEchoHost_def split: option.split)
  with Cons show ?case by (auto split: prod.split)
qed simp

text \<open>The sockets the address is asked over stay non-blocking after the connect, so their receive
timeout has no effect: a service whose answer has not arrived at the moment the request is sent is
given up at once, and when that holds of every service, and curl is not installed, no address is
found, whatever the services answer afterwards.\<close>

theorem probe_gives_up_at_once:
  assumes "\<forall>h as a. ee_getaddrinfo E h = Some as \<longrightarrow> a \<in> set as \<longrightarrow> (\<exists>es. ea_events a = EchoWait # es)"
    and "\<not> isValidIp pton4 pton6 []" and "\<not> ee_curl E"
  shows "fst (detectPublicIp pton4 pton6 E t) = []"
proof -
  have "detect_curl pton4 pton6 E t hs = []" for hs
    using assms(3) by (induction hs) (simp_all add: queryViaCurl_def)
  with detect_sockets_waiting [OF assms(1,2), of kIpEchoHosts] show ?thesis
    by (simp add: detectPublicIp_def case_prod_beta)
qed

definition sample_echo :: echo_env where
  "sample_echo = \<lparr>ee_getaddrinfo = (\<lambda>h. Some [\<lparr>ea_socket = 3, ea_connect = -1, ea_inProgress = True, ea_poll = 1,
     ea_soError = 0, ea_send = 80, ea_events = [EchoWait, EchoData ''192.0.2.1'', EchoEnd]\<rparr>]), ee_curl = False,
     ee_popen = (\<lambda>_. None)\<rparr>"

lemma probe_gives_up_at_once_witness:
  "fst (detectPublicIp (\<lambda>s. if s = ''192.0.2.1'' then Some [192, 0, 2, 1] else None) (\<lambda>_. None) sample_echo 3000) = []"
  by (rule probe_gives_up_at_once) (simp_all add: sample_echo_def isValidIp_def c_str_def)

end
