(* ===== verification/Logger_Props.thy ===== *)
theory Logger_Props
  imports Logger "HOL-Library.Sublist"
begin

text \<open>
  The logger under any interleaving: lines come out in order, each exactly once or counted as dropped;
  the queue and the batches stay within their bounds; and after \<open>shutdown\<close> the worker drains the queue
  and ends.
\<close>

section \<open>What a run has done\<close>

fun lines :: "log_event list \<Rightarrow> string list" where
  "lines [] = []"
| "lines (EvLine full # evs) = full # lines evs"
| "lines (_ # evs) = lines evs"

lemma lines_append [simp]: "lines (evs @ evs') = lines evs @ lines evs'"
  by (induction evs rule: lines.induct) simp_all

text \<open>The lines written to the standard error, and the dropped lines reported there.\<close>

fun err_lines :: "log_write list \<Rightarrow> string list" where
  "err_lines [] = []"
| "err_lines (WriteBatch fd batch # ws) = (if fd = 2 then batch else []) @ err_lines ws"
| "err_lines (WriteNotice n # ws) = err_lines ws"

fun reported :: "log_write list \<Rightarrow> nat" where
  "reported [] = 0"
| "reported (WriteBatch fd batch # ws) = reported ws"
| "reported (WriteNotice n # ws) = n + reported ws"

lemma write_simps [simp]:
  "err_lines (ws @ vs) = err_lines ws @ err_lines vs" "reported (ws @ vs) = reported ws + reported vs"
  by (induction ws rule: err_lines.induct) simp_all

text \<open>The lines the worker has taken but not written yet, and the count it is about to report.\<close>

fun held :: "log_worker \<Rightarrow> string list" where
  "held (WriteErr batch) = batch"
| "held _ = []"

fun pending :: "log_worker \<Rightarrow> nat" where
  "pending (Report n) = n"
| "pending _ = 0"

fun busy :: "log_worker \<Rightarrow> bool" where
  "busy (WriteErr batch) = True"
| "busy (WriteFile fd batch) = True"
| "busy TakeDropped = True"
| "busy _ = False"

fun batch_ok :: "log_write \<Rightarrow> bool" where
  "batch_ok (WriteBatch fd batch) = (batch \<noteq> [] \<and> length batch \<le> kBatchLimit)"
| "batch_ok (WriteNotice n) = (0 < n)"

fun worker_ok :: "log_worker \<Rightarrow> bool" where
  "worker_ok (WriteErr batch) = (batch \<noteq> [] \<and> length batch \<le> kBatchLimit)"
| "worker_ok (WriteFile fd batch) = (fd \<noteq> 2 \<and> batch \<noteq> [] \<and> length batch \<le> kBatchLimit)"
| "worker_ok (Report n) = (0 < n)"
| "worker_ok _ = True"

definition logger_inv :: "string list \<Rightarrow> logger \<Rightarrow> bool" where
  "logger_inv ls s \<longleftrightarrow>
     (\<exists>kept. subseq kept ls \<and> err_lines (lg_writes s) @ held (lg_worker s) @ lg_queue s = kept \<and>
        length ls = length kept + lg_dropped s + pending (lg_worker s) + reported (lg_writes s)) \<and>
     length (lg_queue s) \<le> kMaxQueueSize \<and> list_all batch_ok (lg_writes s) \<and> worker_ok (lg_worker s) \<and>
     lg_fileFd s \<noteq> 2 \<and>
     (lg_worker s \<noteq> Finished \<and> 0 < lg_dropped s \<longrightarrow> lg_queue s \<noteq> [] \<or> busy (lg_worker s))"

lemma kBatchLimit_pos: "0 < kBatchLimit"
  by (simp add: kBatchLimit_def)

lemma kMaxQueueSize_pos: "0 < kMaxQueueSize"
  by (simp add: kMaxQueueSize_def)

lemma logger_inv_init: "logger_inv [] logger_init"
  by (simp add: logger_inv_def logger_init_def)

lemma logger_inv_enqueue: "logger_inv ls s \<Longrightarrow> logger_inv (ls @ [full]) (enqueue full s)"
proof (cases "length (lg_queue s) \<ge> kMaxQueueSize")
  case True
  assume inv: "logger_inv ls s"
  have "subseq kept (ls @ [full])" if "subseq kept ls" for kept
    using that by (rule list_emb_prefix)
  with inv True kMaxQueueSize_pos show ?thesis
    by (auto simp: logger_inv_def enqueue_def)
next
  case False
  assume inv: "logger_inv ls s"
  then have "subseq (err_lines (lg_writes s) @ held (lg_worker s) @ lg_queue s) ls"
    by (auto simp: logger_inv_def)
  then have "subseq ((err_lines (lg_writes s) @ held (lg_worker s) @ lg_queue s) @ [full]) (ls @ [full])"
    by (rule list_emb_append_mono) simp
  with inv False show ?thesis
    by (auto simp: logger_inv_def enqueue_def)
qed

lemma logger_inv_worker: "logger_inv ls s \<Longrightarrow> logger_inv ls (logger_step EvWorker s)"
  by (cases "lg_worker s")
    (auto simp: logger_inv_def workerLoop_step_def Let_def min_def kBatchLimit_pos split: if_splits)

lemma logger_inv_run:
  assumes "\<forall>path fd. EvFile path fd \<in> set evs \<longrightarrow> fd \<noteq> 2"
  shows "logger_inv (lines evs) (logger_run evs)"
  using assms
proof (induction evs rule: rev_induct)
  case Nil
  then show ?case by (simp add: logger_run_def logger_inv_init)
next
  case (snoc e evs)
  then have inv: "logger_inv (lines evs) (fold logger_step evs logger_init)"
    by (auto simp: logger_run_def)
  show ?case
  proof (cases e)
    case (EvLine full)
    with logger_inv_enqueue [OF inv] show ?thesis by (simp add: logger_run_def)
  next
    case (EvFile path fd)
    with inv snoc.prems show ?thesis by (auto simp: logger_run_def setLogFile_def logger_inv_def)
  next
    case EvShutdown
    with inv show ?thesis by (simp add: logger_run_def shutdown_begin_def logger_inv_def)
  next
    case EvWorker
    with logger_inv_worker [OF inv] show ?thesis by (simp add: logger_run_def)
  qed
qed

text \<open>C34: Whatever the order in which threads log, call \<open>setLogFile\<close> or \<open>shutdown\<close>, and the worker runs: the
lines written to the standard error, then those the worker holds, then those in the queue are a
subsequence of the lines logged, in their order, each exactly once; the lines missing are counted
exactly, as dropped or as reported in a notice; the queue never exceeds its limit, and no batch is
empty or longer than 1024 lines.\<close>

theorem logger_conserves_lines:
  assumes "\<forall>path fd. EvFile path fd \<in> set evs \<longrightarrow> fd \<noteq> 2"
  shows "let s = logger_run evs; kept = err_lines (lg_writes s) @ held (lg_worker s) @ lg_queue s in
    subseq kept (lines evs) \<and>
    length (lines evs) = length kept + lg_dropped s + pending (lg_worker s) + reported (lg_writes s) \<and>
    length (lg_queue s) \<le> 100000 \<and>
    (\<forall>fd batch. WriteBatch fd batch \<in> set (lg_writes s) \<longrightarrow> batch \<noteq> [] \<and> length batch \<le> 1024)"
proof -
  have inv: "logger_inv (lines evs) (logger_run evs)"
    by (rule logger_inv_run [OF assms])
  then have "\<forall>fd batch. WriteBatch fd batch \<in> set (lg_writes (logger_run evs)) \<longrightarrow> batch \<noteq> [] \<and> length batch \<le> 1024"
    by (auto simp: logger_inv_def list_all_iff kBatchLimit_def)
  with inv show ?thesis
    by (simp add: logger_inv_def Let_def kMaxQueueSize_def)
qed

definition sample_log_events :: "log_event list" where
  "sample_log_events = [EvLine ''a'', EvFile ''x.log'' 4, EvWorker, EvLine ''b'', EvWorker, EvWorker, EvShutdown]"

lemma logger_conserves_lines_witness:
  "subseq [''a'', ''b''] (lines sample_log_events) \<and>
    lg_writes (logger_run sample_log_events) = [WriteBatch 2 [''a''], WriteBatch 4 [''a'']]"
  using logger_conserves_lines [of sample_log_events]
  by (simp add: sample_log_events_def logger_run_def logger_init_def enqueue_def setLogFile_def workerLoop_step_def
      shutdown_begin_def kMaxQueueSize_def kBatchLimit_def Let_def)

section \<open>Shutdown\<close>

definition work :: "logger \<Rightarrow> nat" where
  "work s = 5 * length (lg_queue s) +
     (case lg_worker s of Waiting \<Rightarrow> 1 | WriteErr _ \<Rightarrow> 5 | WriteFile _ _ \<Rightarrow> 4 | TakeDropped \<Rightarrow> 3 | Report _ \<Rightarrow> 2 | Finished \<Rightarrow> 0)"

definition drained :: "logger \<Rightarrow> bool" where
  "drained s \<longleftrightarrow> lg_worker s = Finished \<and> lg_queue s = [] \<and> lg_dropped s = 0"

lemma worker_stop: "lg_stop (logger_step EvWorker s) = lg_stop s"
  by (cases "lg_worker s") (simp_all add: workerLoop_step_def Let_def)

lemma worker_progress:
  "lg_stop s \<Longrightarrow> lg_worker s \<noteq> Finished \<Longrightarrow> work (logger_step EvWorker s) < work s"
  by (cases "lg_worker s") (auto simp: workerLoop_step_def work_def Let_def min_def kBatchLimit_def length_greater_0_conv [symmetric]
      simp del: length_greater_0_conv)

lemma worker_finishes:
  "logger_inv ls s \<Longrightarrow> lg_stop s \<Longrightarrow> lg_worker s \<noteq> Finished \<Longrightarrow> logger_step EvWorker s = t \<Longrightarrow>
    lg_worker t = Finished \<Longrightarrow> drained t"
  by (cases "lg_worker s") (auto simp: logger_inv_def workerLoop_step_def drained_def Let_def split: if_splits)

lemma drained_stays: "drained s \<Longrightarrow> drained (worker_steps n s)"
  by (induction n) (simp_all add: drained_def workerLoop_step_def)

lemma worker_drains:
  "logger_inv ls s \<Longrightarrow> lg_stop s \<Longrightarrow> lg_worker s \<noteq> Finished \<or> drained s \<Longrightarrow> work s \<le> n \<Longrightarrow> drained (worker_steps n s)"
proof (induction n arbitrary: s)
  case 0
  then show ?case by (cases "lg_worker s") (auto simp: work_def)
next
  case (Suc n)
  show ?case
  proof (cases "lg_worker s = Finished")
    case True
    with Suc.prems have "drained s" by simp
    then show ?thesis by (rule drained_stays)
  next
    case False
    let ?t = "logger_step EvWorker s"
    have "work ?t \<le> n"
      using worker_progress [OF Suc.prems(2) False] Suc.prems(4) by simp
    moreover have "lg_worker ?t \<noteq> Finished \<or> drained ?t"
      using worker_finishes [OF Suc.prems(1,2) False refl] by blast
    ultimately show ?thesis
      using Suc.IH [of ?t] logger_inv_worker [OF Suc.prems(1)] worker_stop [of s] Suc.prems(2)
      by (simp del: logger_step.simps)
  qed
qed

lemma steps_run: "worker_steps n (logger_run evs) = logger_run (evs @ replicate n EvWorker)"
proof (induction n arbitrary: evs)
  case (Suc n)
  show ?case
    using Suc [of "evs @ [EvWorker]"] by (simp add: logger_run_def)
qed simp

lemma lines_workers [simp]: "lines (replicate n EvWorker) = []"
  by (induction n) simp_all

text \<open>C35: Shutdown drains: once \<open>shutdown\<close> has been called (and the worker has not already ended), the
worker left to itself ends within five steps per queued line and five more; by then every line ever
logged has been written to the standard error, in order, or is counted in a notice.\<close>

theorem shutdown_drains:
  assumes "\<forall>path fd. EvFile path fd \<in> set evs \<longrightarrow> fd \<noteq> 2" and "lg_stop (logger_run evs)"
    and "lg_worker (logger_run evs) \<noteq> Finished"
  shows "let t = worker_steps (5 * length (lg_queue (logger_run evs)) + 5) (logger_run evs) in
    lg_worker t = Finished \<and> lg_queue t = [] \<and> subseq (err_lines (lg_writes t)) (lines evs) \<and>
    length (lines evs) = length (err_lines (lg_writes t)) + reported (lg_writes t)"
proof -
  let ?n = "5 * length (lg_queue (logger_run evs)) + 5"
  have "work (logger_run evs) \<le> ?n"
    by (cases "lg_worker (logger_run evs)") (simp_all add: work_def)
  then have drained: "drained (worker_steps ?n (logger_run evs))"
    using worker_drains [OF logger_inv_run [OF assms(1)] assms(2)] assms(3) by blast
  have "\<forall>path fd. EvFile path fd \<in> set (evs @ replicate ?n EvWorker) \<longrightarrow> fd \<noteq> 2"
    using assms(1) by auto
  from logger_inv_run [OF this] have "logger_inv (lines evs) (worker_steps ?n (logger_run evs))"
    unfolding steps_run by simp
  with drained show ?thesis
    unfolding Let_def by (simp add: logger_inv_def drained_def)
qed

lemma shutdown_drains_witness:
  "let t = worker_steps 10 (logger_run sample_log_events) in
    lg_worker t = Finished \<and> lg_queue t = [] \<and> subseq (err_lines (lg_writes t)) [''a'', ''b''] \<and>
    2 = length (err_lines (lg_writes t)) + reported (lg_writes t)"
proof -
  have s: "lg_stop (logger_run sample_log_events)" "lg_worker (logger_run sample_log_events) \<noteq> Finished"
    "lg_queue (logger_run sample_log_events) = [''b'']" "lines sample_log_events = [''a'', ''b'']"
    "\<forall>path fd. EvFile path fd \<in> set sample_log_events \<longrightarrow> fd \<noteq> 2"
    by (simp_all add: sample_log_events_def logger_run_def logger_init_def enqueue_def setLogFile_def workerLoop_step_def
        shutdown_begin_def kMaxQueueSize_def kBatchLimit_def Let_def)
  have ten: "5 * length [''b''] + 5 = (10 :: nat)" "length [''a'', ''b''] = (2 :: nat)"
    by simp_all
  show ?thesis
    using shutdown_drains [OF s(5,1,2)] unfolding s(3,4) ten .
qed

end
