(* ===== verification/Sockets.thy ===== *)
theory Sockets
  imports Sys_Interface Socks5 "HOL-Library.Signed_Division"
begin

text \<open>
  The blocking socket classes (include/net/socket.h, src/net/socket.cpp), which the tests build
  their clients from: \<open>Socket\<close> with its ownership of a descriptor, \<open>ServerSocket\<close>,
  \<open>ClientSocket\<close>, and the functions of \<open>SocketUtil\<close>.

  The kernel is a record: the open descriptors, the calls of \<open>close\<close> with whether the descriptor
  was open, and the status flags. What it answers to a call is a parameter (\<open>answers\<close>).
\<close>

section \<open>Errors and addresses\<close>

datatype SocketError =
    ErrNone | CreateFailed | BindFailed | ListenFailed | ConnectFailed | AcceptFailed | SendFailed | RecvFailed
  | SetOptionFailed | TimeoutError | PeerClosed | UnknownError

text \<open>The numbers of errno(3) on Linux.\<close>

definition errnoToSocketError :: "int \<Rightarrow> SocketError" where
  "errnoToSocketError err =
     (if err = 0 then ErrNone
      else if err \<in> {13, 97, 22, 93} then CreateFailed
      else if err \<in> {98, 99} then BindFailed
      else if err \<in> {95, 71} then ListenFailed
      else if err \<in> {111, 101, 113} then ConnectFailed
      else if err \<in> {9, 88} then UnknownError
      else if err = 11 then TimeoutError
      else if err \<in> {108, 104} then PeerClosed
      else UnknownError)"

fun errorToString :: "SocketError \<Rightarrow> string" where
  "errorToString ErrNone = ''No error''"
| "errorToString CreateFailed = ''Socket create failed''"
| "errorToString BindFailed = ''Bind failed''"
| "errorToString ListenFailed = ''Listen failed''"
| "errorToString ConnectFailed = ''Connect failed''"
| "errorToString AcceptFailed = ''Accept failed''"
| "errorToString SendFailed = ''Send failed''"
| "errorToString RecvFailed = ''Recv failed''"
| "errorToString SetOptionFailed = ''Set socket option failed''"
| "errorToString TimeoutError = ''Operation timeout''"
| "errorToString PeerClosed = ''Peer closed connection''"
| "errorToString UnknownError = ''Unknown error''"

record IPAddress =
  ia_ip :: string
  ia_port :: "16 word"

definition IPAddress_init :: IPAddress where
  "IPAddress_init = \<lparr>ia_ip = ''0.0.0.0'', ia_port = 0\<rparr>"

definition IPAddress_toString :: "IPAddress \<Rightarrow> string" where
  "IPAddress_toString a = ia_ip a @ '':'' @ dec_nat (unat (ia_port a))"

text \<open>A \<open>sockaddr\<close> with its length, read as a \<open>sockaddr_in\<close> whatever its family is: address and port.\<close>

definition toIPAddress :: "(bytes \<times> 16 word) option \<Rightarrow> nat \<Rightarrow> IPAddress" where
  "toIPAddress addr addrlen =
     (case addr of
        None \<Rightarrow> IPAddress_init
      | Some (ip, port) \<Rightarrow>
          if addrlen < 16 then IPAddress_init else \<lparr>ia_ip = dotted_quad ip, ia_port = port\<rparr>)"

section \<open>The kernel\<close>

record sock_kernel =
  k_open :: "int list"
  k_closed :: "(int \<times> bool) list"
  k_flags :: "int \<Rightarrow> 32 word"

record answers =
  an_socket :: int
  an_getfl :: bool
  an_setfl :: bool
  an_bind :: "sockaddr \<Rightarrow> int"
  an_listen :: "int \<Rightarrow> int"
  an_accept :: int
  an_peer :: "bytes \<times> 16 word"
  an_pton :: "string \<Rightarrow> bytes option"
  an_connect :: "sockaddr \<Rightarrow> int"
  an_inProgress :: bool
  an_select :: "int \<times> int \<Rightarrow> int"
  an_soError :: "int option"

text \<open>A descriptor the kernel returned, and \<open>::close\<close>.\<close>

definition k_new :: "int \<Rightarrow> sock_kernel \<Rightarrow> sock_kernel" where
  "k_new fd k = (if fd < 0 then k else k\<lparr>k_open := fd # k_open k, k_flags := (k_flags k)(fd := 0)\<rparr>)"

definition k_close :: "int \<Rightarrow> sock_kernel \<Rightarrow> sock_kernel" where
  "k_close fd k = k\<lparr>k_open := remove1 fd (k_open k), k_closed := k_closed k @ [(fd, fd \<in> set (k_open k))]\<rparr>"

definition O_NONBLOCK :: "32 word" where
  "O_NONBLOCK = 0x800"

section \<open>Socket\<close>

text \<open>The object is its \<open>fd_\<close>.\<close>

definition socket_destroy :: "int \<Rightarrow> sock_kernel \<Rightarrow> sock_kernel" where
  "socket_destroy fd k = (if fd \<ge> 0 then k_close fd k else k)"

definition socket_close :: "int \<Rightarrow> sock_kernel \<Rightarrow> int \<times> sock_kernel" where
  "socket_close fd k = (if fd \<ge> 0 then (-1, k_close fd k) else (fd, k))"

definition socket_valid :: "int \<Rightarrow> bool" where
  "socket_valid fd \<longleftrightarrow> fd \<ge> 0"

definition setNonBlocking :: "answers \<Rightarrow> bool \<Rightarrow> int \<Rightarrow> sock_kernel \<Rightarrow> bool \<times> sock_kernel" where
  "setNonBlocking a enable fd k =
     (if fd < 0 then (False, k)
      else if \<not> an_getfl a then (False, k)
      else
        (let flags = k_flags k fd;
             flags = (if enable then flags OR O_NONBLOCK else flags AND NOT O_NONBLOCK)
         in if an_setfl a then (True, k\<lparr>k_flags := (k_flags k)(fd := flags)\<rparr>) else (False, k)))"

text \<open>\<open>setReuseAddr\<close>, \<open>setRecvTimeout\<close> and \<open>setSendTimeout\<close>: the option's value and the kernel's answer to it.\<close>

definition setReuseAddr :: "(int \<Rightarrow> int) \<Rightarrow> bool \<Rightarrow> int \<Rightarrow> bool" where
  "setReuseAddr setsockopt enable fd = (if fd < 0 then False else setsockopt (if enable then 1 else 0) = 0)"

definition time_val :: "int \<Rightarrow> int \<times> int" where
  "time_val ms = (ms sdiv 1000, (ms smod 1000) * 1000)"

definition setRecvTimeout :: "(int \<times> int \<Rightarrow> int) \<Rightarrow> int \<Rightarrow> int \<Rightarrow> bool" where
  "setRecvTimeout setsockopt ms fd = (if fd < 0 then False else setsockopt (time_val ms) = 0)"

definition setSendTimeout :: "(int \<times> int \<Rightarrow> int) \<Rightarrow> int \<Rightarrow> int \<Rightarrow> bool" where
  "setSendTimeout setsockopt ms fd = (if fd < 0 then False else setsockopt (time_val ms) = 0)"

text \<open>The result of \<open>::send\<close> is narrowed to \<open>int\<close>.\<close>

definition sock_send :: "(string \<Rightarrow> int) \<Rightarrow> string \<Rightarrow> int \<Rightarrow> int" where
  "sock_send send data fd = (if fd < 0 then -1 else sint (word_of_int (send data) :: 32 word))"

text \<open>
  What \<open>::recv\<close> will deliver: pieces of data, an error (\<open>None\<close>), the end of the stream (an empty
  piece or nothing more). A call takes at most \<open>len\<close> bytes of the first piece.
\<close>

type_synonym recv_script = "string option list"

definition sock_recv :: "nat \<Rightarrow> int \<Rightarrow> recv_script \<Rightarrow> int \<times> string \<times> recv_script" where
  "sock_recv len fd s =
     (if fd < 0 then (-1, [], s)
      else case s of
        [] \<Rightarrow> (0, [], [])
      | None # s' \<Rightarrow> (-1, [], s')
      | Some d # s' \<Rightarrow>
          (if len < length d then (int len, take len d, Some (drop len d) # s')
           else (int (length d), d, s')))"

definition getPeerAddress :: "(int \<Rightarrow> (bytes \<times> 16 word) option) \<Rightarrow> int \<Rightarrow> IPAddress" where
  "getPeerAddress getpeername fd =
     (case getpeername fd of None \<Rightarrow> IPAddress_init | Some (ip, port) \<Rightarrow> \<lparr>ia_ip = dotted_quad ip, ia_port = port\<rparr>)"

definition getLocalAddress :: "(int \<Rightarrow> (bytes \<times> 16 word) option) \<Rightarrow> int \<Rightarrow> IPAddress" where
  "getLocalAddress getsockname fd =
     (case getsockname fd of None \<Rightarrow> IPAddress_init | Some (ip, port) \<Rightarrow> \<lparr>ia_ip = dotted_quad ip, ia_port = port\<rparr>)"

section \<open>ServerSocket\<close>

text \<open>The answer to \<open>setReuseAddr\<close> is not looked at.\<close>

definition server_listen :: "answers \<Rightarrow> 16 word \<Rightarrow> int \<Rightarrow> sock_kernel \<Rightarrow> bool \<times> int \<times> sock_kernel" where
  "server_listen a port backlog k =
     (let fd = an_socket a; k = k_new fd k in
      if fd < 0 then (False, fd, k)
      else if an_bind a (SockaddrIn [0, 0, 0, 0] port) < 0 then (False, -1, k_close fd k)
      else if an_listen a backlog < 0 then (False, -1, k_close fd k)
      else (True, fd, k))"

text \<open>The new object's descriptor, or \<open>None\<close> for \<open>nullptr\<close>.\<close>

definition server_accept :: "answers \<Rightarrow> sock_kernel \<Rightarrow> int option \<times> sock_kernel" where
  "server_accept a k = (if an_accept a < 0 then (None, k) else (Some (an_accept a), k_new (an_accept a) k))"

definition server_accept_address :: "answers \<Rightarrow> IPAddress \<Rightarrow> sock_kernel \<Rightarrow> int option \<times> IPAddress \<times> sock_kernel" where
  "server_accept_address a clientAddr k =
     (if an_accept a < 0 then (None, clientAddr, k)
      else (Some (an_accept a), \<lparr>ia_ip = dotted_quad (fst (an_peer a)), ia_port = snd (an_peer a)\<rparr>,
        k_new (an_accept a) k))"

section \<open>ClientSocket\<close>

definition client_connect :: "answers \<Rightarrow> string \<Rightarrow> 16 word \<Rightarrow> sock_kernel \<Rightarrow> bool \<times> int \<times> sock_kernel" where
  "client_connect a ip port k =
     (let fd = an_socket a; k = k_new fd k in
      if fd < 0 then (False, fd, k)
      else case an_pton a (c_str ip) of
        None \<Rightarrow> (False, -1, k_close fd k)
      | Some addr \<Rightarrow> (an_connect a (SockaddrIn addr port) = 0, fd, k))"

definition client_connect_timeout ::
    "answers \<Rightarrow> string \<Rightarrow> 16 word \<Rightarrow> int \<Rightarrow> sock_kernel \<Rightarrow> bool \<times> int \<times> sock_kernel" where
  "client_connect_timeout a ip port timeoutMs k =
     (let fd = an_socket a; k = k_new fd k in
      if fd < 0 then (False, fd, k)
      else
        (let k = snd (setNonBlocking a True fd k); failed = (False, -1, k_close fd k) in
         case an_pton a (c_str ip) of
           None \<Rightarrow> failed
         | Some addr \<Rightarrow>
             (let ret = an_connect a (SockaddrIn addr port) in
              if ret < 0 \<and> \<not> an_inProgress a then failed
              else if ret = 0 then (True, fd, k)
              else if an_select a (time_val timeoutMs) \<le> 0 then failed
              else case an_soError a of
                None \<Rightarrow> failed
              | Some err \<Rightarrow> (if err \<noteq> 0 then failed else (True, fd, k)))))"

definition sendString :: "(string \<Rightarrow> int) \<Rightarrow> string \<Rightarrow> int \<Rightarrow> int" where
  "sendString send str fd = sock_send send str fd"

abbreviation (input) LF :: char where "LF \<equiv> CHR 0x0A"
abbreviation (input) CR :: char where "CR \<equiv> CHR 0x0D"

definition pop_cr :: "string \<Rightarrow> string" where
  "pop_cr result = (if result \<noteq> [] \<and> last result = CR then butlast result else result)"

function recvLine_loop :: "nat \<Rightarrow> int \<Rightarrow> string \<Rightarrow> recv_script \<Rightarrow> string \<times> recv_script" where
  "recvLine_loop maxLen fd result s =
     (if length result < maxLen then
        (case sock_recv 1 fd s of (n, d, s') \<Rightarrow>
           if n \<le> 0 then (result, s')
           else if hd d = LF then (pop_cr result, s')
           else recvLine_loop maxLen fd (result @ [hd d]) s')
      else (result, s))"
  by pat_completeness auto
termination
  by (relation "measure (\<lambda>(maxLen, fd, result, s). maxLen - length result)") auto

declare recvLine_loop.simps [simp del]

definition recvLine :: "nat \<Rightarrow> int \<Rightarrow> recv_script \<Rightarrow> string \<times> recv_script" where
  "recvLine maxLen fd s = recvLine_loop maxLen fd [] s"

text \<open>\<open>result\<close> is what has been received so far, \<open>total\<close> its length.\<close>

function recvExactly_loop :: "nat \<Rightarrow> int \<Rightarrow> string \<Rightarrow> recv_script \<Rightarrow> string \<times> recv_script" where
  "recvExactly_loop len fd result s =
     (if length result < len then
        (case sock_recv (len - length result) fd s of (n, d, s') \<Rightarrow>
           if n \<le> 0 then (result, s') else recvExactly_loop len fd (result @ d) s')
      else (result, s))"
  by pat_completeness auto

text \<open>What is still to come, up to an error or the end of the stream.\<close>

fun pending_input :: "recv_script \<Rightarrow> string" where
  "pending_input [] = []"
| "pending_input (None # s) = []"
| "pending_input (Some d # s) = (if d = [] then [] else d @ pending_input s)"

lemma sock_recv_data:
  assumes "sock_recv len fd s = (n, d, s')" and "0 < n"
  shows "0 \<le> fd" "d \<noteq> []" "length d \<le> len" "n = int (length d)" "pending_input s = d @ pending_input s'"
proof -
  show "0 \<le> fd"
    using assms by (auto simp: sock_recv_def split: if_splits)
  with assms obtain x r where s: "s = Some x # r"
    by (auto simp: sock_recv_def split: list.splits option.splits if_splits)
  with assms \<open>0 \<le> fd\<close> have "x \<noteq> []"
    by (auto simp: sock_recv_def)
  with assms s \<open>0 \<le> fd\<close> show "d \<noteq> []" "length d \<le> len" "n = int (length d)" "pending_input s = d @ pending_input s'"
    by (auto simp: sock_recv_def append_assoc [symmetric] simp del: append_assoc split: if_splits)
qed

lemma recv_progress: "sock_recv len fd s = (n, d, s') \<Longrightarrow> \<not> n \<le> 0 \<Longrightarrow> 0 < length d"
  using sock_recv_data(2) [of len fd s n d s'] by simp

termination recvExactly_loop
  by (relation "measure (\<lambda>(len, fd, result, s). len - length result)") (auto dest!: recv_progress sym [where t = "sock_recv _ _ _"] intro!: diff_less_mono2)

declare recvExactly_loop.simps [simp del]

definition recvExactly :: "nat \<Rightarrow> int \<Rightarrow> recv_script \<Rightarrow> string \<times> recv_script" where
  "recvExactly len fd s = recvExactly_loop len fd [] s"

section \<open>IPv4 addresses as text\<close>

text \<open>The four bytes of a \<open>uint32_t\<close> in memory order; the targets are little-endian.\<close>

definition u32_bytes :: "32 word \<Rightarrow> bytes" where
  "u32_bytes ip = [ucast ip, ucast (drop_bit 8 ip), ucast (drop_bit 16 ip), ucast (drop_bit 24 ip)]"

definition bytes_u32 :: "bytes \<Rightarrow> 32 word" where
  "bytes_u32 b = ucast (b ! 0) OR push_bit 8 (ucast (b ! 1)) OR push_bit 16 (ucast (b ! 2)) OR push_bit 24 (ucast (b ! 3))"

definition formatIPv4 :: "32 word \<Rightarrow> string" where
  "formatIPv4 ip =
     dec_nat (unat (drop_bit 0 ip AND 0xFF)) @ ''.'' @ dec_nat (unat (drop_bit 8 ip AND 0xFF)) @ ''.'' @
     dec_nat (unat (drop_bit 16 ip AND 0xFF)) @ ''.'' @ dec_nat (unat (drop_bit 24 ip AND 0xFF))"

fun parseIPv4_loop :: "string \<Rightarrow> bytes \<Rightarrow> nat \<Rightarrow> 32 word \<Rightarrow> bytes \<times> nat \<times> 32 word" where
  "parseIPv4_loop [] parts pt value = (parts, pt, value)"
| "parseIPv4_loop (c # cs) parts pt value =
     (if c = CHR ''.'' then
        (if pt + 1 \<ge> 4 then (parts[pt := ucast value], pt + 1, 0)
         else parseIPv4_loop cs (parts[pt := ucast value]) (pt + 1) 0)
      else if is_digit c then parseIPv4_loop cs parts pt (value * 10 + of_nat (digit_val c))
      else parseIPv4_loop cs parts pt value)"

definition parseIPv4 :: "string \<Rightarrow> 32 word" where
  "parseIPv4 ip =
     (case parseIPv4_loop ip [0, 0, 0, 0] 0 0 of (parts, pt, value) \<Rightarrow>
        bytes_u32 (if pt < 4 then parts[pt := ucast value] else parts))"

section \<open>Objects and who owns a descriptor\<close>

text \<open>The live objects by their address.\<close>

record sock_heap =
  sh_fd :: "nat \<Rightarrow> int option"
  sh_kernel :: sock_kernel

definition move_construct :: "nat \<Rightarrow> nat \<Rightarrow> sock_heap \<Rightarrow> sock_heap" where
  "move_construct new other h = h\<lparr>sh_fd := (sh_fd h)(new := sh_fd h other, other := Some (-1))\<rparr>"

definition move_assign :: "nat \<Rightarrow> nat \<Rightarrow> sock_heap \<Rightarrow> sock_heap" where
  "move_assign this other h =
     (if this \<noteq> other then
        h\<lparr>sh_kernel := (case sh_fd h this of None \<Rightarrow> sh_kernel h | Some fd \<Rightarrow> if fd \<ge> 0 then k_close fd (sh_kernel h) else sh_kernel h),
          sh_fd := (sh_fd h)(this := sh_fd h other, other := Some (-1))\<rparr>
      else h)"

text \<open>Running a method that yields a result, a new \<open>fd_\<close> and a new kernel.\<close>

definition on_socket :: "nat \<Rightarrow> (sock_kernel \<Rightarrow> bool \<times> int \<times> sock_kernel) \<Rightarrow> sock_heap \<Rightarrow> sock_heap" where
  "on_socket i m h = (case m (sh_kernel h) of (_, fd, k) \<Rightarrow> h\<lparr>sh_fd := (sh_fd h)(i \<mapsto> fd), sh_kernel := k\<rparr>)"

text \<open>
  The steps of a program that uses these classes: it constructs, moves and destroys objects, and
  calls \<open>listen\<close> and \<open>connect\<close> on objects without a descriptor. The kernel returns no descriptor that
  is open.
\<close>

inductive sock_step :: "sock_heap \<Rightarrow> sock_heap \<Rightarrow> bool" where
  construct: "sh_fd h i = None \<Longrightarrow> sock_step h (h\<lparr>sh_fd := (sh_fd h)(i \<mapsto> -1)\<rparr>)"
| listen: "sh_fd h i = Some fd \<Longrightarrow> \<not> socket_valid fd \<Longrightarrow> an_socket a \<notin> set (k_open (sh_kernel h)) \<Longrightarrow>
    sock_step h (on_socket i (server_listen a port backlog) h)"
| connect: "sh_fd h i = Some fd \<Longrightarrow> \<not> socket_valid fd \<Longrightarrow> an_socket a \<notin> set (k_open (sh_kernel h)) \<Longrightarrow>
    sock_step h (on_socket i (client_connect a ip port) h)"
| connect_timeout: "sh_fd h i = Some fd \<Longrightarrow> \<not> socket_valid fd \<Longrightarrow> an_socket a \<notin> set (k_open (sh_kernel h)) \<Longrightarrow>
    sock_step h (on_socket i (client_connect_timeout a ip port ms) h)"
| accept: "sh_fd h i = None \<Longrightarrow> an_accept a \<notin> set (k_open (sh_kernel h)) \<Longrightarrow>
    server_accept a (sh_kernel h) = (Some fd, k) \<Longrightarrow> sock_step h (h\<lparr>sh_fd := (sh_fd h)(i \<mapsto> fd), sh_kernel := k\<rparr>)"
| flags: "sh_fd h i = Some fd \<Longrightarrow> sock_step h (h\<lparr>sh_kernel := snd (setNonBlocking a b fd (sh_kernel h))\<rparr>)"
| close: "sh_fd h i = Some fd \<Longrightarrow> socket_close fd (sh_kernel h) = (fd', k) \<Longrightarrow>
    sock_step h (h\<lparr>sh_fd := (sh_fd h)(i \<mapsto> fd'), sh_kernel := k\<rparr>)"
| move: "sh_fd h new = None \<Longrightarrow> sh_fd h other = Some fd \<Longrightarrow> sock_step h (move_construct new other h)"
| assign: "sh_fd h this = Some fd \<Longrightarrow> sh_fd h other = Some fd' \<Longrightarrow> sock_step h (move_assign this other h)"
| destroy: "sh_fd h i = Some fd \<Longrightarrow>
    sock_step h (h\<lparr>sh_fd := (sh_fd h)(i := None), sh_kernel := socket_destroy fd (sh_kernel h)\<rparr>)"

definition sock_heap_init :: sock_heap where
  "sock_heap_init = \<lparr>sh_fd = (\<lambda>_. None), sh_kernel = \<lparr>k_open = [], k_closed = [], k_flags = (\<lambda>_. 0)\<rparr>\<rparr>"

inductive sock_reach :: "sock_heap \<Rightarrow> bool" where
  start: "sock_reach sock_heap_init"
| step: "sock_reach h \<Longrightarrow> sock_step h h' \<Longrightarrow> sock_reach h'"

end
