(* ===== verification/Sockets_Props.thy ===== *)
theory Sockets_Props
  imports Sockets
begin

text \<open>
  The socket classes: who owns an open descriptor, what the receiving loops return of the data that
  arrives in pieces, and the text form of IPv4 addresses.
\<close>

section \<open>Ownership\<close>

text \<open>The open descriptor an object holds.\<close>

definition sock_held :: "sock_heap \<Rightarrow> nat \<Rightarrow> int option" where
  "sock_held h i = (case sh_fd h i of None \<Rightarrow> None | Some fd \<Rightarrow> if socket_valid fd then Some fd else None)"

text \<open>
  Every open descriptor is held by exactly one object, every object with a descriptor holds an open
  one, and \<open>close\<close> was only ever called on open descriptors.
\<close>

definition sock_owned :: "sock_heap \<Rightarrow> bool" where
  "sock_owned h \<longleftrightarrow>
     distinct (k_open (sh_kernel h)) \<and> ran (sock_held h) = set (k_open (sh_kernel h)) \<and> inj_on (sock_held h) (dom (sock_held h)) \<and>
     list_all snd (k_closed (sh_kernel h))"

lemma sock_owned_cong:
  assumes "sock_owned h" and "sock_held h' = sock_held h" and "k_open (sh_kernel h') = k_open (sh_kernel h)"
    and "list_all snd (k_closed (sh_kernel h'))"
  shows "sock_owned h'"
  using assms by (simp add: sock_owned_def)

lemma sock_owned_gain:
  assumes "sock_owned h" and "sock_held h i = None" and "fd \<notin> set (k_open (sh_kernel h))"
    and "sock_held h' = (sock_held h)(i \<mapsto> fd)" and "k_open (sh_kernel h') = fd # k_open (sh_kernel h)"
    and "k_closed (sh_kernel h') = k_closed (sh_kernel h)"
  shows "sock_owned h'"
proof -
  have "inj_on ((sock_held h)(i \<mapsto> fd)) (insert i (dom (sock_held h)))"
    using assms(1-3) by (auto simp: sock_owned_def inj_on_def ran_def)
  with assms show ?thesis by (simp add: sock_owned_def)
qed

lemma ran_drop: "inj_on m (dom m) \<Longrightarrow> m i = Some x \<Longrightarrow> ran (m(i := None)) = ran m - {x}"
proof -
  assume inj: "inj_on m (dom m)" and i: "m i = Some x"
  show ?thesis
  proof (intro equalityI subsetI)
    fix y
    assume "y \<in> ran (m(i := None))"
    then obtain a where a: "a \<noteq> i" "m a = Some y" by (auto simp: ran_def split: if_splits)
    have "a = i" if "y = x"
      using inj by (rule inj_onD) (use a i that in auto)
    with a show "y \<in> ran m - {x}" by (auto simp: ran_def)
  next
    fix y
    assume "y \<in> ran m - {x}"
    then obtain a where a: "m a = Some y" "y \<noteq> x" by (auto simp: ran_def)
    with i have "a \<noteq> i" by auto
    with a have "(m(i := None)) a = Some y" by simp
    then show "y \<in> ran (m(i := None))" by (rule ranI)
  qed
qed

lemma sock_held_open: "sock_owned h \<Longrightarrow> sock_held h i = Some fd \<Longrightarrow> fd \<in> set (k_open (sh_kernel h))"
  by (metis sock_owned_def ranI)

lemma sock_held_unique: "sock_owned h \<Longrightarrow> sock_held h i = Some fd \<Longrightarrow> sock_held h j = Some fd \<Longrightarrow> i = j"
  by (rule inj_onD [of "sock_held h" "dom (sock_held h)"]) (auto simp: sock_owned_def)

lemma sock_owned_drop:
  assumes "sock_owned h" and "sock_held h i = Some fd" and "sock_held h' = (sock_held h)(i := None)"
    and "k_open (sh_kernel h') = k_open (k_close fd (sh_kernel h))"
    and "k_closed (sh_kernel h') = k_closed (k_close fd (sh_kernel h))"
  shows "sock_owned h'"
proof -
  have "fd \<in> set (k_open (sh_kernel h))"
    by (rule sock_held_open [OF assms(1,2)])
  moreover have "inj_on ((sock_held h)(i := None)) (dom ((sock_held h)(i := None)))"
    using assms(1) by (auto simp: sock_owned_def inj_on_def dom_def)
  ultimately show ?thesis
    using assms ran_drop [of "sock_held h" i fd] by (simp add: sock_owned_def k_close_def)
qed

lemma sock_owned_transfer:
  assumes "sock_owned h" and "sock_held h i = None" and "i \<noteq> j" and "sock_held h' = (sock_held h)(i := sock_held h j, j := None)"
    and "k_open (sh_kernel h') = k_open (sh_kernel h)" and "k_closed (sh_kernel h') = k_closed (sh_kernel h)"
  shows "sock_owned h'"
proof -
  have "ran ((sock_held h)(i := sock_held h j, j := None)) = ran (sock_held h)"
  proof (intro equalityI subsetI)
    fix x
    assume "x \<in> ran (sock_held h)"
    then obtain a where "sock_held h a = Some x" by (auto simp: ran_def)
    with assms(2,3) have "((sock_held h)(i := sock_held h j, j := None)) (if a = j then i else a) = Some x" by auto
    then show "x \<in> ran ((sock_held h)(i := sock_held h j, j := None))" by (rule ranI)
  qed (auto simp: ran_def split: if_splits)
  moreover have "inj_on ((sock_held h)(i := sock_held h j, j := None)) (dom ((sock_held h)(i := sock_held h j, j := None)))"
    using assms(1-3) by (auto simp: sock_owned_def inj_on_def dom_def)
  ultimately show ?thesis
    using assms by (simp add: sock_owned_def)
qed

lemma k_new_simps [simp]:
  "k_open (k_new fd k) = (if fd < 0 then k_open k else fd # k_open k)" "k_closed (k_new fd k) = k_closed k"
  by (simp_all add: k_new_def)

lemma k_close_simps [simp]:
  "k_open (k_close fd k) = remove1 fd (k_open k)" "k_closed (k_close fd k) = k_closed k @ [(fd, fd \<in> set (k_open k))]"
  by (simp_all add: k_close_def)

lemma setNonBlocking_simps [simp]:
  "k_open (snd (setNonBlocking a b fd k)) = k_open k" "k_closed (snd (setNonBlocking a b fd k)) = k_closed k"
  by (simp_all add: setNonBlocking_def Let_def)

text \<open>What \<open>listen\<close> and both \<open>connect\<close> do to the descriptors: they keep the new one, or close it, or got none.\<close>

definition opens :: "answers \<Rightarrow> sock_kernel \<Rightarrow> int \<times> sock_kernel \<Rightarrow> bool" where
  "opens a k r \<longleftrightarrow>
     (case r of (fd, k') \<Rightarrow>
        (fd = an_socket a \<and> 0 \<le> fd \<and> k_open k' = fd # k_open k \<and> k_closed k' = k_closed k) \<or>
        (fd < 0 \<and> k_open k' = k_open k \<and>
         (k_closed k' = k_closed k \<or> k_closed k' = k_closed k @ [(an_socket a, True)])))"

lemma server_listen_opens: "opens a k (snd (server_listen a port backlog k))"
  by (simp add: opens_def server_listen_def Let_def)

lemma client_connect_opens: "opens a k (snd (client_connect a ip port k))"
  by (simp add: opens_def client_connect_def Let_def split: option.split)

lemma client_connect_timeout_opens: "opens a k (snd (client_connect_timeout a ip port ms k))"
  by (simp add: opens_def client_connect_timeout_def Let_def split: option.split)

lemma sock_held_update [simp]: "sock_held (h\<lparr>sh_kernel := k\<rparr>) = sock_held h"
  by (rule ext) (simp add: sock_held_def)

lemma sock_held_set [simp]:
  "sock_held (h\<lparr>sh_fd := (sh_fd h)(i := v), sh_kernel := k\<rparr>) =
    (sock_held h)(i := (case v of None \<Rightarrow> None | Some fd \<Rightarrow> if socket_valid fd then Some fd else None))"
  by (rule ext) (simp add: sock_held_def)

lemma sock_held_set' [simp]:
  "sock_held (h\<lparr>sh_fd := (sh_fd h)(i := v)\<rparr>) =
    (sock_held h)(i := (case v of None \<Rightarrow> None | Some fd \<Rightarrow> if socket_valid fd then Some fd else None))"
  by (rule ext) (simp add: sock_held_def)

lemma sock_held_nothing: "sock_held h i = None \<Longrightarrow> (sock_held h)(i := None) = sock_held h"
  by (rule fun_upd_idem)

lemma sock_owned_opens:
  assumes "sock_owned h" and "sock_held h i = None" and "an_socket a \<notin> set (k_open (sh_kernel h))"
    and "opens a (sh_kernel h) (snd (m (sh_kernel h)))"
  shows "sock_owned (on_socket i m h)"
proof -
  obtain b fd k where m: "m (sh_kernel h) = (b, fd, k)"
    by (cases "m (sh_kernel h)")
  show ?thesis
  proof (cases "fd < 0")
    case True
    with assms(4) m have k: "k_open k = k_open (sh_kernel h)"
      "k_closed k = k_closed (sh_kernel h) \<or> k_closed k = k_closed (sh_kernel h) @ [(an_socket a, True)]"
      by (auto simp: opens_def)
    show ?thesis
    proof (rule sock_owned_cong [OF assms(1)])
      have "sock_held (on_socket i m h) = (sock_held h)(i := None)"
        using True m by (simp add: on_socket_def socket_valid_def)
      also have "\<dots> = sock_held h"
        by (rule sock_held_nothing [OF assms(2)])
      finally show "sock_held (on_socket i m h) = sock_held h" .
      show "list_all snd (k_closed (sh_kernel (on_socket i m h)))"
        using k(2) m assms(1) by (auto simp: on_socket_def sock_owned_def)
    qed (simp add: on_socket_def m k)
  next
    case False
    with assms(4) m have k: "fd = an_socket a" "k_open k = fd # k_open (sh_kernel h)" "k_closed k = k_closed (sh_kernel h)"
      by (auto simp: opens_def)
    show ?thesis
      by (rule sock_owned_gain [OF assms(1,2,3)]) (use False m k in \<open>simp_all add: on_socket_def socket_valid_def\<close>)
  qed
qed

lemma sock_owned_close:
  assumes "sock_owned h" and "sh_fd h i = Some fd" and "v = None \<or> v = Some (-1)"
  shows "sock_owned (h\<lparr>sh_fd := (sh_fd h)(i := v), sh_kernel := socket_destroy fd (sh_kernel h)\<rparr>)"
proof (cases "socket_valid fd")
  case True
  with assms(2) have sock_held: "sock_held h i = Some fd" by (simp add: sock_held_def)
  show ?thesis
    by (rule sock_owned_drop [OF assms(1) sock_held])
      (use True assms(3) in \<open>auto simp: socket_destroy_def socket_valid_def\<close>)
next
  case False
  with assms(2) have "sock_held h i = None" by (simp add: sock_held_def)
  then have "(sock_held h)(i := None) = sock_held h" by (rule sock_held_nothing)
  moreover have "list_all snd (k_closed (sh_kernel h))"
    using assms(1) by (simp add: sock_owned_def)
  ultimately show ?thesis
    using assms(3) False
    by (intro sock_owned_cong [OF assms(1)]) (auto simp: socket_destroy_def socket_valid_def)
qed

lemma sock_owned_move:
  assumes "sock_owned h" and "sock_held h i = None" and "sh_fd h j = Some fd" and "i \<noteq> j"
  shows "sock_owned (move_construct i j h)"
  by (rule sock_owned_transfer [OF assms(1,2,4)])
    (use assms(3) in \<open>auto simp: move_construct_def sock_held_def socket_valid_def fun_eq_iff\<close>)

lemma sock_owned_assign:
  assumes "sock_owned h" and "sh_fd h i = Some fd" and "sh_fd h j = Some fd'"
  shows "sock_owned (move_assign i j h)"
proof (cases "i = j")
  case False
  let ?h = "h\<lparr>sh_fd := (sh_fd h)(i := Some (-1)), sh_kernel := socket_destroy fd (sh_kernel h)\<rparr>"
  have "sock_owned ?h"
    by (rule sock_owned_close [OF assms(1,2)]) simp
  moreover have "move_construct i j ?h = move_assign i j h"
    using False assms(2) by (simp add: move_construct_def move_assign_def socket_destroy_def)
  ultimately show ?thesis
    using sock_owned_move [of ?h i j fd'] False assms(3) by (simp add: socket_valid_def)
qed (use assms in \<open>simp add: move_assign_def\<close>)

lemma sock_owned_step: "sock_step h h' \<Longrightarrow> sock_owned h \<Longrightarrow> sock_owned h'"
proof (induction rule: sock_step.induct)
  case (construct h i)
  then show ?case
    by (intro sock_owned_cong [OF construct(2)]) (auto simp: sock_held_def socket_valid_def fun_eq_iff sock_owned_def)
next
  case (accept h i a fd k)
  then show ?case
    by (intro sock_owned_gain [OF accept(4), of i fd])
      (auto simp: sock_held_def server_accept_def socket_valid_def fun_eq_iff split: if_splits)
next
  case (flags h i fd a b)
  then show ?case
    by (intro sock_owned_cong [OF flags(2)]) (auto simp: sock_owned_def)
next
  case (close h i fd fd' k)
  then have eq: "k = socket_destroy fd (sh_kernel h)" "fd' = -1 \<or> fd' = fd \<and> \<not> socket_valid fd"
    by (auto simp: socket_close_def socket_destroy_def socket_valid_def split: if_splits)
  then show ?case
  proof (cases "fd' = -1")
    case True
    then show ?thesis
      using sock_owned_close [OF close(3,1), of "Some (-1)"] eq by simp
  next
    case False
    then show ?thesis
      using close eq by (intro sock_owned_cong [OF close(3)])
        (auto simp: sock_held_def socket_destroy_def socket_valid_def fun_eq_iff sock_owned_def)
  qed
next
  case (move h new other fd)
  then show ?case
    by (intro sock_owned_move) (auto simp: sock_held_def)
next
  case (assign h this fd other fd')
  then show ?case by (intro sock_owned_assign)
next
  case (destroy h i fd)
  then show ?case by (intro sock_owned_close) simp_all
qed (auto intro!: sock_owned_opens server_listen_opens client_connect_opens client_connect_timeout_opens simp: sock_held_def)

lemma sock_owned_init: "sock_owned sock_heap_init"
  by (auto simp: sock_owned_def sock_heap_init_def sock_held_def ran_def inj_on_def dom_def)


definition sample_answers :: answers where
  "sample_answers = \<lparr>an_socket = 3, an_getfl = True, an_setfl = True, an_bind = (\<lambda>_. 0), an_listen = (\<lambda>_. 0), an_accept = 4,
     an_peer = ([127, 0, 0, 1], 4000), an_pton = (\<lambda>s. if s = ''127.0.0.1'' then Some [127, 0, 0, 1] else None),
     an_connect = (\<lambda>_. -1), an_inProgress = True, an_select = (\<lambda>_. 1), an_soError = Some 0\<rparr>"


text \<open>What the contract excludes: \<open>connect\<close> on an object that holds a descriptor, as after a failed \<open>connect\<close>
without a timeout, forgets that descriptor.\<close>

lemma reconnect_leaks:
  assumes "sock_owned h" and "sh_fd h i = Some fd" and "socket_valid fd" and "an_socket a \<notin> set (k_open (sh_kernel h))"
    and "0 \<le> an_socket a"
  shows "fd \<in> set (k_open (sh_kernel (on_socket i (client_connect a ip port) h))) \<and>
    (\<forall>j. sock_held (on_socket i (client_connect a ip port) h) j \<noteq> Some fd)"
proof -
  have fd: "sock_held h i = Some fd" "fd \<in> set (k_open (sh_kernel h))"
    using sock_held_open [OF assms(1), of i fd] assms(2,3) by (auto simp: sock_held_def)
  have "j = i" if "sock_held h j = Some fd" for j
    by (rule sock_held_unique [OF assms(1) that fd(1)])
  moreover obtain b x k where c: "client_connect a ip port (sh_kernel h) = (b, x, k)"
    by (metis prod.collapse)
  then have "x \<noteq> fd" "fd \<in> set (k_open k)"
    using fd(2) assms(3-5) by (auto simp: client_connect_def Let_def socket_valid_def split: option.splits)
  ultimately show ?thesis
    using c by (auto simp: on_socket_def)
qed

lemma failed_connect_keeps_descriptor:
  "0 \<le> an_socket a \<Longrightarrow> an_pton a (c_str ip) = Some addr \<Longrightarrow> an_connect a (SockaddrIn addr port) \<noteq> 0 \<Longrightarrow>
    fst (client_connect a ip port k) = False \<and> socket_valid (fst (snd (client_connect a ip port k)))"
  by (simp add: client_connect_def socket_valid_def Let_def)

section \<open>Receiving\<close>

lemma sock_recv_none:
  "sock_recv len fd s = (n, d, s') \<Longrightarrow> n \<le> 0 \<Longrightarrow> 0 \<le> fd \<Longrightarrow> 0 < len \<Longrightarrow> pending_input s = []"
  by (auto simp: sock_recv_def split: list.splits option.splits if_splits)

text \<open>The reference: \<open>len\<close> bytes of what is pending, or all of it.\<close>

lemma recvExactly_loop_reference:
  assumes "0 \<le> fd" and "length result \<le> len"
  shows "fst (recvExactly_loop len fd result s) = result @ take (len - length result) (pending_input s) \<and>
    (len - length result \<le> length (pending_input s) \<longrightarrow>
     pending_input (snd (recvExactly_loop len fd result s)) = drop (len - length result) (pending_input s))"
  using assms
proof (induction len fd result s rule: recvExactly_loop.induct)
  case (1 len fd result s)
  obtain n d s' where r: "sock_recv (len - length result) fd s = (n, d, s')"
    by (cases "sock_recv (len - length result) fd s")
  show ?case
  proof (cases "length result < len \<and> \<not> n \<le> 0")
    case True
    with sock_recv_data [OF r] have d: "d \<noteq> []" "length d \<le> len - length result" "pending_input s = d @ pending_input s'"
      by auto
    with True r have "recvExactly_loop len fd result s = recvExactly_loop len fd (result @ d) s'"
      by (simp add: recvExactly_loop.simps [of len fd result])
    with 1(1) [OF _ r [symmetric] refl] True d 1(2,3) show ?thesis
      by (auto simp: diff_diff_left)
  next
    case False
    with r 1(2,3) sock_recv_none [OF r] show ?thesis
      by (subst (1 2) recvExactly_loop.simps) (auto simp: not_less)
  qed
qed

text \<open>The reference for a line: up to the line feed if it comes within \<open>room\<close> bytes.\<close>

definition line_of :: "nat \<Rightarrow> string \<Rightarrow> string \<Rightarrow> string \<times> string" where
  "line_of room result p =
     (let l = takeWhile (\<lambda>c. c \<noteq> LF) p in
      if length l < room \<and> length l < length p then (pop_cr (result @ l), drop (Suc (length l)) p)
      else (result @ take room l, drop (min room (length l)) p))"

lemma line_of_step:
  "0 < room \<Longrightarrow> line_of room result (c # p) = (if c = LF then (pop_cr result, p) else line_of (room - 1) (result @ [c]) p)"
  by (cases room) (auto simp: line_of_def Let_def)

lemma recvLine_loop_reference:
  assumes "0 \<le> fd" and "LF \<in> set (pending_input s)"
  shows "fst (recvLine_loop maxLen fd result s) = fst (line_of (maxLen - length result) result (pending_input s)) \<and>
    pending_input (snd (recvLine_loop maxLen fd result s)) = snd (line_of (maxLen - length result) result (pending_input s))"
  using assms
proof (induction maxLen fd result s rule: recvLine_loop.induct)
  case (1 maxLen fd result s)
  obtain n d s' where r: "sock_recv 1 fd s = (n, d, s')"
    by (cases "sock_recv 1 fd s")
  show ?case
  proof (cases "length result < maxLen \<and> \<not> n \<le> 0")
    case True
    with sock_recv_data [OF r] obtain c where d: "d = [c]" "pending_input s = c # pending_input s'"
      by (cases d) auto
    show ?thesis
    proof (cases "c = LF")
      case True
      with \<open>length result < maxLen \<and> _\<close> r d show ?thesis
        by (simp add: recvLine_loop.simps [of maxLen fd result] line_of_step)
    next
      case False
      with True r d have "recvLine_loop maxLen fd result s = recvLine_loop maxLen fd (result @ [c]) s'"
        by (simp add: recvLine_loop.simps [of maxLen fd result])
      moreover have "line_of (maxLen - length result) result (pending_input s) =
          line_of (maxLen - length (result @ [c])) (result @ [c]) (pending_input s')"
        using True False d by (simp add: line_of_step)
      ultimately show ?thesis
        using 1(1) [OF _ r [symmetric] refl] True False d 1(2,3) by auto
    qed
  next
    case False
    then consider "\<not> length result < maxLen" | "length result < maxLen" "n \<le> 0" by auto
    then show ?thesis
    proof cases
      case 1
      then show ?thesis by (simp add: recvLine_loop.simps [of maxLen fd result] line_of_def Let_def)
    next
      case 2
      with \<open>0 \<le> fd\<close> have "pending_input s = []" using sock_recv_none [OF r] by simp
      with 1(3) show ?thesis by (simp add: line_of_def)
    qed
  qed
qed

text \<open>A line survives the pieces in which it arrives: when the peer sends the line, a carriage return and a line
feed (or only the line feed) and whatever follows, however this is cut into pieces, \<open>recvLine\<close> with room
for the line returns the line without its ending and leaves exactly what follows, so \<open>recvExactly\<close> of
its length then returns that.\<close>

theorem recv_line_roundtrip:
  assumes "0 \<le> fd" and "pending_input s = line @ ending @ [LF] @ body" and "LF \<notin> set line"
    and "ending = [CR] \<or> ending = [] \<and> (line = [] \<or> last line \<noteq> CR)" and "length line + length ending < maxLen"
  shows "fst (recvLine maxLen fd s) = line \<and> fst (recvExactly (length body) fd (snd (recvLine maxLen fd s))) = body"
proof -
  have "takeWhile (\<lambda>c. c \<noteq> LF) (line @ ending @ [LF] @ body) = line @ ending"
    using assms(3,4) by (subst takeWhile_append2) auto
  then have "line_of maxLen [] (pending_input s) = (line, body)"
    using assms(2,4,5) by (auto simp: line_of_def pop_cr_def)
  moreover have "LF \<in> set (pending_input s)"
    by (simp add: assms(2))
  ultimately have line: "fst (recvLine maxLen fd s) = line" "pending_input (snd (recvLine maxLen fd s)) = body"
    using recvLine_loop_reference [where fd = fd and s = s and maxLen = maxLen and result = "[]"] assms(1) by (simp_all add: recvLine_def)
  then show ?thesis
    using recvExactly_loop_reference [OF assms(1), of "[]" "length body" "snd (recvLine maxLen fd s)"]
    by (simp add: recvExactly_def)
qed

lemma recv_line_roundtrip_witness:
  "fst (recvLine 1024 3 [Some ''PO'', Some (''NG'' @ [CR]), Some ([LF] @ ''x''), Some ''yz'']) = ''PONG''"
  using recv_line_roundtrip [of 3 "[Some ''PO'', Some (''NG'' @ [CR]), Some ([LF] @ ''x''), Some ''yz'']" "''PONG''" "[CR]" "''xyz''" 1024]
  by simp

text \<open>After a \<open>connect\<close> with a timeout the descriptor stays non-blocking, so a first \<open>recv\<close> before data is there fails.\<close>

lemma connect_timeout_stays_nonblocking:
  assumes "client_connect_timeout a ip port ms k = (True, fd, k')" and "an_getfl a" and "an_setfl a"
  shows "k_flags k' fd AND O_NONBLOCK = O_NONBLOCK"
proof -
  have "k' = snd (setNonBlocking a True fd (k_new fd k))" "0 \<le> fd"
    using assms(1) by (auto simp: client_connect_timeout_def Let_def split: if_splits option.splits)
  with assms(2,3) show ?thesis
    by (simp add: setNonBlocking_def k_new_def bit_word_eqI)
qed

section \<open>IPv4 addresses as text\<close>

lemma parse_digits:
  assumes "\<forall>c \<in> set ds. is_digit c"
  shows "parseIPv4_loop (ds @ r) parts i v =
    parseIPv4_loop r parts i (foldl (\<lambda>v c. v * 10 + of_nat (digit_val c)) v ds)"
  using assms
  by (induction ds arbitrary: v) (auto simp: is_digit_def)

lemma undec_step: "(of_nat n * 10 + of_nat d :: 32 word) = of_nat (10 * n + d)"
  by simp

lemma undec_word:
  "foldl (\<lambda>v c. v * 10 + of_nat (digit_val c)) (of_nat n :: 32 word) ds = of_nat (foldl (\<lambda>n c. 10 * n + digit_val c) n ds)"
  by (induction ds arbitrary: n) (simp_all only: foldl_Nil foldl_Cons undec_step)

lemma parse_dec_nat: "parseIPv4_loop (dec_nat n @ r) parts i 0 = parseIPv4_loop r parts i (of_nat n)"
  using parse_digits [of "dec_nat n" r parts i 0] undec_word [of 0 "dec_nat n"] dec_nat_digits undec_dec_nat [of n]
  by (auto simp: undec_def)

lemma parse_dec_nat_end: "parseIPv4_loop (dec_nat n) parts i 0 = (parts, i, of_nat n)"
  using parse_dec_nat [of n "[]"] by simp

lemma unat_and_byte: "unat (w AND 0xFF :: 32 word) = unat (ucast w :: byte)"
proof -
  have "(0xFF :: 32 word) = mask 8" by (simp add: mask_eq_decr_exp)
  then have "w AND 0xFF = take_bit 8 w" by (simp add: take_bit_eq_mask)
  then show ?thesis
    by (simp only: unsigned_take_bit_eq unsigned_ucast_eq) simp
qed

lemma ucast_byte: "(ucast (ucast (b :: byte) :: 32 word) :: byte) = b"
  by (rule bit_word_eqI) (simp add: bit_simps)

lemma bytes_u32_bytes: "bytes_u32 (u32_bytes ip) = ip"
proof (rule bit_word_eqI)
  fix n
  assume "n < LENGTH(32)"
  then have "n < 8 \<or> 8 \<le> n \<and> n < 16 \<or> 16 \<le> n \<and> n < 24 \<or> 24 \<le> n \<and> n < 32" by auto
  then show "bit (bytes_u32 (u32_bytes ip)) n = bit ip n"
    by (elim disjE conjE) (auto simp: bytes_u32_def u32_bytes_def bit_simps)
qed

text \<open>The text form of an IPv4 address round-trips: for each of the \<open>2 ^ 32\<close> values \<open>parseIPv4\<close> reads back what
\<open>formatIPv4\<close> printed, which is the dotted quad of its bytes in memory order.\<close>

theorem ipv4_text_roundtrip: "parseIPv4 (formatIPv4 ip) = ip \<and> formatIPv4 ip = dotted_quad (u32_bytes ip)"
proof
  show quad: "formatIPv4 ip = dotted_quad (u32_bytes ip)"
    by (simp add: formatIPv4_def dotted_quad_def u32_bytes_def unat_and_byte)
  have "parseIPv4 (dotted_quad [a, b, c, d]) = bytes_u32 [a, b, c, d]" for a b c d
    by (simp add: parseIPv4_def dotted_quad_def parse_dec_nat parse_dec_nat_end ucast_byte)
  then show "parseIPv4 (formatIPv4 ip) = ip"
    unfolding quad by (simp add: u32_bytes_def bytes_u32_bytes [unfolded u32_bytes_def])
qed

text \<open>There is no rejection: every other character is skipped, and numbers are taken modulo 256.\<close>

lemma parseIPv4_lenient: "parseIPv4 ''1.2.3.4x'' = parseIPv4 ''1.2.3.4'' \<and> parseIPv4 ''257.2.3.4'' = parseIPv4 ''1.2.3.4''"
  by code_simp

end
