(* ===== verification/Protocol_Props.thy ===== *)
theory Protocol_Props
  imports Protocol
begin

text \<open>
  What the VLESS codec guarantees: the decoder over any buffered stream is the decoder over
  the bytes still to come (\<open>byte_source.sim_decode\<close>), requests and responses round-trip
  whatever the segmentation, unknown users are refused, and the addons parser reads every
  protobuf message made of length-delimited and varint fields.
\<close>

section \<open>The decoder only depends on the bytes\<close>

context byte_source
begin

lemma sim_lift_exn [intro]: "sim (lift_exn r) (lift_exn r)"
  by (rule simI) (auto simp: lift_exn_def)

lemma sim_parseAddons [intro]: "sim (parseAddons rd req) (parseAddons list_rd req)"
  unfolding parseAddons_def Let_def by (intro sim_bind sim_if sim_read_exact sim_return sim_lift_exn)

lemma sim_readAddress [intro]: "sim (readAddress rd req) (readAddress list_rd req)"
  unfolding readAddress_def Let_def by (intro sim_bind sim_if sim_read_exact sim_return sim_throw)

lemma sim_decode [intro]: "sim (decode rd v) (decode list_rd v)"
  unfolding decode_def Let_def
  by (intro sim_bind sim_if sim_read_exact sim_throw sim_parseAddons)
    (auto split: command.split)

lemma read_exact_enough:
  assumes "ok s" and "n \<le> length (pending s)"
  shows "\<exists>s'. read_exact rd n err s = Some (Inr (take n (pending s)), s') \<and>
    pending s' = drop n (pending s) \<and> ok s'"
  using rd_enough [OF assms] assms(2) by (auto simp: read_exact_def co_bind_def)

lemma decode_bad_version:
  assumes "ok s" and "pending s = w # rest" and "w \<noteq> 0"
  shows "\<exists>s'. decode rd v s = Some (Inl (RuntimeError ''invalid vless version''), s')"
  using read_exact_enough [OF assms(1), of 1 "''failed to read vless version''"] assms
  by (auto simp: decode_def co_bind_def Let_def request_init_def)

lemma decode_unknown_user:
  assumes "ok s" and "pending s = 0 # uuid @ rest" and "length uuid = 16"
    and "\<not> validator_contains v uuid"
  shows "\<exists>s'. decode rd v s = Some (Inl (RuntimeError ''invalid vless uuid''), s')"
proof -
  obtain s1 where s1: "read_exact rd 1 ''failed to read vless version'' s = Some (Inr [0], s1)"
    "pending s1 = uuid @ rest" "ok s1"
    using read_exact_enough [OF assms(1), of 1 "''failed to read vless version''"] assms by auto
  moreover obtain s2 where "read_exact rd 16 ''failed to read vless uuid'' s1 = Some (Inr uuid, s2)"
    using read_exact_enough [OF s1(3), of 16 "''failed to read vless uuid''"] s1 assms by auto
  ultimately show ?thesis
    using assms by (simp add: decode_def co_bind_def Let_def request_init_def)
qed

lemma decodeResponse_enough:
  assumes "ok s" and "pending s = [0, 0] @ rest"
  shows "\<exists>s'. decodeResponse rd s = Some (Inr True, s') \<and> pending s' = rest \<and> ok s'"
  using rd_enough [OF assms(1), of 2] assms
  by (auto simp: decodeResponse_def co_bind_def)

lemma decodeResponse_version:
  assumes "ok s" and "pending s = v # l # rest" and "v \<noteq> 0"
  shows "\<exists>s'. decodeResponse rd s = Some (Inr False, s')"
  using rd_enough [OF assms(1), of 2] assms
  by (auto simp: decodeResponse_def co_bind_def)

end

section \<open>Reading what was written\<close>

lemma unat_of_nat_byte [simp]: "n < 256 \<Longrightarrow> unat (of_nat n :: byte) = n"
  by (simp add: unat_of_nat)

lemma readAddress_writeAddress:
  assumes "writeAddress req = Inr addr" and "address_ok (req_address req)"
  shows "readAddress list_rd r (addr @ rest) = Some (Inr (r\<lparr>req_address := req_address req\<rparr>), rest)"
  using assms
  by (auto simp: readAddress_def writeAddress_def co_bind_def co_simps Let_def
      split: address.splits if_splits)

lemma parseAddons_none [co_simps]: "parseAddons list_rd req (0 # rest) = Some (Inr req, rest)"
  by (simp add: parseAddons_def co_bind_def co_simps Let_def)

lemma decode_encode_list:
  assumes enc: "encodeRequest req = Inr bs" and "req_command req = TCP \<or> req_command req = UDP"
    and "length (req_uuid req) = 16" and "address_ok (req_address req)"
    and "validator_contains v (req_uuid req)"
  shows "decode list_rd v (bs @ rest) =
    Some (Inr (req\<lparr>req_version := 0, req_flow := [], req_encryption := [], req_seed := []\<rparr>), rest)"
proof -
  from enc obtain addr where addr: "writeAddress req = Inr addr"
    and bs: "bs = [0] @ req_uuid req @ [0] @ [byte_of_command (req_command req)] @
      [hi8 (req_port req), lo8 (req_port req)] @ addr"
    by (auto simp: encodeRequest_def split: sum.splits)
  have port: "read_exact list_rd 2 e (hi8 p # lo8 p # xs) = Some (Inr [hi8 p, lo8 p], xs)" for e p xs
    by (simp add: read_exact_list)
  show ?thesis
    using assms(2-) unfolding bs
    by (cases req; elim disjE)
      (simp_all add: decode_def co_bind_def co_simps Let_def port request_init_def
        readAddress_writeAddress [OF addr])
qed

lemma decode_encode_mux_list:
  assumes enc: "encodeRequest req = Inr bs" and "req_command req = Mux"
    and "length (req_uuid req) = 16" and "validator_contains v (req_uuid req)"
    and addr: "writeAddress req = Inr addr"
  shows "decode list_rd v (bs @ rest) =
    Some (Inr (request_init\<lparr>req_uuid := req_uuid req, req_command := Mux,
                 req_address := Domain ''v1.mux.cool'', req_port := 0\<rparr>),
          [hi8 (req_port req), lo8 (req_port req)] @ addr @ rest)"
  using assms
  by (auto simp: encodeRequest_def decode_def co_bind_def co_simps Let_def request_init_def)

section \<open>Addons: varints and protobuf messages\<close>

text \<open>The base-128 encoding of a 64-bit value, lowest group first.\<close>

lemma unat_drop_bit_7: "unat (drop_bit 7 (x :: 64 word)) = unat x div 128"
  by (simp add: unsigned_drop_bit_eq drop_bit_eq_div take_bit_nat_eq_self unat_div_distrib)

function varint_bytes :: "64 word \<Rightarrow> bytes" where
  "varint_bytes x =
     (if x < 128 then [ucast x] else (ucast (take_bit 7 x) OR 0x80) # varint_bytes (drop_bit 7 x))"
  by pat_completeness auto
termination
  by (relation "measure unat") (auto simp: unat_drop_bit_7 word_less_nat_alt simp del: drop_bit_numeral_bit1)

declare varint_bytes.simps [simp del]

lemma varint_bytes_nonempty [simp]: "varint_bytes x \<noteq> []"
  by (subst varint_bytes.simps) simp

lemma mask7_8: "(0x7F :: byte) = mask 7"
  by (simp add: mask_eq_exp_minus_1)

lemma bit_80 [simp]: "bit (0x80 :: nat) n \<longleftrightarrow> n = 7" "bit (0x80 :: int) n \<longleftrightarrow> n = 7"
proof -
  have "(0x80 :: nat) = 2 ^ 7" "(0x80 :: int) = 2 ^ 7" by simp_all
  then show "bit (0x80 :: nat) n \<longleftrightarrow> n = 7" "bit (0x80 :: int) n \<longleftrightarrow> n = 7"
    by (simp_all only: bit_exp_iff) auto
qed

lemma take_bit_7_small: "x < 128 \<Longrightarrow> take_bit 7 x = (x :: 64 word)"
  by (simp add: take_bit_eq_mod word_unat_eq_iff unat_mod_distrib word_less_nat_alt)

lemma last_group:
  assumes "(x :: 64 word) < 128"
  shows "(ucast x :: byte) AND 0x80 = 0" and "ucast ((ucast x :: byte) AND 0x7F) = x"
proof -
  have "take_bit 7 x = x"
    using assms by (rule take_bit_7_small)
  then have small: "bit x n \<Longrightarrow> n < 7" for n
    by (metis bit_take_bit_iff)
  show "(ucast x :: byte) AND 0x80 = 0"
    by (rule bit_word_eqI) (auto simp: bit_simps dest: small)
  show "ucast ((ucast x :: byte) AND 0x7F) = x"
    unfolding mask7_8 by (rule bit_word_eqI) (auto simp: bit_simps dest: small)
qed

lemma inner_group:
  "(ucast (take_bit 7 (x :: 64 word)) OR 0x80 :: byte) AND 0x80 \<noteq> 0"
  "ucast ((ucast (take_bit 7 x) OR 0x80 :: byte) AND 0x7F) = take_bit 7 x"
proof -
  have "bit ((ucast (take_bit 7 x) OR 0x80 :: byte) AND 0x80) 7"
    by (simp add: bit_simps)
  then show "(ucast (take_bit 7 x) OR 0x80 :: byte) AND 0x80 \<noteq> 0"
    by fastforce
  show "ucast ((ucast (take_bit 7 x) OR 0x80 :: byte) AND 0x7F) = take_bit 7 x"
    unfolding mask7_8 by (rule bit_word_eqI) (auto simp: bit_simps)
qed

lemma join_groups:
  "(push_bit s (take_bit 7 x) OR push_bit (s + 7) (drop_bit 7 x) :: 64 word) = push_bit s x"
proof (rule bit_word_eqI)
  fix n
  show "bit (push_bit s (take_bit 7 x) OR push_bit (s + 7) (drop_bit 7 x)) n = bit (push_bit s x) n"
  proof (cases "s + 7 \<le> n")
    case True
    then have "7 + (n - (s + 7)) = n - s" by simp
    with True show ?thesis by (auto simp: bit_simps)
  qed (auto simp: bit_simps)
qed

lemma decode_varint_from_bytes:
  assumes "unat x < 2 ^ (64 - shift)" and "shift \<le> 63"
  shows "decode_varint_from (pre @ varint_bytes x @ rest) (length pre) shift acc =
    Inr (acc OR push_bit shift x, length pre + length (varint_bytes x))"
  using assms
proof (induction x arbitrary: pre shift acc rule: varint_bytes.induct)
  case (1 x)
  show ?case
  proof (cases "x < 128")
    case True
    with "1.prems" show ?thesis
      by (simp add: varint_bytes.simps [of x] decode_varint_from.simps Let_def last_group)
  next
    case False
    let ?b = "ucast (take_bit 7 x) OR 0x80 :: byte"
    have "(2 :: nat) ^ 7 < 2 ^ (64 - shift)"
      using False "1.prems" by (simp add: word_less_nat_alt)
    then have shift: "shift + 7 \<le> 63"
      by - (drule power_less_imp_less_exp [rotated]; simp)
    have "(2 :: nat) ^ (64 - shift) = 2 ^ (64 - (shift + 7)) * 2 ^ 7"
      unfolding power_add [symmetric] using shift by (intro arg_cong [where f = "(^) 2"]) simp
    with "1.prems" have "unat x < 2 ^ (64 - (shift + 7)) * 128"
      by simp
    then have "unat (drop_bit 7 x) < 2 ^ (64 - (shift + 7))"
      unfolding unat_drop_bit_7 by (rule less_mult_imp_div_less)
    from "1.IH" [OF False this shift, of "pre @ [?b]"] False shift show ?thesis
      by (simp add: varint_bytes.simps [of x] decode_varint_from.simps [of _ "length pre"]
          Let_def inner_group or.assoc join_groups)
  qed
qed

lemma decode_varint_bytes:
  "decode_varint (pre @ varint_bytes x @ rest) (length pre) =
     Inr (x, length pre + length (varint_bytes x))"
  using decode_varint_from_bytes [of x 0 pre rest 0] unsigned_less [of x]
  by (simp add: decode_varint_def)

text \<open>A protobuf message as a list of fields, and what \<open>parseAddons\<close> makes of one field.\<close>

datatype pb_field = Pb_Len "64 word" bytes | Pb_Varint "64 word" "64 word"

fun pb_bytes :: "pb_field \<Rightarrow> bytes" where
  "pb_bytes (Pb_Len num data) =
     varint_bytes (push_bit 3 num OR 2) @ varint_bytes (of_nat (length data)) @ data"
| "pb_bytes (Pb_Varint num v) = varint_bytes (push_bit 3 num) @ varint_bytes v"

fun pb_ok :: "pb_field \<Rightarrow> bool" where
  "pb_ok (Pb_Len num data) \<longleftrightarrow> take_bit 61 num = num \<and> length data < 2 ^ 64"
| "pb_ok (Pb_Varint num v) \<longleftrightarrow> take_bit 61 num = num"

fun pb_apply :: "pb_field \<Rightarrow> request \<Rightarrow> request" where
  "pb_apply (Pb_Len num data) req =
     (if num = 1 then req\<lparr>req_flow := bytes_string data\<rparr>
      else if num = 2 then req\<lparr>req_seed := data\<rparr> else req)"
| "pb_apply (Pb_Varint num v) req = req"

lemma mask3_64: "(0x07 :: 64 word) = mask 3"
  by (simp add: mask_eq_exp_minus_1)

lemma bit_2 [simp]: "bit (2 :: nat) n \<longleftrightarrow> n = 1" "bit (2 :: int) n \<longleftrightarrow> n = 1"
proof -
  have "bit (2 ^ 1 :: nat) n \<longleftrightarrow> n = 1" "bit (2 ^ 1 :: int) n \<longleftrightarrow> n = 1"
    unfolding bit_exp_iff by auto
  then show "bit (2 :: nat) n \<longleftrightarrow> n = 1" "bit (2 :: int) n \<longleftrightarrow> n = 1"
    by simp_all
qed

lemma tag_wire_type:
  "(push_bit 3 num OR 2 :: 64 word) AND 0x07 = 2" "(push_bit 3 num :: 64 word) AND 0x07 = 0"
  unfolding mask3_64 by (rule bit_word_eqI; auto simp: bit_simps)+

lemma tag_field_number:
  assumes "take_bit 61 num = (num :: 64 word)"
  shows "drop_bit 3 (push_bit 3 num OR 2) = num"
proof (rule bit_word_eqI)
  fix n assume "n < LENGTH(64)"
  have "bit num n \<Longrightarrow> n < 61" for n
    using assms by (metis bit_take_bit_iff)
  then show "bit (drop_bit 3 (push_bit 3 num OR 2)) n = bit num n"
    by (auto simp: bit_simps)
qed

lemma parse_addons_len_field:
  assumes "decode_varint bs p = Inr (tag, p')" and "tag AND 0x07 = 2"
    and "decode_varint bs p' = Inr (n, p'')" and "unat n \<le> length bs - p''"
  shows "parse_addons_from bs p req =
    parse_addons_from bs (p'' + unat n)
      (pb_apply (Pb_Len (drop_bit 3 tag) (take (unat n) (drop p'' bs))) req)"
  using assms decode_varint_pos [OF assms(1)]
  by (simp add: parse_addons_from.simps [of bs p] Let_def)

lemma parse_addons_varint_field:
  assumes "decode_varint bs p = Inr (tag, p')" and "tag AND 0x07 = 0"
    and "decode_varint bs p' = Inr (n, p'')"
  shows "parse_addons_from bs p req = parse_addons_from bs p'' req"
  using assms decode_varint_pos [OF assms(1)]
  by (simp add: parse_addons_from.simps [of bs p] Let_def)

lemma parse_addons_from_fields:
  assumes "\<And>f. f \<in> set fs \<Longrightarrow> pb_ok f"
  shows "parse_addons_from (pre @ concat (map pb_bytes fs)) (length pre) req =
    Inr (fold pb_apply fs req)"
  using assms
proof (induction fs arbitrary: pre req)
  case Nil
  show ?case by (simp add: parse_addons_from.simps)
next
  case (Cons f fs)
  let ?all = "pre @ concat (map pb_bytes (f # fs))"
  have step: "decode_varint (pre @ varint_bytes x @ zs) (length pre) =
      Inr (x, length (pre @ varint_bytes x))" for pre x zs
    by (simp add: decode_varint_bytes)
  have IH: "parse_addons_from ?all (length (pre @ pb_bytes f)) (pb_apply f req) =
      Inr (fold pb_apply (f # fs) req)"
    using Cons.IH [of "pre @ pb_bytes f" "pb_apply f req"] Cons.prems by simp
  show ?case
  proof (cases f)
    case (Pb_Len num data)
    define tag :: "64 word" where "tag = push_bit 3 num OR 2"
    define n :: "64 word" where "n = of_nat (length data)"
    from Pb_Len Cons.prems [of f]
    have num: "drop_bit 3 tag = num" "tag AND 0x07 = 2" and n: "unat n = length data"
      by (simp_all add: tag_def n_def tag_field_number tag_wire_type unat_of_nat del: drop_bit_or)
    have f: "pb_bytes f = varint_bytes tag @ varint_bytes n @ data"
      by (simp add: Pb_Len tag_def n_def)
    have "parse_addons_from ?all (length pre) req =
        parse_addons_from ?all (length (pre @ pb_bytes f)) (pb_apply f req)"
      using parse_addons_len_field [of ?all "length pre" tag "length (pre @ varint_bytes tag)" n
          "length (pre @ varint_bytes tag @ varint_bytes n)" req]
        step [of pre tag] step [of "pre @ varint_bytes tag" n] n num f
      by (simp add: add.assoc Pb_Len del: pb_bytes.simps pb_apply.simps)
    with IH show ?thesis by simp
  next
    case (Pb_Varint num v)
    have "parse_addons_from ?all (length pre) req =
        parse_addons_from ?all (length (pre @ pb_bytes f)) (pb_apply f req)"
      using step [of pre "push_bit 3 num"] step [of "pre @ varint_bytes (push_bit 3 num)" v] Pb_Varint
      by (subst parse_addons_varint_field [OF _ tag_wire_type(2)]) (simp_all add: add.assoc)
    with IH show ?thesis by simp
  qed
qed

section \<open>What the decoder checks\<close>

lemma parse_addons_Inr_cases:
  assumes "parse_addons_from bs p req = Inr r"
  obtains "r = req"
  | p' num data where "p < p'" "p < length bs" "length data \<le> length bs"
      "parse_addons_from bs p' (pb_apply (Pb_Len num data) req) = Inr r"
  | p' where "p < p'" "p < length bs" "parse_addons_from bs p' req = Inr r"
proof (cases "p < length bs")
  case False
  with assms that(1) show thesis by (simp add: parse_addons_from.simps)
next
  case True
  with assms obtain tag p1 where tag: "decode_varint bs p = Inr (tag, p1)"
    by (auto simp: parse_addons_from.simps [of bs p] split: sum.splits)
  note p1 = decode_varint_pos [OF tag]
  from assms True tag obtain n p2 where n: "decode_varint bs p1 = Inr (n, p2)"
    by (auto simp: parse_addons_from.simps [of bs p] Let_def split: sum.splits if_splits)
  note p2 = decode_varint_pos [OF n]
  consider "tag AND 0x07 = 2" "unat n \<le> length bs - p2" | "tag AND 0x07 = 0"
    using assms True tag n
    by (auto simp: parse_addons_from.simps [of bs p] Let_def split: if_splits)
  then show thesis
  proof cases
    case 1
    show thesis
    proof (rule that(2))
      show "p < p2 + unat n" using p1 p2 by simp
      show "parse_addons_from bs (p2 + unat n)
          (pb_apply (Pb_Len (drop_bit 3 tag) (take (unat n) (drop p2 bs))) req) = Inr r"
        using assms parse_addons_len_field [OF tag 1(1) n 1(2)] by simp
    qed (use True 1(2) in simp_all)
  next
    case 2
    show thesis
      using assms parse_addons_varint_field [OF tag 2 n] that(3) [of p2] p1 p2 True by simp
  qed
qed

lemma parse_addons_from_keeps:
  "parse_addons_from bs p req = Inr r \<Longrightarrow>
     req_version r = req_version req \<and> req_uuid r = req_uuid req \<and>
     req_encryption r = req_encryption req \<and> req_address r = req_address req \<and>
     length (req_flow r) \<le> max (length (req_flow req)) (length bs)"
proof (induction "length bs - p" arbitrary: p req rule: less_induct)
  case less
  from less.prems show ?case
  proof (cases rule: parse_addons_Inr_cases)
    case (2 p' num data)
    from less.hyps [OF diff_less_mono2 [OF 2(1,2)] 2(4)] 2(3) show ?thesis
      by (auto simp: le_max_iff_disj split: if_splits)
  next
    case (3 p')
    from less.hyps [OF _ 3(3)] 3 show ?thesis by simp
  qed simp
qed

lemma read_exact_yields: "co_yields (read_exact rd n err) (\<lambda>bs. length bs = n)"
  by (rule co_yieldsI) (auto simp: read_exact_def elim!: co_bind_Inr_E split: if_splits)

lemmas read_exact_step = co_yields_bind [OF read_exact_yields]

lemma lift_exn_yields: "(\<And>a. r = Inr a \<Longrightarrow> P a) \<Longrightarrow> co_yields (lift_exn r) P"
  by (rule co_yieldsI) (auto simp: lift_exn_def)

text \<open>The fields the addons and the address leave alone.\<close>

definition same_head :: "request \<Rightarrow> request \<Rightarrow> bool" where
  "same_head req r \<longleftrightarrow> req_version r = req_version req \<and> req_uuid r = req_uuid req \<and>
     req_encryption r = req_encryption req"

lemma parseAddons_yields:
  assumes "req_flow req = []"
  shows "co_yields (parseAddons rd req)
    (\<lambda>r. same_head req r \<and> req_address r = req_address req \<and> length (req_flow r) \<le> 255)"
proof -
  have "n \<le> unat b \<Longrightarrow> n \<le> 255" for n and b :: byte
    using unat_byte_less [of b] by simp
  then show ?thesis
    unfolding parseAddons_def Let_def
    using assms
    by (intro read_exact_step co_yields_intros lift_exn_yields)
      (auto simp: same_head_def dest: parse_addons_from_keeps)
qed

lemma readAddress_yields:
  "co_yields (readAddress rd req) (\<lambda>r. same_head req r \<and> req_command r = req_command req \<and>
     req_flow r = req_flow req \<and> address_ok (req_address r))"
  unfolding readAddress_def Let_def
  by (intro read_exact_step co_yields_intros) (auto simp: same_head_def)

lemma decode_yields:
  "co_yields (decode rd v) (\<lambda>req. validator_contains v (req_uuid req) \<and>
     length (req_uuid req) = 16 \<and> req_version req = 0 \<and> req_encryption req = [] \<and>
     address_ok (req_address req) \<and> req_command req \<in> {TCP, UDP, Mux, Rvs} \<and>
     length (req_flow req) \<le> 255)"
  unfolding decode_def Let_def
  apply (intro read_exact_step co_yields_intros co_yields_bind [OF parseAddons_yields])
   apply (simp add: request_init_def)
  subgoal for vb ub r cb
    by (cases "command_of_byte (cb ! 0)")
      (auto simp: same_head_def request_init_def intro!: co_yields_intros read_exact_step
        co_yields_mono [OF readAddress_yields])
  done

section \<open>Properties of the codec on a connection\<close>

text \<open>\<open>UringBufferedStream\<close> over the \<open>AsyncStream\<close> of a descriptor.\<close>

abbreviation fd_read :: "int \<Rightarrow> nat \<Rightarrow> (net ubs, bytes) co" where
  "fd_read fd \<equiv> ubs_read (async_recv fd)"

abbreviation fd_pending :: "int \<Rightarrow> net ubs \<Rightarrow> bytes" where
  "fd_pending fd \<equiv> ubs_pending (\<lambda>w. map recv_complete (rx w fd))"

abbreviation fd_ended :: "int \<Rightarrow> net ubs \<Rightarrow> bool" where
  "fd_ended fd \<equiv> ubs_ended (\<lambda>w. map recv_complete (rx w fd))"

text \<open>A connection whose kernel delivers exactly the given chunks and then EOF, for the witnesses.\<close>

definition chunked :: "bytes list \<Rightarrow> net ubs" where
  "chunked cs = ubs_init \<lparr>rx = (\<lambda>_. map (\<lambda>c. (int (length c), c)) cs @ [(0, [])]), tx = (\<lambda>_. []),
     sd = (\<lambda>_. 0), sent = (\<lambda>_. []), sends = (\<lambda>_. []), wr_shut = (\<lambda>_. False)\<rparr>"

lemma chunked_pending [simp]:
  "[] \<notin> set cs \<Longrightarrow> fd_pending fd (chunked cs) = concat cs"
  by (induction cs) (auto simp: chunked_def recv_complete_def rr_defs)

lemma chunked_ended [simp]: "fd_ended fd (chunked cs)"
  by (induction cs) (auto simp: chunked_def ubs_init_def ubs_ended_def recv_complete_def rr_defs)

lemma chunked_ok [simp]: "ubs_ok (chunked cs)"
  by (simp add: chunked_def)

text \<open>C10: A request the client encodes (TCP or UDP, well-formed address, registered user) is
decoded by the server to the same request, whatever the segmentation of the byte stream into
receives, and exactly the bytes after the request stay in the buffered stream.\<close>

theorem request_roundtrip:
  assumes "encodeRequest req = Inr bs" and "req_command req = TCP \<or> req_command req = UDP"
    and "length (req_uuid req) = 16" and "address_ok (req_address req)"
    and "validator_contains v (req_uuid req)"
    and "ubs_ok b" and "fd_pending fd b = bs @ rest"
  shows "\<exists>b'. decode (fd_read fd) v b =
      Some (Inr (req\<lparr>req_version := 0, req_flow := [], req_encryption := [], req_seed := []\<rparr>), b') \<and>
    fd_pending fd b' = rest \<and> ubs_ok b'"
proof -
  have "decode list_rd v (fd_pending fd b) =
      Some (Inr (req\<lparr>req_version := 0, req_flow := [], req_encryption := [], req_seed := []\<rparr>), rest)"
    using decode_encode_list [OF assms(1-5)] assms(7) by simp
  from async_rd.buf.sim_Inr [OF async_rd.buf.sim_decode assms(6) this] show ?thesis
    by blast
qed

definition sample_request :: request where
  "sample_request = request_init\<lparr>req_uuid := replicate 16 7, req_command := TCP, req_port := 443,
     req_address := Domain ''example.org''\<rparr>"

definition sample_users :: validator where
  "sample_users = \<lparr>users = [replicate 16 7]\<rparr>"

definition sample_bytes :: bytes where
  "sample_bytes = [0] @ replicate 16 7 @ [0, 1, 1, 187, 2, 11] @ string_bytes ''example.org''"

definition sample_conn :: "net ubs" where
  "sample_conn = chunked [take 4 sample_bytes, drop 4 sample_bytes @ [42], [43]]"

lemma sample_encode: "encodeRequest sample_request = Inr sample_bytes"
  by code_simp

lemma sample_conn_pending: "fd_pending fd sample_conn = sample_bytes @ [42, 43]"
  unfolding sample_conn_def by (subst chunked_pending) (auto simp: sample_bytes_def simp flip: replicate_add)

lemma sample_conn_ok [simp]: "ubs_ok sample_conn" "fd_ended fd sample_conn"
  by (simp_all add: sample_conn_def)

lemma request_roundtrip_witness:
  "\<exists>b'. decode (fd_read 5) sample_users sample_conn =
    Some (Inr (sample_request\<lparr>req_version := 0, req_flow := [], req_encryption := [], req_seed := []\<rparr>), b') \<and>
    fd_pending 5 b' = [42, 43] \<and> ubs_ok b'"
  by (rule request_roundtrip [OF sample_encode _ _ _ _ _ sample_conn_pending])
    (simp_all add: sample_request_def request_init_def sample_users_def validator_contains_def)

text \<open>C9: Whatever the stream, a request the decoder accepts belongs to a registered user, has
version 0, no encryption mode (the decoder never fills that field), a well-formed address, one of
the four named commands, and a flow of at most 255 bytes.\<close>

theorem decode_authenticated:
  assumes "decode rd v s = Some (Inr req, s')"
  shows "validator_contains v (req_uuid req) \<and> length (req_uuid req) = 16 \<and> req_version req = 0 \<and>
    req_encryption req = [] \<and> address_ok (req_address req) \<and>
    req_command req \<in> {TCP, UDP, Mux, Rvs} \<and> length (req_flow req) \<le> 255"
  by (rule co_yieldsD [OF decode_yields assms])

lemma decode_authenticated_witness:
  "\<exists>req bs. decode list_rd sample_users (sample_bytes @ [42]) = Some (Inr req, bs) \<and>
    validator_contains sample_users (req_uuid req)"
proof -
  have "decode list_rd sample_users (sample_bytes @ [42]) = Some (Inr sample_request, [42])"
    by code_simp
  from this decode_authenticated [OF this] show ?thesis by blast
qed

lemma readAddress_list_total [co_total_intros]: "co_total (readAddress list_rd req)"
  unfolding readAddress_def Let_def by (intro co_total_intros)

lemma lift_exn_total [co_total_intros]: "co_total (lift_exn r)"
  by (simp add: co_total_def lift_exn_def)

lemma parseAddons_list_total [co_total_intros]: "co_total (parseAddons list_rd req)"
  unfolding parseAddons_def Let_def by (intro co_total_intros)

lemma decode_list_total: "co_total (decode list_rd v)"
  unfolding decode_def Let_def
  by (intro co_total_intros) (auto split: command.split intro!: co_total_intros)

text \<open>C15: On streams that end, the outcome of the decoder (the request or the exception) depends
on the bytes only: two connections that deliver the same bytes in different chunks, on different
descriptors, give the same outcome.\<close>

theorem decode_segmentation:
  assumes "ubs_ok b" and "ubs_ok c" and "fd_ended f b" and "fd_ended g c"
    and "fd_pending f b = fd_pending g c"
  shows "map_option fst (decode (fd_read f) v b) = map_option fst (decode (fd_read g) v c)"
  using async_rd.buf.sim_outcome [OF async_rd.buf.sim_decode assms(1,3)]
    async_rd.buf.sim_outcome [OF async_rd.buf.sim_decode assms(2,4)] assms(5)
    co_totalD [OF decode_list_total]
  by simp

lemma decode_segmentation_witness:
  "map_option fst (decode (fd_read 3) sample_users sample_conn) =
   map_option fst (decode (fd_read 4) sample_users (chunked [sample_bytes @ [42, 43]]))"
  by (rule decode_segmentation) (simp_all add: sample_conn_pending)

text \<open>A request whose UUID is not registered is refused with the decoder's error as soon as
its first 17 bytes are there, on any connection, whatever follows and whether or not the stream
has ended.\<close>

theorem unknown_user_rejected:
  assumes "ubs_ok b" and "fd_pending fd b = 0 # uuid @ rest" and "length uuid = 16"
    and "\<not> validator_contains v uuid"
  shows "\<exists>b'. decode (fd_read fd) v b = Some (Inl (RuntimeError ''invalid vless uuid''), b')"
  by (rule async_rd.buf.decode_unknown_user [OF assms])

lemma unknown_user_rejected_witness:
  "\<exists>b'. decode (fd_read 5) validator_init sample_conn =
     Some (Inl (RuntimeError ''invalid vless uuid''), b')"
  by (rule unknown_user_rejected [where uuid = "replicate 16 7"])
    (simp_all add: sample_conn_pending sample_bytes_def validator_init_def validator_contains_def)

text \<open>For the Mux command the encoder is not the inverse of the decoder: it appends the
port and the address as for TCP, the decoder stops after the command and takes its fixed
pseudo-domain, so the port and address bytes stay in the stream as the start of the payload.\<close>

theorem mux_leaves_address:
  assumes "encodeRequest req = Inr bs" and "req_command req = Mux"
    and "length (req_uuid req) = 16" and "validator_contains v (req_uuid req)"
    and "writeAddress req = Inr addr" and "ubs_ok b" and "fd_pending fd b = bs @ rest"
  shows "\<exists>r b'. decode (fd_read fd) v b = Some (Inr r, b') \<and>
    req_address r = Domain ''v1.mux.cool'' \<and> req_port r = 0 \<and>
    fd_pending fd b' = hi8 (req_port req) # lo8 (req_port req) # addr @ rest"
proof -
  note run = decode_encode_mux_list [OF assms(1-5), of rest, folded assms(7)]
  from async_rd.buf.sim_Inr [OF async_rd.buf.sim_decode assms(6) run] show ?thesis
    by (auto simp: request_init_def)
qed

lemma mux_leaves_address_witness:
  "\<exists>r b'. decode (fd_read 5) sample_users
      (chunked [[0] @ replicate 16 7 @ [0, 3, 0, 80, 1, 10, 0, 0, 1]]) = Some (Inr r, b') \<and>
    req_address r = Domain ''v1.mux.cool'' \<and> req_port r = 0 \<and>
    fd_pending 5 b' = hi8 80 # lo8 80 # [1, 10, 0, 0, 1] @ []"
proof -
  let ?req = "request_init\<lparr>req_uuid := replicate 16 7, req_command := Mux, req_port := 80,
     req_address := IPv4 [10, 0, 0, 1]\<rparr>"
  have enc: "encodeRequest ?req = Inr ([0] @ replicate 16 7 @ [0, 3, 0, 80, 1, 10, 0, 0, 1])"
    by code_simp
  show ?thesis
    using mux_leaves_address [OF enc, of sample_users "[1, 10, 0, 0, 1]"
        "chunked [[0] @ replicate 16 7 @ [0, 3, 0, 80, 1, 10, 0, 0, 1]]" 5 "[]"]
    by (simp add: request_init_def sample_users_def validator_contains_def writeAddress_def)
qed

text \<open>The addons parser reads every protobuf message made of length-delimited and varint
fields with 61-bit field numbers: fields 1 and 2 set flow and seed (the last occurrence wins),
all others are skipped.\<close>

theorem addons_protobuf:
  assumes "\<forall>f \<in> set fs. pb_ok f"
  shows "parse_addons_from (concat (map pb_bytes fs)) 0 req = Inr (fold pb_apply fs req)"
  using parse_addons_from_fields [of fs "[]" req] assms by simp

lemma addons_protobuf_witness:
  "parse_addons_from (concat (map pb_bytes
      [Pb_Len 2 [9, 9], Pb_Varint 300 77, Pb_Len 1 (string_bytes ''xtls-rprx-vision'')])) 0 request_init =
    Inr (request_init\<lparr>req_seed := [9, 9], req_flow := ''xtls-rprx-vision''\<rparr>)"
proof -
  have "take_bit 61 (2 :: 64 word) = 2" "take_bit 61 (300 :: 64 word) = 300"
    "take_bit 61 (1 :: 64 word) = 1"
    by code_simp+
  then show ?thesis
    by (subst addons_protobuf) auto
qed

text \<open>The two-byte response the server writes is accepted by the client, which consumes
exactly these two bytes: everything the server relays after it stays in the buffered stream.\<close>

theorem response_roundtrip:
  assumes "ubs_ok b" and "fd_pending fd b = encodeResponse (req_version req) @ rest"
    and "decode rd v s = Some (Inr req, s')"
  shows "\<exists>b'. decodeResponse (fd_read fd) b = Some (Inr True, b') \<and> fd_pending fd b' = rest"
  using async_rd.buf.decodeResponse_enough [OF assms(1), of fd rest] assms(2)
    co_yieldsD [OF decode_yields assms(3)]
  by (auto simp: encodeResponse_def)

lemma response_roundtrip_witness:
  "\<exists>b'. decodeResponse (fd_read 7) (chunked [[0], [0, 72, 105]]) = Some (Inr True, b') \<and>
    fd_pending 7 b' = [72, 105]"
proof -
  have "decode list_rd sample_users sample_bytes = Some (Inr sample_request, [])"
    by code_simp
  from response_roundtrip [OF _ _ this, of "chunked [[0], [0, 72, 105]]" 7 "[72, 105]"]
  show ?thesis
    by (simp add: encodeResponse_def sample_request_def request_init_def)
qed

end
