(* ===== verification/Socks5_Props.thy ===== *)
theory Socks5_Props
  imports Socks5 Protocol_Props
begin

text \<open>
  The SOCKS5 parser on a connection and on datagrams: the greeting and the request are read
  from any segmentation of the byte stream, and the accepted UDP datagrams are exactly the
  encoded ones, up to the two reserved bytes.
\<close>

section \<open>Greeting and request\<close>

lemma readGreeting_list:
  assumes "length methods = unat n" and "n \<noteq> 0"
  shows "readGreeting list_rd ([5, n] @ methods @ rest) =
    Some (Inr (0 \<in> set methods), rest)"
  using assms by (auto simp: readGreeting_def co_bind_def co_simps list_ex_iff)

text \<open>On a well-formed greeting, in any segmentation, the parser answers whether the client
offers the method without authentication, having consumed exactly the greeting.\<close>

theorem greeting_read:
  assumes "ubs_ok b" and "fd_pending fd b = [5, n] @ methods @ rest"
    and "length methods = unat n" and "n \<noteq> 0"
  shows "\<exists>b'. readGreeting (fd_read fd) b = Some (Inr (0 \<in> set methods), b') \<and>
    fd_pending fd b' = rest \<and> ubs_ok b'"
  using async_rd.buf.sim_Inr [OF async_rd.buf.sim_readGreeting assms(1),
      of fd "0 \<in> set methods" rest] readGreeting_list [OF assms(3,4), of rest] assms(2)
  by auto

lemma greeting_read_witness:
  "\<exists>b'. readGreeting (fd_read 6) (chunked [[5], [2, 2], [0, 5, 1]]) = Some (Inr True, b') \<and>
    fd_pending 6 b' = [5, 1] \<and> ubs_ok b'"
  using greeting_read [of "chunked [[5], [2, 2], [0, 5, 1]]" 6 2 "[2, 0]" "[5, 1]"] by simp

text \<open>The request parser returns command, address and port of every well-formed SOCKS5
request, in any segmentation, and leaves exactly the bytes after it in the stream.\<close>

theorem socks_request_read:
  assumes "ubs_ok b" and "fd_pending fd b = [5, c, r] @ ap @ rest"
    and "writeAddrPort addr port = Inr ap" and "address_ok addr"
  shows "\<exists>b'. readRequest (fd_read fd) b =
      Some (Inr \<lparr>sr_cmd = socks_command_of_byte c, sr_address = addr, sr_port = port\<rparr>, b') \<and>
    fd_pending fd b' = rest \<and> ubs_ok b'"
proof -
  have "readRequest list_rd (fd_pending fd b) =
      Some (Inr \<lparr>sr_cmd = socks_command_of_byte c, sr_address = addr, sr_port = port\<rparr>, rest)"
    using readRequest_list [OF assms(3,4)] assms(2) by simp
  from async_rd.buf.sim_Inr [OF async_rd.buf.sim_readRequest assms(1) this] show ?thesis
    by blast
qed

lemma socks_request_read_witness:
  "\<exists>b'. readRequest (fd_read 6) (chunked [[5, 1], [0, 1, 127], [0, 0, 1, 0], [80, 9]]) =
      Some (Inr \<lparr>sr_cmd = Connect, sr_address = IPv4 [127, 0, 0, 1], sr_port = 80\<rparr>, b') \<and>
    fd_pending 6 b' = [9] \<and> ubs_ok b'"
proof -
  have "writeAddrPort (IPv4 [127, 0, 0, 1]) 80 = Inr [1, 127, 0, 0, 1, 0, 80]"
    by code_simp
  from socks_request_read [OF _ _ this, of "chunked [[5, 1], [0, 1, 127], [0, 0, 1, 0], [80, 9]]" 6 1 0 "[9]"]
  show ?thesis by (simp add: socks_command_of_byte_def)
qed

section \<open>UDP datagrams\<close>

lemma split_port:
  assumes "p + 2 \<le> length xs"
  shows "take p xs @ [xs ! p, xs ! (p + 1)] @ drop (p + 2) xs = xs"
proof -
  have "xs ! p # xs ! (p + 1) # drop (p + 2) xs = drop p xs"
    using assms by (metis Cons_nth_drop_Suc Suc_eq_plus1 add_2_eq_Suc' Suc_le_lessD Suc_lessD)
  then show ?thesis by simp
qed

lemma encode_parse_udp:
  assumes "parseUdpDatagram ([r1, r2, 0, t] @ rest) = Some (addr, port, payload)"
  shows "address_ok addr \<and> (\<exists>ap. writeAddrPort addr port = Inr ap \<and> t # rest = ap @ payload)"
proof -
  let ?ds = "[r1, r2, 0, t] @ rest"
  consider (v4) "t = 1" "6 \<le> length rest" "addr = IPv4 (take 4 rest)"
      "port = be16 (rest ! 4) (rest ! (4 + 1))" "payload = drop (4 + 2) rest"
    | (v6) "t = 4" "18 \<le> length rest" "addr = IPv6 (take 16 rest)"
      "port = be16 (rest ! 16) (rest ! (16 + 1))" "payload = drop (16 + 2) rest"
    | (dom) n xs where "t = 3" "rest = n # xs" "unat n + 2 \<le> length xs"
      "addr = Domain (bytes_string (take (unat n) xs))"
      "port = be16 (xs ! unat n) (xs ! (unat n + 1))" "payload = drop (unat n + 2) xs"
    using assms
    by (cases rest)
      (auto simp: parseUdpDatagram_def Let_def nth_Cons' drop_Cons' not_less split: if_splits)
  then show ?thesis
  proof cases
    case v4
    then show ?thesis
      using split_port [of 4 rest] by (simp add: writeAddrPort_def)
  next
    case v6
    then show ?thesis
      using split_port [of 16 rest] by (simp add: writeAddrPort_def)
  next
    case (dom n xs)
    then have "length (take (unat n) xs) = unat n"
      by simp
    moreover have "unat n \<le> 255"
      using unat_byte_less [of n] by simp
    ultimately show ?thesis
      using dom split_port [of "unat n" xs] by (simp add: writeAddrPort_def)
  qed
qed

lemma parse_udp_shape:
  assumes "parseUdpDatagram bs = Some r"
  obtains r1 r2 t rest where "bs = [r1, r2, 0, t] @ rest"
proof -
  from assms have "4 \<le> length bs"
    by (auto simp: parseUdpDatagram_def split: if_splits)
  then obtain r1 r2 f t rest where bs: "bs = r1 # r2 # f # t # rest"
    by (auto simp: numeral_eq_Suc Suc_le_length_iff)
  with assms have "f = 0"
    by (auto simp: parseUdpDatagram_def split: if_splits)
  with bs that [of r1 r2 t rest] show thesis by simp
qed

lemma parse_udp_reserved:
  "parseUdpDatagram (r1 # r2 # xs) = parseUdpDatagram (q1 # q2 # xs)"
  by (simp add: parseUdpDatagram_def Let_def nth_Cons' drop_Cons')

text \<open>C20: The UDP datagrams the relay accepts are exactly the encodings, up to the two reserved
bytes: parsing is the inverse of encoding in both directions, so neither loses nor invents a byte
of the payload.\<close>

theorem udp_datagram_iff:
  "parseUdpDatagram bs = Some (addr, port, payload) \<longleftrightarrow>
     address_ok addr \<and> (\<exists>ds r1 r2. encodeUdpDatagram addr port payload = Inr ds \<and>
       bs = [r1, r2] @ drop 2 ds)"
proof
  assume parse: "parseUdpDatagram bs = Some (addr, port, payload)"
  then obtain r1 r2 t rest where bs: "bs = [r1, r2, 0, t] @ rest"
    by (rule parse_udp_shape)
  from encode_parse_udp [of r1 r2 t rest addr port payload] parse bs
  obtain ap where "address_ok addr" "writeAddrPort addr port = Inr ap" "t # rest = ap @ payload"
    by auto
  then show "address_ok addr \<and> (\<exists>ds r1 r2. encodeUdpDatagram addr port payload = Inr ds \<and>
      bs = [r1, r2] @ drop 2 ds)"
    by (auto simp: encodeUdpDatagram_def bs)
next
  assume "address_ok addr \<and> (\<exists>ds r1 r2. encodeUdpDatagram addr port payload = Inr ds \<and>
      bs = [r1, r2] @ drop 2 ds)"
  then obtain ds r1 r2 where ok: "address_ok addr" and enc: "encodeUdpDatagram addr port payload = Inr ds"
    and bs: "bs = [r1, r2] @ drop 2 ds" by blast
  obtain rest where "ds = [0, 0] @ rest"
    using enc by (auto simp: encodeUdpDatagram_def split: sum.splits)
  with parse_encode_udp [OF enc ok] bs
  show "parseUdpDatagram bs = Some (addr, port, payload)"
    using parse_udp_reserved [of r1 r2 rest 0 0] by simp
qed

end
