(* ===== verification/Stream_Frames.thy ===== *)
theory Stream_Frames
  imports Streams_Props Socks5_Props
begin

text \<open>
  What reading a handshake from a buffered stream does to the socket behind it. A coroutine over
  \<open>UringBufferedStream\<close> takes a prefix of the receives that are to come and does not depend on
  the rest (\<open>rx_local\<close>, a frame property); with the simulation of Streams this tells which receives
  a parser consumes and what it leaves in the buffer (\<open>read_chunks\<close>).
\<close>

section \<open>The script of one descriptor\<close>

definition with_rx :: "int \<Rightarrow> recv_cqe list \<Rightarrow> net \<Rightarrow> net" where
  "with_rx fd cs w = w\<lparr>rx := (rx w)(fd := cs)\<rparr>"

definition with_script :: "int \<Rightarrow> recv_cqe list \<Rightarrow> net ubs \<Rightarrow> net ubs" where
  "with_script fd cs b = b\<lparr>ubs_inner := with_rx fd cs (ubs_inner b)\<rparr>"

lemma with_rx_simps [simp]:
  "rx (with_rx fd cs w) = (rx w)(fd := cs)" "tx (with_rx fd cs w) = tx w" "sd (with_rx fd cs w) = sd w"
  "sent (with_rx fd cs w) = sent w" "sends (with_rx fd cs w) = sends w" "wr_shut (with_rx fd cs w) = wr_shut w"
  "with_rx fd cs (with_rx fd ds w) = with_rx fd cs w" "with_rx fd (rx w fd) w = w"
  by (simp_all add: with_rx_def)

lemma with_script_simps [simp]:
  "ubs_buffer (with_script fd cs b) = ubs_buffer b" "ubs_consumed (with_script fd cs b) = ubs_consumed b"
  "ubs_inner (with_script fd cs b) = with_rx fd cs (ubs_inner b)"
  "ubs_available (with_script fd cs b) = ubs_available b"
  "with_script fd cs (with_script fd ds b) = with_script fd cs b"
  "with_script fd (rx (ubs_inner b) fd) b = b"
  by (simp_all add: with_script_def ubs_available_def)

lemma ubs_update_commute: "b\<lparr>ubs_inner := w, ubs_buffer := x\<rparr> = b\<lparr>ubs_buffer := x, ubs_inner := w\<rparr>"
  by (cases b) simp

lemma ubs_ok_with_script [simp]: "ubs_ok (with_script fd cs b) = ubs_ok b"
  by (simp add: ubs_ok_def)

section \<open>Locality\<close>

definition rx_local :: "int \<Rightarrow> (net ubs, 'a) co \<Rightarrow> bool" where
  "rx_local fd m \<longleftrightarrow> (\<forall>b r b'. m b = Some (r, b') \<longrightarrow>
     (\<exists>used. rx (ubs_inner b) fd = used @ rx (ubs_inner b') fd \<and>
        ubs_inner b' = with_rx fd (rx (ubs_inner b') fd) (ubs_inner b) \<and>
        (\<forall>rest. m (with_script fd (used @ rest) b) = Some (r, with_script fd rest b'))))"

named_theorems rx_local_intros \<open>coroutines that only receive\<close>

lemma rx_localI:
  assumes "\<And>b r b'. m b = Some (r, b') \<Longrightarrow>
    \<exists>used. rx (ubs_inner b) fd = used @ rx (ubs_inner b') fd \<and>
      ubs_inner b' = with_rx fd (rx (ubs_inner b') fd) (ubs_inner b) \<and>
      (\<forall>rest. m (with_script fd (used @ rest) b) = Some (r, with_script fd rest b'))"
  shows "rx_local fd m"
  using assms by (simp add: rx_local_def)

lemma rx_localE:
  assumes "rx_local fd m" and "m b = Some (r, b')"
  obtains used where "rx (ubs_inner b) fd = used @ rx (ubs_inner b') fd"
    and "ubs_inner b' = with_rx fd (rx (ubs_inner b') fd) (ubs_inner b)"
    and "\<And>rest. m (with_script fd (used @ rest) b) = Some (r, with_script fd rest b')"
  using assms unfolding rx_local_def by blast

lemma rx_local_return [rx_local_intros]: "rx_local fd (co_return a)"
  by (rule rx_localI) (auto intro: exI [of _ "[]"])

lemma rx_local_throw [rx_local_intros]: "rx_local fd (co_throw msg)"
  by (rule rx_localI) (auto intro: exI [of _ "[]"])

lemma rx_local_lift [rx_local_intros]: "rx_local fd (lift_exn r)"
  by (rule rx_localI) (auto simp: lift_exn_def intro: exI [of _ "[]"])

lemma rx_local_if [rx_local_intros]:
  "(c \<Longrightarrow> rx_local fd m) \<Longrightarrow> (\<not> c \<Longrightarrow> rx_local fd k) \<Longrightarrow> rx_local fd (if c then m else k)"
  by simp

lemma rx_local_bind [rx_local_intros]:
  assumes m: "rx_local fd m" and f: "\<And>a. rx_local fd (f a)"
  shows "rx_local fd (co_bind m f)"
proof (rule rx_localI)
  fix b r b'
  assume "co_bind m f b = Some (r, b')"
  then obtain r1 b1 where run: "m b = Some (r1, b1)"
    and rest: "case r1 of Inl e \<Rightarrow> r = Inl e \<and> b' = b1 | Inr a \<Rightarrow> f a b1 = Some (r, b')"
    by (auto simp: co_bind_def split: option.splits sum.splits)
  from rx_localE [OF m run] obtain u where
    u: "rx (ubs_inner b) fd = u @ rx (ubs_inner b1) fd" "ubs_inner b1 = with_rx fd (rx (ubs_inner b1) fd) (ubs_inner b)"
    "\<And>rest. m (with_script fd (u @ rest) b) = Some (r1, with_script fd rest b1)"
    by metis
  show "\<exists>used. rx (ubs_inner b) fd = used @ rx (ubs_inner b') fd \<and>
      ubs_inner b' = with_rx fd (rx (ubs_inner b') fd) (ubs_inner b) \<and>
      (\<forall>rest. co_bind m f (with_script fd (used @ rest) b) = Some (r, with_script fd rest b'))"
  proof (cases r1)
    case (Inl e)
    with rest u show ?thesis by (auto simp: co_bind_def intro!: exI [of _ u])
  next
    case (Inr a)
    with rest have "f a b1 = Some (r, b')" by simp
    from rx_localE [OF f this] obtain v where
      v: "rx (ubs_inner b1) fd = v @ rx (ubs_inner b') fd" "ubs_inner b' = with_rx fd (rx (ubs_inner b') fd) (ubs_inner b1)"
      "\<And>rest. f a (with_script fd (v @ rest) b1) = Some (r, with_script fd rest b')"
      by metis
    have "ubs_inner b' = with_rx fd (rx (ubs_inner b') fd) (ubs_inner b)"
      by (subst v(2), subst u(2)) simp
    with u v Inr show ?thesis
      by (intro exI [of _ "u @ v"]) (simp add: co_bind_def)
  qed
qed

lemma ubs_consume_frame:
  "ubs_inner (snd (ubs_consume n b)) = ubs_inner b"
  "ubs_consume n (with_script fd cs b) = (fst (ubs_consume n b), with_script fd cs (snd (ubs_consume n b)))"
  by (simp_all add: ubs_consume_def with_script_def Let_def)

lemma rx_local_consume: "rx_local fd (\<lambda>b. Some (Inr (fst (ubs_consume (n b) b)), snd (ubs_consume (n b) b)))"
  if "\<And>b cs. n (with_script fd cs b) = n b"
  by (rule rx_localI) (auto simp: ubs_consume_frame that intro: exI [of _ "[]"])

lemma rx_local_drain [rx_local_intros]: "rx_local fd ubs_drainRemaining"
  by (rule rx_localI) (auto simp: ubs_drainRemaining_def with_script_def intro: exI [of _ "[]"])

lemma rx_local_read [rx_local_intros]: "rx_local fd (ubs_read (async_recv fd) n)"
proof (rule rx_localI)
  let ?read = "ubs_read (async_recv fd) n"
  let ?frame = "\<lambda>b r b'. \<exists>used. rx (ubs_inner b) fd = used @ rx (ubs_inner b') fd \<and>
      ubs_inner b' = with_rx fd (rx (ubs_inner b') fd) (ubs_inner b) \<and>
      (\<forall>rest. ?read (with_script fd (used @ rest) b) = Some (r, with_script fd rest b'))"
  show "?frame b r b'" if "?read b = Some (r, b')" for b r b'
    using that
  proof (induction "length (rx (ubs_inner b) fd)" arbitrary: b)
    case 0
    then have "\<not> ubs_available b < n" and "(r, b') = (Inr (fst (ubs_consume n b)), snd (ubs_consume n b))"
      by (auto simp: ubs_read.simps [of _ _ b] async_recv_def prod.case_eq_if split: if_splits)
    then show ?case
      by (auto simp: ubs_read.simps [of _ _ "with_script _ _ _"] ubs_consume_frame prod.case_eq_if
          intro!: exI [of _ "[]"])
  next
    case (Suc m)
    show ?case
    proof (cases "ubs_available b < n")
      case False
      then show ?thesis
        using Suc.prems
        by (auto simp: ubs_read.simps [of _ _ b] ubs_read.simps [of _ _ "with_script _ _ _"]
            ubs_consume_frame prod.case_eq_if intro!: exI [of _ "[]"])
    next
      case True
      obtain c cs where c: "rx (ubs_inner b) fd = c # cs" "length cs = m"
        using Suc.hyps(2) by (cases "rx (ubs_inner b) fd") auto
      let ?w = "with_rx fd cs (ubs_inner b)"
      let ?b = "b\<lparr>ubs_inner := ?w\<rparr>"
      have recv: "async_recv fd k (ubs_inner b) = Some (Inr (recv_complete c), ?w)"
        "async_recv fd k (with_rx fd (c # rest) (ubs_inner b)) = Some (Inr (recv_complete c), with_rx fd rest (ubs_inner b))"
        for k rest
        using c(1) by (simp_all add: async_recv_def with_rx_def)
      show ?thesis
      proof (cases "rr_error (recv_complete c) \<or> rr_eof (recv_complete c)")
        case True
        then have "(r, b') = (if ubs_available ?b > 0
            then (Inr (fst (ubs_consume (ubs_available ?b) ?b)), snd (ubs_consume (ubs_available ?b) ?b)) else (Inr [], ?b))"
          using Suc.prems \<open>ubs_available b < n\<close> recv
          by (subst (asm) ubs_read.simps) (auto simp: prod.case_eq_if Let_def ubs_available_def split: if_splits)
        moreover have "?read (with_script fd (c # rest) b) = Some (r, with_script fd rest b')" for rest
          using calculation True \<open>ubs_available b < n\<close> recv
          by (subst ubs_read.simps)
            (auto simp: prod.case_eq_if Let_def ubs_available_def ubs_consume_def with_script_def)
        moreover have "ubs_inner b' = ?w"
          using calculation(1) by (auto simp: ubs_consume_frame split: if_splits)
        ultimately show ?thesis
          using c(1) by (intro exI [of _ "[c]"]) simp
      next
        case False
        let ?b1 = "b\<lparr>ubs_inner := ?w, ubs_buffer := ubs_buffer b @ rr_data (recv_complete c)\<rparr>"
        have "?read ?b1 = Some (r, b')"
          using Suc.prems \<open>ubs_available b < n\<close> recv False by (subst (asm) ubs_read.simps) simp
        with Suc.hyps(1) [of ?b1] c(2) obtain u where
          u: "cs = u @ rx (ubs_inner b') fd" "ubs_inner b' = with_rx fd (rx (ubs_inner b') fd) ?w"
          "\<forall>rest. ?read (with_script fd (u @ rest) ?b1) = Some (r, with_script fd rest b')"
          by auto
        have "?read (with_script fd ((c # u) @ rest) b) = Some (r, with_script fd rest b')" for rest
          using u(3) \<open>ubs_available b < n\<close> recv(2) False
          by (subst ubs_read.simps) (simp add: with_script_def ubs_available_def ubs_update_commute)
        moreover have "ubs_inner b' = with_rx fd (rx (ubs_inner b') fd) (ubs_inner b)"
          by (subst u(2)) simp
        ultimately show ?thesis
          using c(1) u(1) by (intro exI [of _ "c # u"]) simp
      qed
    qed
  qed
qed

lemma rx_local_read_exact [rx_local_intros]: "rx_local fd (read_exact (ubs_read (async_recv fd)) n err)"
  unfolding read_exact_def by (intro rx_local_intros)

lemma rx_local_decode: "rx_local fd (decode (ubs_read (async_recv fd)) v)"
  unfolding decode_def Let_def parseAddons_def readAddress_def
  by (intro rx_local_intros) (auto intro!: rx_local_intros split: command.split)

lemma rx_local_decodeResponse: "rx_local fd (decodeResponse (ubs_read (async_recv fd)))"
  unfolding decodeResponse_def Let_def by (intro rx_local_intros)

lemma rx_local_readGreeting: "rx_local fd (readGreeting (ubs_read (async_recv fd)))"
  unfolding readGreeting_def by (intro rx_local_intros)

lemma rx_local_readRequest: "rx_local fd (readRequest (ubs_read (async_recv fd)))"
  unfolding readRequest_def readRequestAddress_def by (intro rx_local_intros)

section \<open>Writing to one descriptor\<close>

text \<open>\<open>copyStream\<close> sends to its destination only.\<close>

lemma write_full_other:
  "write_full_from (async_send fd) data off w = Some (r, w') \<Longrightarrow> g \<noteq> fd \<Longrightarrow> sent w' g = sent w g"
proof (induction "async_send fd" data off w rule: write_full_from.induct)
  case (1 data off w)
  from "1.prems" show ?case
    by (subst (asm) write_full_from.simps)
      (auto simp: async_send_def split: if_splits list.splits dest!: "1.hyps" [rotated -2])
qed

lemma copy_stream_other:
  assumes "copy_stream (async_stream dst) (async_stream src) (\<lambda>_. False) w = Some (r, w')" and "g \<noteq> dst"
  shows "sent w' g = sent w g"
proof -
  have "async_stream dst = async_stream dst \<longrightarrow> async_stream src = async_stream src \<longrightarrow>
      sent (snd (r, w')) g = sent w g"
  proof (rule copy_stream.raw_induct [where P = "\<lambda>d s stop w p. d = async_stream dst \<longrightarrow> s = async_stream src \<longrightarrow>
        sent (snd p) g = sent w g", OF _ assms(1)], goal_cases)
    case (1 f d s stop w p)
    show ?case
    proof (intro impI)
      assume ds: "d = async_stream dst" "s = async_stream src"
      have rec: "f (async_stream dst) (async_stream src) stop v = Some q \<Longrightarrow> sent (snd q) g = sent v g" for v q
        using 1(1) ds by blast
      have wr: "write_full_from (async_send dst) x 0 v = Some (q, u) \<Longrightarrow> sent u g = sent v g" for x v q u
        using write_full_other assms(2) by blast
      from 1(2) ds assms(2) show "sent (snd p) g = sent w g"
        by (auto simp: co_bind_def async_recv_def async_shutdown_def async_writeFull_def
            split: if_splits option.splits list.splits sum.splits dest!: rec wr)
    qed
  qed
  then show ?thesis by simp
qed

section \<open>Which receives a parser consumes\<close>

text \<open>A receive that delivers \<open>c\<close>.\<close>

definition chunk :: "bytes \<Rightarrow> recv_cqe" where
  "chunk c = (int (length c), c)"

lemma chunk_eq: "(\<lambda>c. (int (length c), c)) = chunk"
  by (simp add: chunk_def fun_eq_iff)

lemmas copy_stream_chunks' = copy_stream_chunks [unfolded chunk_eq]

lemma ok_data_chunks:
  "[] \<notin> set cs \<Longrightarrow> ok_data (map recv_complete (map chunk cs)) = concat cs"
  "[] \<notin> set cs \<Longrightarrow> res \<le> 0 \<Longrightarrow> ok_data (map recv_complete (map chunk cs @ [(res, buf)])) = concat cs"
  by (induction cs) (auto simp: chunk_def recv_complete_def rr_defs)

lemma has_end_chunks:
  "res \<le> 0 \<Longrightarrow> has_end (map recv_complete (map chunk cs @ [(res, buf)]))"
  by (induction cs) (auto simp: recv_complete_def rr_defs)

lemma has_end_map: "has_end (map recv_complete cs) \<Longrightarrow> cs \<noteq> []"
  by auto

lemma map_chunk_split: "map chunk cs = us @ vs \<Longrightarrow> us = map chunk (take (length us) cs) \<and> vs = map chunk (drop (length us) cs)"
  by (metis append_eq_conv_conj take_map drop_map)

lemma read_chunks:
  assumes run: "\<And>b. ubs_ok b \<Longrightarrow> ubs_pending (\<lambda>w. map recv_complete (rx w fd)) b = bs @ early \<Longrightarrow>
      \<exists>b'. m b = Some (Inr a, b') \<and> ubs_pending (\<lambda>w. map recv_complete (rx w fd)) b' = early \<and> ubs_ok b'"
    and local: "rx_local fd m" and pre: "concat pre = bs @ early" "[] \<notin> set pre"
    and last: "pre = [] \<or> length early < length (last pre)"
    and b: "ubs_ok b" "ubs_consumed b = length (ubs_buffer b)" and script: "rx (ubs_inner b) fd = map chunk pre @ rest"
  obtains b' where "m b = Some (Inr a, b')" and "drop (ubs_consumed b') (ubs_buffer b') = early"
    and "ubs_inner b' = with_rx fd rest (ubs_inner b)" and "ubs_ok b'"
proof -
  let ?b = "with_script fd (map chunk pre) b"
  have pend: "ubs_pending (\<lambda>w. map recv_complete (rx w fd)) ?b = bs @ early"
    using b pre ok_data_chunks(1) by (simp add: ubs_pending_def)
  obtain b0 where b0: "m ?b = Some (Inr a, b0)"
    "ubs_pending (\<lambda>w. map recv_complete (rx w fd)) b0 = early" "ubs_ok b0"
    using run [of ?b] b(1) pend by auto
  from rx_localE [OF local b0(1)] obtain used where
    used: "map chunk pre = used @ rx (ubs_inner b0) fd" "ubs_inner b0 = with_rx fd (rx (ubs_inner b0) fd) (ubs_inner ?b)"
    "\<And>rest. m (with_script fd (used @ rest) ?b) = Some (Inr a, with_script fd rest b0)"
    by (metis with_script_simps(3) with_rx_simps(1) fun_upd_same)
  let ?left = "drop (length used) pre"
  have left: "used = map chunk (take (length used) pre)" "rx (ubs_inner b0) fd = map chunk ?left"
    using map_chunk_split [OF used(1)] by simp_all
  have "[] \<notin> set ?left"
    using pre(2) by (meson in_set_dropD)
  then have early: "drop (ubs_consumed b0) (ubs_buffer b0) @ concat ?left = early"
    using b0(2) left(2) ok_data_chunks(1) by (simp add: ubs_pending_def)
  have "?left = []"
  proof (rule ccontr)
    assume ne: "?left \<noteq> []"
    then have "last ?left = last pre" and "pre \<noteq> []"
      by auto
    moreover have "length (last ?left) \<le> length (concat ?left)"
      using ne by (metis concat_append concat.simps(2) concat.simps(1) append_Nil2 append_butlast_last_id length_append le_add2)
    ultimately show False
      using last early by (metis length_append le_add2 le_trans linorder_not_less)
  qed
  with left early have "used = map chunk pre" and early': "drop (ubs_consumed b0) (ubs_buffer b0) = early"
    by simp_all
  then have "m b = Some (Inr a, with_script fd rest b0)"
    using used(3) [of rest] script by (metis with_script_simps(5,6))
  moreover have "ubs_inner (with_script fd rest b0) = with_rx fd rest (ubs_inner b)"
    using arg_cong [OF used(2), of "with_rx fd rest"] by simp
  ultimately show thesis
    using early' b0(3) by (intro that [of "with_script fd rest b0"]) simp_all
qed

end
