(* ===== verification/Encryption_Props.thy ===== *)
theory Encryption_Props
  imports Encryption
begin

text \<open>
  The encryption layer: what one side encrypts the other decrypts, in both directions; nonces do not
  repeat; no EVP object leaks.
\<close>

section \<open>What OpenSSL promises\<close>

definition aead_ok :: "aead_alg \<Rightarrow> bool" where
  "aead_ok alg \<longleftrightarrow> (\<forall>key nonce p. length key = 32 \<longrightarrow> length nonce = 12 \<longrightarrow>
     length (snd (seal alg key nonce p)) = 16 \<and>
     unseal alg key nonce (fst (seal alg key nonce p)) (snd (seal alg key nonce p)) = Some p)"

definition crypto_ok :: "crypto \<Rightarrow> bool" where
  "crypto_ok C \<longleftrightarrow> aead_ok (aes_256_gcm C) \<and> aead_ok (chacha20_poly1305 C) \<and>
     (\<forall>a b. x25519 C a (x25519_public C b) = x25519 C b (x25519_public C a))"

definition all_succeed :: "evp_world \<Rightarrow> bool" where
  "all_succeed w \<longleftrightarrow> (\<forall>n. \<not> evp_fails w n)"

section \<open>EVP calls\<close>

lemma evp_call_cases:
  obtains (ok) w' where "evp_call w = (True, w')" "evp_live w' = evp_live w" "evp_fails w' = evp_fails w"
  | (bad) w' where "evp_call w = (False, w')" "evp_live w' = evp_live w" "evp_fails w' = evp_fails w"
  by (cases "evp_fails w (evp_calls w)") (auto simp: evp_call_def)

text \<open>Calls and chains keep the objects that are allocated; allocation adds one when it succeeds.\<close>

lemma evp_call_live: "evp_call w = (ok, w') \<Longrightarrow> evp_live w' = evp_live w"
  by (auto simp: evp_call_def)

lemma evp_new_live: "evp_new w = (ok, w') \<Longrightarrow> evp_live w' = evp_live w + (if ok then 1 else 0)"
  by (auto simp: evp_new_def evp_call_def)

lemma evp_chain_live: "evp_chain n w = (ok, w') \<Longrightarrow> evp_live w' = evp_live w"
  by (induction n arbitrary: w) (auto dest: evp_call_live split: prod.splits if_splits)

lemma evp_free_live [simp]: "evp_live (evp_free w) = evp_live w - 1"
  by (simp add: evp_free_def)

lemma evp_succeed [simp]:
  "all_succeed w \<Longrightarrow> evp_call w = (True, w\<lparr>evp_calls := evp_calls w + 1\<rparr>)"
  "all_succeed (w\<lparr>evp_calls := n\<rparr>) = all_succeed w" "all_succeed (w\<lparr>evp_live := n\<rparr>) = all_succeed w"
  by (simp_all add: all_succeed_def evp_call_def)

lemma evp_chain_succeed:
  "all_succeed w \<Longrightarrow> evp_chain n w = (True, w\<lparr>evp_calls := evp_calls w + n\<rparr>)"
  by (induction n arbitrary: w) simp_all

section \<open>No leak\<close>

lemmas evp_lives = evp_call_live evp_new_live evp_chain_live

text \<open>Once the context is allocated, a cipher frees it on every path, short inputs excepted.\<close>

lemma aead_encrypt_live:
  "aead_encrypt alg key nonce inp w = (r, w') \<Longrightarrow> evp_live w' = evp_live w - 1"
  by (auto simp: aead_encrypt_def split: prod.splits if_splits dest!: evp_lives)

lemma aead_decrypt_live:
  "aead_decrypt alg key nonce inp w = (r, w') \<Longrightarrow> 16 \<le> length inp \<Longrightarrow> evp_live w' = evp_live w - 1"
  by (auto simp: aead_decrypt_def Let_def split: prod.splits if_splits dest!: evp_lives)

lemma Aes256Gcm_live:
  "Aes256Gcm_process C key enc nonce inp w = (r, w') \<Longrightarrow> enc \<or> 16 \<le> length inp \<Longrightarrow>
     evp_live w' = evp_live w"
  by (auto simp: Aes256Gcm_process_def split: prod.splits if_splits
      dest!: evp_new_live aead_encrypt_live aead_decrypt_live)

lemma ChaCha20_live:
  "ChaCha20_process C key enc nonce inp w = (r, w') \<Longrightarrow> enc \<or> 16 \<le> length inp \<Longrightarrow>
     evp_live w' = evp_live w"
  by (auto simp: ChaCha20_process_def split: prod.splits if_splits
      dest!: evp_new_live aead_encrypt_live aead_decrypt_live)

fun encrypting :: "aead_cipher \<Rightarrow> bool" where
  "encrypting (Aes256GcmCipher key enc) = enc" | "encrypting (ChaCha20Cipher key enc) = enc"

lemma cipher_live:
  "cipher_process C c nonce inp w = (r, w') \<Longrightarrow> encrypting c \<or> 16 \<le> length inp \<Longrightarrow> evp_live w' = evp_live w"
  by (cases c) (auto dest: Aes256Gcm_live ChaCha20_live)

lemma create_encrypting: "AeadCipher_create m key enc = Some c \<Longrightarrow> encrypting c = enc"
  by (cases m) auto

lemma deriveKeySha256_live: "deriveKeySha256 C label secret w = (r, w') \<Longrightarrow> evp_live w' = evp_live w"
  by (auto simp: deriveKeySha256_def split: prod.splits if_splits dest!: evp_lives)

lemma deriveKeys_live: "deriveKeys C k s w = (r, s', w') \<Longrightarrow> evp_live w' = evp_live w"
  by (auto simp: deriveKeys_def Let_def split: prod.splits option.splits dest!: deriveKeySha256_live)

text \<open>A session's encrypting cipher encrypts: kept by every operation.\<close>

definition session_wf :: "enc_session \<Rightarrow> bool" where
  "session_wf s \<longleftrightarrow> (\<forall>c. encryptCipher s = Some c \<longrightarrow> encrypting c)"

lemma deriveKeys_wf: "deriveKeys C k s w = (r, s', w') \<Longrightarrow> session_wf s \<Longrightarrow> session_wf s'"
  by (auto simp: deriveKeys_def session_wf_def Let_def split: prod.splits option.splits dest: create_encrypting)

lemma computeSharedSecret_step:
  assumes "computeSharedSecret C peer s w = (r, s', w')"
  obtains (same) "s' = s" "evp_live w' = evp_live w" "r \<noteq> Inr True"
  | (derive) k w1 where "x25519 C (privateKey s) peer = Some k" "evp_live w1 = evp_live w"
      "deriveKeys C k s w1 = ((case r of Inl e \<Rightarrow> Inl e | Inr b \<Rightarrow> Inr ()), s', w')" "r \<noteq> Inr False"
proof -
  have "(s' = s \<and> evp_live w' = evp_live w \<and> r \<noteq> Inr True) \<or>
      (\<exists>k w1. deriveKeys C k s w1 = ((case r of Inl e \<Rightarrow> Inl e | Inr b \<Rightarrow> Inr ()), s', w') \<and>
         x25519 C (privateKey s) peer = Some k \<and> evp_live w1 = evp_live w \<and> r \<noteq> Inr False)"
    using assms
    by (auto simp: computeSharedSecret_def Let_def split: prod.splits if_splits option.splits sum.splits
        dest!: evp_new_live evp_call_live intro!: exI)
  then show thesis
    using same derive by blast
qed

lemma generateKeyPair_live: "generateKeyPair C s w = (r, s', w') \<Longrightarrow> evp_live w' = evp_live w"
  by (auto simp: generateKeyPair_def Let_def split: prod.splits if_splits dest!: evp_lives)

lemma generateKeyPair_wf: "generateKeyPair C s w = (r, s', w') \<Longrightarrow> session_wf s \<Longrightarrow> session_wf s'"
  by (auto simp: generateKeyPair_def session_wf_def Let_def split: prod.splits if_splits)

lemma enc_encrypt_live: "enc_encrypt C p s w = (r, s', w') \<Longrightarrow> session_wf s \<Longrightarrow> evp_live w' = evp_live w \<and> session_wf s'"
  by (auto simp: enc_encrypt_def session_wf_def Let_def split: option.splits if_splits prod.splits dest!: cipher_live)

lemma encryptServer_live:
  "encryptServer C p s w = (r, s', w') \<Longrightarrow> session_wf s \<Longrightarrow> evp_live w' = evp_live w \<and> session_wf s'"
  by (auto simp: encryptServer_def session_wf_def Let_def split: option.splits if_splits prod.splits
      dest!: create_encrypting cipher_live)

lemma decrypts_live:
  "enc_decrypt C m s w = (r, w') \<Longrightarrow> evp_live w' = evp_live w"
  "decryptClient C m s w = (r, w') \<Longrightarrow> evp_live w' = evp_live w"
  by (auto simp: enc_decrypt_def decryptClient_def split: option.splits if_splits dest!: cipher_live)

lemma computeSharedSecret_live:
  "computeSharedSecret C peer s w = (r, s', w') \<Longrightarrow> session_wf s \<Longrightarrow> evp_live w' = evp_live w \<and> session_wf s'"
  by (erule computeSharedSecret_step) (auto dest: deriveKeys_live deriveKeys_wf)

section \<open>Round trip\<close>

lemma length_nonce_bytes [simp]: "length (nonce_bytes n) = 12"
  by (simp add: nonce_bytes_def)

text \<open>The two directions of an agreed pair of sessions.\<close>

definition alg_of :: "crypto \<Rightarrow> aead_cipher \<Rightarrow> aead_alg" where
  "alg_of C c = (case c of Aes256GcmCipher k e \<Rightarrow> aes_256_gcm C | ChaCha20Cipher k e \<Rightarrow> chacha20_poly1305 C)"

fun key_of :: "aead_cipher \<Rightarrow> bytes" where
  "key_of (Aes256GcmCipher k e) = k" | "key_of (ChaCha20Cipher k e) = k"

lemma cipher_process_seal:
  assumes "encrypting c" and "cipher_process C c nonce p w = (Some out, w')"
  shows "out = fst (seal (alg_of C c) (key_of c) nonce p) @ snd (seal (alg_of C c) (key_of c) nonce p)"
  using assms
  by (cases c) (auto simp: Aes256Gcm_process_def ChaCha20_process_def aead_encrypt_def alg_of_def
      split: prod.splits if_splits)

lemma evp_new_succeed:
  "all_succeed w \<Longrightarrow> evp_new w = (True, w\<lparr>evp_calls := evp_calls w + 1, evp_live := evp_live w + 1\<rparr>)"
  by (simp add: evp_new_def)

lemma aead_decrypt_succeed:
  "all_succeed w \<Longrightarrow> 16 \<le> length inp \<Longrightarrow> fst (aead_decrypt alg key nonce inp w) =
     unseal alg key nonce (take (length inp - 16) inp) (drop (length inp - 16) inp)"
  by (simp add: aead_decrypt_def Let_def evp_chain_succeed del: evp_chain.simps)

lemma cipher_process_unseal:
  assumes "\<not> encrypting c" and "all_succeed w" and "length tag = 16"
  shows "fst (cipher_process C c nonce (ct @ tag) w) = unseal (alg_of C c) (key_of c) nonce ct tag"
  using assms
  by (cases c) (simp_all add: Aes256Gcm_process_def ChaCha20_process_def alg_of_def evp_new_succeed
      aead_decrypt_succeed)

lemma alg_of_ok: "crypto_ok C \<Longrightarrow> aead_ok (alg_of C c)"
  by (cases c) (auto simp: crypto_ok_def alg_of_def)

lemma seal_unseal:
  assumes "crypto_ok C" and "AeadCipher_create m key True = Some c" and "AeadCipher_create m key False = Some d"
    and "length key = 32" and "length nonce = 12" and "cipher_process C c nonce p w = (Some out, w')"
    and "all_succeed w0"
  shows "fst (cipher_process C d nonce out w0) = Some p" and "16 \<le> length out"
proof -
  have c: "encrypting c" "key_of c = key" "\<not> encrypting d" "key_of d = key" "alg_of C d = alg_of C c"
    using assms(2,3) by (cases m; auto simp: alg_of_def)+
  have out: "out = fst (seal (alg_of C c) key nonce p) @ snd (seal (alg_of C c) key nonce p)"
    using cipher_process_seal [OF c(1) assms(6)] c(2) by simp
  have ok: "length (snd (seal (alg_of C c) key nonce p)) = 16"
    "unseal (alg_of C c) key nonce (fst (seal (alg_of C c) key nonce p)) (snd (seal (alg_of C c) key nonce p)) = Some p"
    using alg_of_ok [OF assms(1), of c] assms(4,5) by (simp_all add: aead_ok_def)
  show "fst (cipher_process C d nonce out w0) = Some p"
    unfolding out using cipher_process_unseal [OF c(3) assms(7) ok(1), of C nonce] c(4,5) ok(2) by simp
  show "16 \<le> length out"
    by (simp add: out ok(1))
qed

text \<open>What key agreement establishes.\<close>

definition established :: "crypto \<Rightarrow> bytes \<Rightarrow> enc_session \<Rightarrow> bool" where
  "established C k s \<longleftrightarrow> es_ready s \<and>
     clientKey s = sha256 C (string_bytes ''VLESS Encryption: client key'' @ k) \<and> length (clientKey s) = 32 \<and>
     serverKey s = sha256 C (string_bytes ''VLESS Encryption: server key'' @ k) \<and> length (serverKey s) = 32 \<and>
     encryptCipher s = AeadCipher_create (es_method s) (clientKey s) True \<and>
     decryptCipher s = AeadCipher_create (es_method s) (serverKey s) False"

lemma deriveKeySha256_Some:
  "deriveKeySha256 C label k w = (Some key, w') \<Longrightarrow> key = sha256 C (string_bytes label @ k) \<and> length key = 32"
  by (auto simp: deriveKeySha256_def split: prod.splits if_splits)

lemma deriveKeys_established:
  "deriveKeys C k s w = (Inr (), s', w') \<Longrightarrow> established C k s' \<and> es_method s' = es_method s"
  by (auto simp: deriveKeys_def Let_def established_def split: prod.splits option.splits
      dest!: deriveKeySha256_Some)

lemma computeSharedSecret_established:
  assumes "computeSharedSecret C peer s w = (Inr True, s', w')"
  obtains k where "x25519 C (privateKey s) peer = Some k" and "established C k s'" and "es_method s' = es_method s"
  using assms by (elim computeSharedSecret_step) (auto dest!: deriveKeys_established)

section \<open>Nonces\<close>

lemma nonce_bytes_inject: "nonce_bytes m = nonce_bytes n \<longleftrightarrow> m = n"
proof
  assume "nonce_bytes m = nonce_bytes n"
  then have eq: "(ucast (drop_bit (8 * i) m) :: byte) = ucast (drop_bit (8 * i) n)" if "i < 8" for i
  proof -
    have "nonce_bytes w ! i = ucast (drop_bit (8 * i) w)" for w
      using that by (simp add: nonce_bytes_def nth_append)
    with \<open>nonce_bytes m = nonce_bytes n\<close> show ?thesis by metis
  qed
  show "m = n"
  proof (rule bit_word_eqI)
    fix k :: nat
    assume "k < LENGTH(64)"
    then have k: "k div 8 < 8" "8 * (k div 8) + k mod 8 = k" "k mod 8 < 8"
      by auto
    have "bit (ucast (drop_bit (8 * (k div 8)) m) :: byte) (k mod 8) = bit (ucast (drop_bit (8 * (k div 8)) n) :: byte) (k mod 8)"
      using eq [OF k(1)] by simp
    with k show "bit m k = bit n k"
      by (simp add: bit_simps)
  qed
qed simp

lemma of_nat_distinct:
  assumes "i < j" and "j < 2 ^ 64"
  shows "(n :: 64 word) + of_nat i \<noteq> n + of_nat j"
proof
  assume "n + of_nat i = n + of_nat j"
  then have "(of_nat i :: 64 word) = of_nat j"
    by simp
  then have "unat (of_nat i :: 64 word) = unat (of_nat j :: 64 word)"
    by simp
  with assms show False
    by (simp add: unat_of_nat take_bit_nat_eq_self)
qed

text \<open>A sequence of messages encrypted one after the other; a failed encryption is \<open>None\<close>.\<close>

fun messages ::
    "(bytes \<Rightarrow> 's \<Rightarrow> 'w \<Rightarrow> bytes option \<times> 's \<times> 'w) \<Rightarrow> bytes list \<Rightarrow> 's \<Rightarrow> 'w \<Rightarrow> bytes option list" where
  "messages enc [] s w = []"
| "messages enc (p # ps) s w = (case enc p s w of (r, s, w) \<Rightarrow> r # messages enc ps s w)"

text \<open>An encryptor that numbers its messages: the argument for both directions is made once.\<close>

locale nonce_counter =
  fixes enc :: "bytes \<Rightarrow> 's \<Rightarrow> 'w \<Rightarrow> bytes option \<times> 's \<times> 'w"
    and ctr :: "'s \<Rightarrow> 64 word"
    and active :: "'s \<Rightarrow> bool"
  assumes prefix: "enc p s w = (Some m, s', w') \<Longrightarrow> take 12 m = nonce_bytes (ctr s)"
    and count: "enc p s w = (r, s', w') \<Longrightarrow> active s \<Longrightarrow> ctr s' = ctr s + 1"
    and keeps: "enc p s w = (r, s', w') \<Longrightarrow> active s' = active s"
    and inactive: "enc p s w = (r, s', w') \<Longrightarrow> \<not> active s \<Longrightarrow> r = None"
begin

lemma inactive_messages: "\<not> active s \<Longrightarrow> i < length ps \<Longrightarrow> messages enc ps s w ! i = None"
proof (induction ps arbitrary: s w i)
  case (Cons p ps)
  obtain r s' w' where e: "enc p s w = (r, s', w')"
    by (cases "enc p s w") auto
  with Cons keeps [OF e] inactive [OF e] show ?case
    by (cases i) auto
qed simp

lemma messages_nonce:
  "i < length ps \<Longrightarrow> messages enc ps s w ! i = Some m \<Longrightarrow> take 12 m = nonce_bytes (ctr s + of_nat i)"
proof (induction ps arbitrary: s w i)
  case (Cons p ps)
  obtain r s' w' where e: "enc p s w = (r, s', w')"
    by (cases "enc p s w") auto
  show ?case
  proof (cases i)
    case 0
    with Cons.prems e have "enc p s w = (Some m, s', w')"
      by simp
    from prefix [OF this] 0 show ?thesis
      by simp
  next
    case (Suc j)
    with Cons.prems e have m: "messages enc ps s' w' ! j = Some m" "j < length ps"
      by simp_all
    then have "active s'"
      using inactive_messages [of s' j ps w'] by auto
    then have "ctr s + of_nat i = ctr s' + of_nat j"
      using count [OF e] keeps [OF e] by (simp add: Suc)
    with Cons.IH [OF m(2,1)] show ?thesis
      by simp
  qed
qed simp

lemma nonces_distinct:
  assumes "length ps \<le> 2 ^ 64" and "i < j" and "j < length ps"
    and "messages enc ps s w ! i = Some a" and "messages enc ps s w ! j = Some b"
  shows "take 12 a \<noteq> take 12 b"
  using messages_nonce [of i ps s w a] messages_nonce [of j ps s w b] assms
    of_nat_distinct [OF assms(2), of "ctr s"]
  by (simp add: nonce_bytes_inject)

end

lemma enc_encrypt_nonce:
  assumes "enc_encrypt C p s w = (r, s', w')"
  shows "r \<noteq> None \<Longrightarrow> take 12 (the r) = nonce_bytes (clientNonce s)"
    and "encryptCipher s \<noteq> None \<and> es_ready s \<Longrightarrow> clientNonce s' = clientNonce s + 1"
    and "encryptCipher s' = encryptCipher s \<and> es_ready s' = es_ready s"
    and "encryptCipher s = None \<or> \<not> es_ready s \<Longrightarrow> r = None"
  using assms
  by (auto simp: enc_encrypt_def incrementNonce_def Let_def split: option.splits if_splits prod.splits)

lemma encryptServer_nonce:
  assumes "encryptServer C p s w = (r, s', w')"
  shows "r \<noteq> None \<Longrightarrow> take 12 (the r) = nonce_bytes (serverNonce s)"
    and "es_method s \<noteq> EncNone \<and> es_ready s \<Longrightarrow> serverNonce s' = serverNonce s + 1"
    and "es_method s' = es_method s \<and> es_ready s' = es_ready s"
    and "es_method s = EncNone \<or> \<not> es_ready s \<Longrightarrow> r = None"
  using assms
  by (cases "es_method s"; auto simp: encryptServer_def incrementNonce_def Let_def split: option.splits if_splits prod.splits)+

interpretation client_nonces: nonce_counter "enc_encrypt C" clientNonce "\<lambda>s. encryptCipher s \<noteq> None \<and> es_ready s"
  for C
proof (unfold_locales, goal_cases)
  case (1 p s w m s' w')
  from enc_encrypt_nonce(1) [OF this] show ?case by simp
next
  case (2 p s w r s' w')
  from enc_encrypt_nonce(2) [OF this(1)] this(2) show ?case by simp
next
  case (3 p s w r s' w')
  from enc_encrypt_nonce(3) [OF this] show ?case by simp
next
  case (4 p s w r s' w')
  from enc_encrypt_nonce(4) [OF this(1)] this(2) show ?case by blast
qed

interpretation server_nonces: nonce_counter "encryptServer C" serverNonce "\<lambda>s. es_method s \<noteq> EncNone \<and> es_ready s"
  for C
proof (unfold_locales, goal_cases)
  case (1 p s w m s' w')
  from encryptServer_nonce(1) [OF this] show ?case by simp
next
  case (2 p s w r s' w')
  from encryptServer_nonce(2) [OF this(1)] this(2) show ?case by simp
next
  case (3 p s w r s' w')
  from encryptServer_nonce(3) [OF this] show ?case by simp
next
  case (4 p s w r s' w')
  from encryptServer_nonce(4) [OF this(1)] this(2) show ?case by blast
qed

section \<open>Properties\<close>


text \<open>A sample of OpenSSL for the witnesses: the plaintext with a tag that repeats the key's first byte.\<close>

definition sample_aead :: aead_alg where
  "sample_aead = \<lparr>seal = (\<lambda>key nonce p. (p, replicate 16 (hd key))),
     unseal = (\<lambda>key nonce ct tag. if tag = replicate 16 (hd key) then Some ct else None)\<rparr>"

definition sample_crypto :: crypto where
  "sample_crypto = \<lparr>aes_256_gcm = sample_aead, chacha20_poly1305 = sample_aead,
     sha256 = (\<lambda>x. replicate 32 (foldl (+) 0 x)), x25519_public = (\<lambda>a. a),
     x25519 = (\<lambda>a b. Some [foldl (+) 0 a * foldl (+) 0 b]), x25519_random = (\<lambda>n. [of_nat n])\<rparr>"

definition sample_evp :: "nat \<Rightarrow> evp_world" where
  "sample_evp n = \<lparr>evp_fails = (\<lambda>_. False), evp_calls = n, evp_live = 0\<rparr>"

lemma sample_succeed [simp]: "all_succeed (sample_evp n)"
  by (simp add: all_succeed_def sample_evp_def)

lemma sample_crypto_ok: "crypto_ok sample_crypto"
  by (auto simp: crypto_ok_def aead_ok_def sample_crypto_def sample_aead_def mult.commute)


text \<open>C28: No two of up to \<open>2^64\<close> messages encrypted one after the other in the same direction of a
session carry the same nonce, even when some of the encryptions fail.\<close>

theorem nonces_unique:
  assumes "length msgs \<le> 2 ^ 64" and "i < j" and "j < length msgs"
    and "enc = enc_encrypt C \<or> enc = encryptServer C"
    and "messages enc msgs s w ! i = Some a" and "messages enc msgs s w ! j = Some b"
  shows "take 12 a \<noteq> take 12 b"
  using client_nonces.nonces_distinct [of msgs i j C s w a b]
    server_nonces.nonces_distinct [of msgs i j C s w a b] assms by auto

definition sample_session :: enc_session where
  "sample_session = (enc_session_init X25519_Chacha20)\<lparr>es_ready := True, clientNonce := -1,
     encryptCipher := Some (ChaCha20Cipher [3] True)\<rparr>"

lemma nonces_unique_witness:
  "\<exists>a b. messages (enc_encrypt sample_crypto) [[1], [2]] sample_session (sample_evp 0) = [Some a, Some b] \<and>
     take 12 a \<noteq> take 12 b"
proof -
  obtain a b where m: "messages (enc_encrypt sample_crypto) [[1], [2]] sample_session (sample_evp 0) = [Some a, Some b]"
    by (simp add: enc_encrypt_def sample_session_def incrementNonce_def Let_def ChaCha20_process_def
        aead_encrypt_def evp_new_def evp_call_def evp_free_def sample_evp_def numeral_3_eq_3)
  from nonces_unique [of "[[1], [2]]" 0 1 "enc_encrypt sample_crypto" sample_crypto sample_session "sample_evp 0" a b] m
  show ?thesis by simp
qed

text \<open>C29: No operation of a session leaks an EVP object or frees one twice, on any failure path:
the number of live objects after it is the number before. The cipher that would leak its context on an
input shorter than the tag is never called with one.\<close>

theorem encryption_frees_everything:
  assumes "session_wf s"
  shows "evp_live (snd (snd (generateKeyPair C s w))) = evp_live w \<and>
    evp_live (snd (snd (computeSharedSecret C peer s w))) = evp_live w \<and>
    evp_live (snd (snd (enc_encrypt C p s w))) = evp_live w \<and>
    evp_live (snd (snd (encryptServer C p s w))) = evp_live w \<and>
    evp_live (snd (enc_decrypt C ct s w)) = evp_live w \<and>
    evp_live (snd (decryptClient C ct s w)) = evp_live w \<and>
    session_wf (fst (snd (generateKeyPair C s w))) \<and>
    session_wf (fst (snd (computeSharedSecret C peer s w))) \<and>
    session_wf (fst (snd (enc_encrypt C p s w))) \<and> session_wf (fst (snd (encryptServer C p s w)))"
  using generateKeyPair_live [of C s w] generateKeyPair_wf [of C s w, OF _ assms]
    computeSharedSecret_live [of C peer s w, OF _ assms]
    enc_encrypt_live [of C p s w, OF _ assms] encryptServer_live [of C p s w, OF _ assms]
    decrypts_live(1) [of C ct s w] decrypts_live(2) [of C ct s w]
  by (metis prod.collapse)

lemma encryption_frees_everything_witness:
  "evp_live (snd (snd (computeSharedSecret sample_crypto [1] (enc_session_init X25519_AES256GCM)
     \<lparr>evp_fails = (\<lambda>n. n = 4), evp_calls = 0, evp_live = 5\<rparr>))) = 5"
  using encryption_frees_everything [of "enc_session_init X25519_AES256GCM" sample_crypto
      "\<lparr>evp_fails = (\<lambda>n. n = 4), evp_calls = 0, evp_live = 5\<rparr>" "[1]"]
  by (simp add: session_wf_def enc_session_init_def)

section \<open>The type of a session\<close>

text \<open>The sessions that the operations make of a new one, in any order and with any failures.\<close>

inductive session_reach :: "crypto \<Rightarrow> encryption_method \<Rightarrow> enc_session \<Rightarrow> bool" for C m where
  session_new: "session_reach C m (enc_session_init m)"
| session_generate: "session_reach C m s \<Longrightarrow> session_reach C m (fst (snd (generateKeyPair C s w)))"
| session_agree: "session_reach C m s \<Longrightarrow> session_reach C m (fst (snd (computeSharedSecret C peer s w)))"
| session_encrypt: "session_reach C m s \<Longrightarrow> session_reach C m (fst (snd (enc_encrypt C p s w)))"
| session_answer: "session_reach C m s \<Longrightarrow> session_reach C m (fst (snd (encryptServer C p s w)))"

text \<open>The cipher object that the method calls for, with a key of 32 bytes, for the given direction.\<close>

fun cipher_typed :: "encryption_method \<Rightarrow> bool \<Rightarrow> aead_cipher \<Rightarrow> bool" where
  "cipher_typed m dir (Aes256GcmCipher key e) \<longleftrightarrow> m = X25519_AES256GCM \<and> length key = 32 \<and> e = dir"
| "cipher_typed m dir (ChaCha20Cipher key e) \<longleftrightarrow> m = X25519_Chacha20 \<and> length key = 32 \<and> e = dir"

definition session_typed :: "encryption_method \<Rightarrow> enc_session \<Rightarrow> bool" where
  "session_typed m s \<longleftrightarrow> es_method s = m \<and>
     length (privateKey s) = 32 \<and> length (publicKey s) = 32 \<and> length (clientKey s) = 32 \<and> length (serverKey s) = 32 \<and>
     (\<forall>c. encryptCipher s = Some c \<longrightarrow> es_ready s \<and> cipher_typed m True c) \<and>
     (\<forall>c. decryptCipher s = Some c \<longrightarrow> es_ready s \<and> cipher_typed m False c) \<and>
     (es_ready s \<longrightarrow> (encryptCipher s = None \<longleftrightarrow> m = EncNone) \<and> (decryptCipher s = None \<longleftrightarrow> m = EncNone))"

lemma created_typed:
  "AeadCipher_create m key dir = Some c \<Longrightarrow> length key = 32 \<Longrightarrow> cipher_typed m dir c"
  "AeadCipher_create m key dir = None \<longleftrightarrow> m = EncNone"
  by (cases m; auto)+

lemma deriveKeys_typed:
  assumes "session_typed m s" and "deriveKeys C k s w = (r, s', w')"
  shows "session_typed m s'"
proof -
  obtain ck w1 where ck: "deriveKeySha256 C ''VLESS Encryption: client key'' k w = (ck, w1)"
    by fastforce
  show ?thesis
  proof (cases ck)
    case None
    with ck assms show ?thesis by (simp add: deriveKeys_def)
  next
    case (Some key)
    obtain sk w2 where sk: "deriveKeySha256 C ''VLESS Encryption: server key'' k w1 = (sk, w2)"
      by fastforce
    have key: "length key = 32"
      using deriveKeySha256_Some [of C _ k w key w1] ck Some by blast
    show ?thesis
    proof (cases sk)
      case None
      with Some key ck sk assms show ?thesis by (auto simp: deriveKeys_def session_typed_def Let_def)
    next
      case (Some key')
      moreover have "length key' = 32"
        using deriveKeySha256_Some [of C _ k w1 key' w2] sk Some by blast
      ultimately have "s' = s\<lparr>clientKey := key, serverKey := key', encryptCipher := AeadCipher_create m key True,
          decryptCipher := AeadCipher_create m key' False, es_ready := True\<rparr>"
        using \<open>ck = Some key\<close> ck sk assms by (auto simp: deriveKeys_def session_typed_def Let_def)
      with key \<open>length key' = 32\<close> assms(1) show ?thesis
        by (auto simp: session_typed_def created_typed)
    qed
  qed
qed

lemma agree_typed:
  assumes "session_typed m s" and "computeSharedSecret C peer s w = (r, s', w')"
  shows "session_typed m s'"
  using assms(2) by (cases rule: computeSharedSecret_step) (use assms(1) deriveKeys_typed in auto)

lemma generate_typed:
  assumes "session_typed m s" and "\<And>n. length (x25519_random C n) = 32" and "\<And>k. length (x25519_public C k) = 32"
    and "generateKeyPair C s w = (r, s', w')"
  shows "session_typed m s'"
  using assms by (auto simp: generateKeyPair_def session_typed_def Let_def split: prod.splits if_splits)

lemma encrypt_typed:
  "session_typed m s \<Longrightarrow> enc_encrypt C p s w = (r, s', w') \<Longrightarrow> session_typed m s'"
  "session_typed m s \<Longrightarrow> encryptServer C p s w = (r, s', w') \<Longrightarrow> session_typed m s'"
  by (auto simp: enc_encrypt_def encryptServer_def session_typed_def Let_def split: prod.splits option.splits if_splits)

lemma aead_encrypt_succeed: "all_succeed w \<Longrightarrow> fst (aead_encrypt alg key nonce p w) \<noteq> None"
  by (simp add: aead_encrypt_def evp_chain_succeed del: evp_chain.simps)

lemma cipher_encrypts: "cipher_typed m True c \<Longrightarrow> all_succeed w \<Longrightarrow> fst (cipher_process C c nonce p w) \<noteq> None"
  using aead_encrypt_succeed [of "w\<lparr>evp_calls := evp_calls w + 1, evp_live := evp_live w + 1\<rparr>"]
  by (cases c) (auto simp: Aes256Gcm_process_def ChaCha20_process_def evp_new_succeed)

lemma typed_encrypts:
  assumes "session_typed m s" and "es_ready s" and "m \<noteq> EncNone" and "all_succeed w"
  shows "fst (enc_encrypt C p s w) \<noteq> None" and "fst (encryptServer C p s w) \<noteq> None"
proof -
  obtain c where "encryptCipher s = Some c" "cipher_typed m True c"
    using assms(1-3) by (cases "encryptCipher s") (auto simp: session_typed_def)
  with cipher_encrypts [OF _ assms(4)] assms(2) show "fst (enc_encrypt C p s w) \<noteq> None"
    by (auto simp: enc_encrypt_def incrementNonce_def Let_def split: prod.splits option.splits) (metis fst_conv option.distinct(1))
  have "length (serverKey s) = 32" "es_method s = m"
    using assms(1) by (simp_all add: session_typed_def)
  with created_typed [of m "serverKey s" True] assms(3) obtain d where
    "AeadCipher_create (es_method s) (serverKey s) True = Some d" "cipher_typed m True d"
    by (cases "AeadCipher_create m (serverKey s) True") auto
  with cipher_encrypts [OF _ assms(4)] assms(2) show "fst (encryptServer C p s w) \<noteq> None"
    by (auto simp: encryptServer_def incrementNonce_def Let_def split: prod.splits option.splits) (metis fst_conv option.distinct(1))
qed

text \<open>C40: A session keeps its type under every sequence of operations, failing ones included: the method never
changes, every key has 32 bytes, a cipher object exists exactly when the session is ready, and it is the
cipher of the method, with a key of 32 bytes, for its direction. A ready session of such a type fails to
encrypt only when a call of OpenSSL fails. X25519 is assumed to give keys of 32 bytes.\<close>

theorem session_type_kept:
  assumes "session_reach C m s" and "\<And>n. length (x25519_random C n) = 32" and "\<And>k. length (x25519_public C k) = 32"
  shows "session_typed m s \<and>
    (es_ready s \<and> m \<noteq> EncNone \<and> all_succeed w \<longrightarrow>
       fst (enc_encrypt C p s w) \<noteq> None \<and> fst (encryptServer C p s w) \<noteq> None)"
proof -
  have "session_typed m s"
    using assms(1)
  proof induction
    case session_new
    then show ?case by (simp add: session_typed_def enc_session_init_def)
  next
    case (session_generate s w)
    with generate_typed [OF _ assms(2,3)] show ?case by (metis prod.collapse)
  next
    case (session_agree s peer w)
    with agree_typed show ?case by (metis prod.collapse)
  next
    case (session_encrypt s p w)
    with encrypt_typed(1) show ?case by (metis prod.collapse)
  next
    case (session_answer s p w)
    with encrypt_typed(2) show ?case by (metis prod.collapse)
  qed
  with typed_encrypts show ?thesis by blast
qed

lemma session_type_kept_witness:
  "session_typed X25519_Chacha20 (fst (snd (generateKeyPair (sample_crypto\<lparr>x25519_random := (\<lambda>n. replicate 32 (of_nat n)),
     x25519_public := (\<lambda>k. replicate 32 (hd k))\<rparr>) (enc_session_init X25519_Chacha20) (sample_evp 0))))"
  using session_type_kept [OF session_generate [OF session_new, where w = "sample_evp 0"],
    of "sample_crypto\<lparr>x25519_random := (\<lambda>n. replicate 32 (of_nat n)), x25519_public := (\<lambda>k. replicate 32 (hd k))\<rparr>"
      X25519_Chacha20 "sample_evp 0" "[]"]
  by simp

end
