(* ===== verification/Server_Props.thy ===== *)
theory Server_Props
  imports Server Stream_Frames Protocol_Props Encryption_Props
begin

text \<open>
  The server's connection as a whole: a TCP client's payload reaches the target, and the life of the
  two coroutines: the connection is reclaimed exactly when neither of them runs.
\<close>

section \<open>What the handshake leaves in the socket\<close>

text \<open>Script, buffer and payload after a handshake on a client that sends the chunks \<open>cs\<close>.\<close>

lemma decode_chunks:
  assumes "encodeRequest req = Inr bs" and "req_command req = TCP \<or> req_command req = UDP"
    and "length (req_uuid req) = 16" and "address_ok (req_address req)"
    and "validator_contains v (req_uuid req)" and "[] \<notin> set cs" and "concat cs = bs @ payload" and "res \<le> 0"
    and "rx w fd = map chunk cs @ [(res, buf)]"
  obtains b' k where "decode (ubs_read (async_recv fd)) v (ubs_init w) =
      Some (Inr (req\<lparr>req_version := 0, req_flow := [], req_encryption := [], req_seed := []\<rparr>), b')"
    and "ubs_inner b' = with_rx fd (map chunk (drop k cs) @ [(res, buf)]) w"
    and "drop (ubs_consumed b') (ubs_buffer b') @ concat (drop k cs) = payload"
proof -
  let ?req = "req\<lparr>req_version := 0, req_flow := [], req_encryption := [], req_seed := []\<rparr>"
  let ?b = "ubs_init w"
  have pend: "fd_pending fd ?b = bs @ payload"
    using ok_data_chunks(2) [OF assms(6,8), of buf] assms(7,9) by simp
  have ended: "fd_ended fd ?b"
    using has_end_chunks [OF assms(8), of cs buf] assms(9) by (simp add: ubs_ended_def ubs_init_def)
  have "decode list_rd v (fd_pending fd ?b) = Some (Inr ?req, payload)"
    using decode_encode_list [OF assms(1-5)] pend by simp
  from async_rd.buf.sim_Inr [OF async_rd.buf.sim_decode ubs_ok_init this] obtain b' where
    dec: "decode (ubs_read (async_recv fd)) v ?b = Some (Inr ?req, b')"
    and b': "fd_pending fd b' = payload" "fd_ended fd b'"
    using ended by auto
  from rx_localE [OF rx_local_decode dec] obtain used where
    used: "map chunk cs @ [(res, buf)] = used @ rx (ubs_inner b') fd"
      "ubs_inner b' = with_rx fd (rx (ubs_inner b') fd) w"
    using assms(9) by (auto simp: ubs_init_def)
  let ?k = "length used"
  have "rx (ubs_inner b') fd \<noteq> []"
    using b'(2) has_end_map by (auto simp: ubs_ended_def)
  then have "?k \<le> length cs"
    using arg_cong [OF used(1), of length] by (cases "rx (ubs_inner b') fd") auto
  moreover have "rx (ubs_inner b') fd = drop ?k (map chunk cs @ [(res, buf)])"
    using used(1) by simp
  ultimately have rx: "rx (ubs_inner b') fd = map chunk (drop ?k cs) @ [(res, buf)]"
    by (simp add: drop_map)
  have "[] \<notin> set (drop ?k cs)"
    using assms(6) by (meson in_set_dropD)
  then have "fd_pending fd b' = drop (ubs_consumed b') (ubs_buffer b') @ concat (drop ?k cs)"
    using ok_data_chunks(2) [OF _ assms(8), of "drop ?k cs" buf] rx by (simp add: ubs_pending_def)
  with b'(1) rx used(2) dec show thesis
    by (intro that [of b' ?k]) simp_all
qed

section \<open>Running the network inside the connection\<close>

lemma vc_net_set [simp]: "vc_net (set_net w s) = w"
  by (simp add: vc_net_def set_net_def)

lemma set_net_simps [simp]:
  "clientFd (set_net w s) = clientFd s" "targetFd (set_net w s) = targetFd s"
  "vc_closed (set_net w s) = vc_closed s" "clientReadDone (set_net w s) = clientReadDone s"
  "targetReadDone (set_net w s) = targetReadDone s" "targetTaskStarted (set_net w s) = targetTaskStarted s"
  "handshakeRemaining (set_net w s) = handshakeRemaining s" "useVision (set_net w s) = useVision s"
  "useEncryption (set_net w s) = useEncryption s" "vc_log (set_net w s) = vc_log s"
  "targetAddr (set_net w s) = targetAddr s" "vc_command (set_net w s) = vc_command s"
  by (simp_all add: set_net_def)

lemma set_net_set [simp]: "set_net w (set_net w' s) = set_net w s"
  by (simp add: set_net_def)

lemma on_net_eval: "m (vc_net s) = Some (r, w) \<Longrightarrow> on_net m s = Some (r, set_net w s)"
  by (simp add: on_net_def embed_def)

lemma on_net_ops_simps [simp]:
  "st_read (on_net_ops ops) n = on_net (st_read ops n)"
  "st_writeFull (on_net_ops ops) d = on_net (st_writeFull ops d)"
  "st_shutdownWrite (on_net_ops ops) = on_net (st_shutdownWrite ops)"
  by (simp_all add: on_net_ops_def on_net_def embed_def)

lemma copy_stream_on_net:
  assumes "copy_stream dst src (\<lambda>_. False) w = Some (r, w')" and "\<not> vc_closed s"
  shows "copy_stream (on_net_ops dst) (on_net_ops src) vc_closed (set_net w s) = Some (r, set_net w' s)"
  unfolding on_net_ops_def by (rule vc_part.copy_stream_embed [OF assms(1)]) (simp add: assms(2))

text \<open>A relay of the connection that copies.\<close>

lemma copy_in_connection:
  assumes "\<not> vc_closed s" and "rx (vc_net s) src = map chunk cs @ [(res, buf)]" and "res \<le> 0"
    and "[] \<notin> set cs" and "accept_all cs (tx (vc_net s) dst) = Some rest"
  obtains s' where "copy_stream (on_net_ops (async_stream dst)) (on_net_ops (async_stream src)) vc_closed s = Some (Inr (res = 0), s')"
    and "sent (vc_net s') dst = sent (vc_net s) dst @ concat cs" and "wr_shut (vc_net s') dst"
proof -
  from copy_stream_chunks' [of "vc_net s" src cs res buf "[]" dst rest] assms(2-5)
  obtain w' where w': "copy_stream (async_stream dst) (async_stream src) (\<lambda>_. False) (vc_net s) = Some (Inr (res = 0), w')"
    "sent w' dst = sent (vc_net s) dst @ concat cs" "wr_shut w' dst"
    by auto
  have "set_net (vc_net s) s = s"
    by (simp add: vc_net_def set_net_def)
  with copy_stream_on_net [OF w'(1), of s] assms(1) w'(2,3) show thesis
    by (intro that [of "set_net w' s"]) simp_all
qed

section \<open>A plain TCP session\<close>

lemma accept_0 [simp]: "accept 0 rs = Some rs"
  by (simp add: accept.simps)

lemma vc_fields [simp]:
  "vc_net (s\<lparr>targetFd := fd\<rparr>) = vc_net s" "vc_net (s\<lparr>targetAddr := a\<rparr>) = vc_net s"
  "vc_net (startTargetTask s) = vc_net s" "vc_net (s\<lparr>handshakeRemaining := bs\<rparr>) = vc_net s"
  "vc_net (vc_logs cs s) = vc_net s" "vc_net (s\<lparr>vc_command := c\<rparr>) = vc_net s"
  "vc_net (s\<lparr>clientReadDone := b\<rparr>) = vc_net s" "vc_net (s\<lparr>vc_closed := b\<rparr>) = vc_net s"
  by (simp_all add: vc_net_def startTargetTask_def vc_logs_def)

text \<open>From an established target: the bytes left over from the handshake, then the relay.\<close>

lemma forward_and_relay:
  assumes "se_tls E = None" and "\<not> useEncryption s" and "\<not> useVision s" and "\<not> vc_closed s"
    and "rx (vc_net s) (clientFd s) = map chunk cs @ [(res, buf)]" and "res \<le> 0"
    and "[] \<notin> set cs" and "accept_all (handshakeRemaining s # cs) (tx (vc_net s) (targetFd s)) = Some rest"
    and "clientFd s \<noteq> targetFd s"
  obtains w' where "co_bind (forwardHandshakeRemaining E) (\<lambda>ok. if \<not> ok then co_return False else relayClientToTarget E) s =
      Some (Inr (res = 0), set_net w' (s\<lparr>handshakeRemaining := []\<rparr>))"
    and "sent w' (targetFd s) = sent (vc_net s) (targetFd s) @ handshakeRemaining s @ concat cs"
    and "wr_shut w' (targetFd s)" and "sent w' (clientFd s) = sent (vc_net s) (clientFd s)"
proof -
  let ?s = "s\<lparr>handshakeRemaining := []\<rparr>"
  obtain rs where rs: "accept (length (handshakeRemaining s)) (tx (vc_net s) (targetFd s)) = Some rs" "accept_all cs rs = Some rest"
    using assms(8) by (auto split: option.splits)
  from writeFull_accept [OF rs(1)] obtain w1 where w1:
    "async_writeFull (targetFd s) (handshakeRemaining s) (vc_net s) = Some (Inr (int (length (handshakeRemaining s))), w1)"
    "sent w1 (targetFd s) = sent (vc_net s) (targetFd s) @ handshakeRemaining s" "tx w1 (targetFd s) = rs" "rx w1 = rx (vc_net s)"
    "\<forall>g. g \<noteq> targetFd s \<longrightarrow> sent w1 g = sent (vc_net s) g"
    by auto
  let ?w1 = "if handshakeRemaining s = [] then vc_net s else w1"
  have fwd: "forwardHandshakeRemaining E s = Some (Inr True, set_net ?w1 ?s)"
    using w1(1) assms(2,3)
    by (auto simp: forwardHandshakeRemaining_def targetStream_def co_bind_def on_net_def embed_def set_net_def vc_net_def Let_def)
  have w1': "sent ?w1 (targetFd s) = sent (vc_net s) (targetFd s) @ handshakeRemaining s" "tx ?w1 (targetFd s) = rs"
    "rx ?w1 = rx (vc_net s)" "sent ?w1 (clientFd s) = sent (vc_net s) (clientFd s)"
    using w1 rs assms(9) by auto
  from copy_stream_chunks' [of ?w1 "clientFd s" cs res buf "[]" "targetFd s" rest] assms(5-7) w1'(2,3) rs(2)
  obtain w' where w': "copy_stream (async_stream (targetFd s)) (async_stream (clientFd s)) (\<lambda>_. False) ?w1 = Some (Inr (res = 0), w')"
    "sent w' (targetFd s) = sent ?w1 (targetFd s) @ concat cs" "wr_shut w' (targetFd s)"
    by auto
  have "relayClientToTarget E (set_net ?w1 ?s) = Some (Inr (res = 0), set_net w' ?s)"
    using copy_stream_on_net [OF w'(1), of ?s] assms(1-4)
    by (simp add: relayClientToTarget_def targetStream_def clientStream_def client_ops_def)
  moreover have "sent w' (clientFd s) = sent ?w1 (clientFd s)"
    using copy_stream_other [OF w'(1)] assms(9) by simp
  ultimately show thesis
    using fwd w'(2,3) w1' by (intro that [of w']) (simp_all add: co_bind_def)
qed

text \<open>The start of a session: the response is sent, the target connected, its coroutine started, and what is
left is to forward the rest of the handshake and then to relay.\<close>

lemma session_start:
  assumes "setupVision req s = Some (Inr True, s1)" and "req_encryption req = []" and "req_command req = TCP"
    and "se_tls E = None" and "target_sockaddr E req = Some addr" and "se_socket E addr False = tfd"
    and "\<forall>w. se_connect E tfd addr w = Some (Inr 0, w)" and "0 \<le> tfd"
    and "clientFd s1 \<noteq> tfd" and "\<not> useEncryption s1" and "accept 2 (tx (vc_net s1) (clientFd s1)) = Some rest"
  obtains w2 where "runTcpSession E req s =
      co_bind (forwardHandshakeRemaining E) (\<lambda>ok. if \<not> ok then co_return False else relayClientToTarget E)
        (startTargetTask ((set_net w2 s1)\<lparr>targetAddr := Some addr, targetFd := tfd\<rparr>))"
    and "rx w2 = rx (vc_net s1)" and "sent w2 tfd = sent (vc_net s1) tfd" and "tx w2 tfd = tx (vc_net s1) tfd"
    and "sent w2 (clientFd s1) = sent (vc_net s1) (clientFd s1) @ [req_version req, 0]"
proof -
  from writeFull_accept [of "[req_version req, 0]" "vc_net s1" "clientFd s1" rest] assms(11) obtain w2 where w2:
    "async_writeFull (clientFd s1) [req_version req, 0] (vc_net s1) = Some (Inr 2, w2)" "rx w2 = rx (vc_net s1)"
    "sent w2 tfd = sent (vc_net s1) tfd" "tx w2 tfd = tx (vc_net s1) tfd"
    "sent w2 (clientFd s1) = sent (vc_net s1) (clientFd s1) @ [req_version req, 0]"
    using assms(9) by (auto simp: numeral_2_eq_2)
  have resp: "sendResponseAndKey E (req_version req) s1 = Some (Inr True, set_net w2 s1)"
    using w2(1) assms(4,10)
    by (simp add: sendResponseAndKey_def encodeResponse_def co_bind_def clientStream_def client_ops_def on_net_def embed_def)
  have conn: "connectTarget E req (set_net w2 s1) = Some (Inr True, (set_net w2 s1)\<lparr>targetAddr := Some addr, targetFd := tfd\<rparr>)"
    using assms(3,5-8)
    by (simp add: connectTarget_def createTargetSocket_def co_bind_def on_net_def embed_def Let_def set_net_def vc_net_def)
  have "runTcpSession E req s =
      co_bind (forwardHandshakeRemaining E) (\<lambda>ok. if \<not> ok then co_return False else relayClientToTarget E)
        (startTargetTask ((set_net w2 s1)\<lparr>targetAddr := Some addr, targetFd := tfd\<rparr>))"
    using assms(1,2) resp conn
    by (simp add: runTcpSession_def setupEncryption_def co_bind_def [of "setupVision _"] co_bind_def [of "setupEncryption _ _"]
        co_bind_def [of "sendResponseAndKey _ _"] co_bind_def [of "connectTarget _ _"] co_bind_def [of "co_modify _"])
  from that [OF this w2(2-5)] show ?thesis .
qed

lemma server_session:
  assumes "encodeRequest req = Inr bs" and "req_command req = TCP" and "length (req_uuid req) = 16"
    and "address_ok (req_address req)" and "validator_contains (se_validator E) (req_uuid req)"
    and "se_tls E = None" and "target_sockaddr E req = Some addr" and "se_socket E addr False = tfd"
    and "\<forall>w. se_connect E tfd addr w = Some (Inr 0, w)" and "0 \<le> tfd" and "cfd \<noteq> tfd"
    and "[] \<notin> set cs" and "concat cs = bs @ payload" and "res \<le> 0"
    and "rx w cfd = map chunk cs @ [(res, buf)]"
    and "accept 2 (tx w cfd) = Some crest"
    and "\<forall>k rem. rem @ concat (drop k cs) = payload \<longrightarrow> accept_all (rem # drop k cs) (tx w tfd) \<noteq> None"
  shows "\<exists>s'. clientTask E (VlessConnection cfd evp w) = Some (Inr (), s') \<and>
    sent (vc_net s') tfd = sent w tfd @ payload \<and> wr_shut (vc_net s') tfd \<and>
    sent (vc_net s') cfd = sent w cfd @ [0, 0] \<and>
    \<not> vc_closed s' \<and> clientReadDone s' \<and> vc_log s' = [ShutdownFd tfd]"
proof -
  let ?req = "req\<lparr>req_version := 0, req_flow := [], req_encryption := [], req_seed := []\<rparr>"
  let ?s = "VlessConnection cfd evp w"
  obtain b' k where dec: "decode (ubs_read (async_recv cfd)) (se_validator E) (ubs_init w) = Some (Inr ?req, b')"
    and inner: "ubs_inner b' = with_rx cfd (map chunk (drop k cs) @ [(res, buf)]) w"
    and rem: "drop (ubs_consumed b') (ubs_buffer b') @ concat (drop k cs) = payload"
    using decode_chunks [OF assms(1) _ assms(3-5) assms(12-15)] assms(2) by blast
  let ?rem = "drop (ubs_consumed b') (ubs_buffer b')"
  define s1 where "s1 = ?s\<lparr>vc_stream := b'\<lparr>ubs_consumed := length (ubs_buffer b')\<rparr>, handshakeRemaining := ?rem, vc_command := TCP\<rparr>"
  have hs: "processHandshake E ?s = Some (Inr ?req, ?s\<lparr>vc_stream := b'\<lparr>ubs_consumed := length (ubs_buffer b')\<rparr>, handshakeRemaining := ?rem\<rparr>)"
    using dec assms(6)
    by (simp add: processHandshake_def co_bind_def on_stream_def embed_def client_ops_def ubs_drainRemaining_def VlessConnection_def)
  have n1: "vc_net s1 = with_rx cfd (map chunk (drop k cs) @ [(res, buf)]) w"
    using inner by (simp add: s1_def vc_net_def)
  have f1: "clientFd s1 = cfd" "\<not> useEncryption s1" "\<not> useVision s1" "\<not> vc_closed s1" "handshakeRemaining s1 = ?rem"
    "\<not> targetReadDone s1" "vc_log s1 = []"
    by (simp_all add: s1_def VlessConnection_def)
  have addr: "target_sockaddr E ?req = Some addr"
    using assms(7) by (simp add: target_sockaddr_def cong: address.case_cong)
  obtain w2 where session: "runTcpSession E ?req s1 =
      co_bind (forwardHandshakeRemaining E) (\<lambda>ok. if \<not> ok then co_return False else relayClientToTarget E)
        (startTargetTask ((set_net w2 s1)\<lparr>targetAddr := Some addr, targetFd := tfd\<rparr>))"
    and w2: "rx w2 = rx (vc_net s1)" "sent w2 tfd = sent w tfd" "tx w2 tfd = tx w tfd" "sent w2 cfd = sent w cfd @ [0, 0]"
    using session_start [of ?req s1 s1, OF _ _ _ assms(6) addr assms(8-10)] assms(2,11,16) n1 f1 by (auto simp: setupVision_def)
  define s3 where "s3 = startTargetTask ((set_net w2 s1)\<lparr>targetAddr := Some addr, targetFd := tfd\<rparr>)"
  have f3: "clientFd s3 = cfd" "targetFd s3 = tfd" "\<not> useEncryption s3" "\<not> useVision s3" "\<not> vc_closed s3"
    "handshakeRemaining s3 = ?rem" "vc_net s3 = w2" "targetTaskStarted s3" "\<not> targetReadDone s3" "vc_log s3 = []"
    using f1 by (simp_all add: s3_def startTargetTask_def vc_net_def set_net_def)
  have nonempty: "[] \<notin> set (drop k cs)"
    using assms(12) by (meson in_set_dropD)
  obtain rest where acc: "accept_all (?rem # drop k cs) (tx w tfd) = Some rest"
    using assms(17) rem by blast
  have rx3: "rx (vc_net s3) (clientFd s3) = map chunk (drop k cs) @ [(res, buf)]"
    and acc3: "accept_all (handshakeRemaining s3 # drop k cs) (tx (vc_net s3) (targetFd s3)) = Some rest"
    and fds: "clientFd s3 \<noteq> targetFd s3"
    using f3 w2 n1 acc assms(11) by simp_all
  obtain w' where run: "co_bind (forwardHandshakeRemaining E) (\<lambda>ok. if \<not> ok then co_return False else relayClientToTarget E) s3 =
      Some (Inr (res = 0), set_net w' (s3\<lparr>handshakeRemaining := []\<rparr>))"
    and w': "sent w' tfd = sent w2 tfd @ ?rem @ concat (drop k cs)" "wr_shut w' tfd" "sent w' cfd = sent w2 cfd"
    using forward_and_relay [OF assms(6) f3(3-5) rx3 assms(14) nonempty acc3 fds] f3 by auto
  have "runTcpSession E ?req s1 = Some (Inr (res = 0), set_net w' (s3\<lparr>handshakeRemaining := []\<rparr>))"
    using session run by (simp add: s3_def)
  moreover have "vc_command s1 = TCP"
    by (simp add: s1_def)
  ultimately have "clientTask E ?s = Some (Inr (), finishClientTask (set_net w' (s3\<lparr>handshakeRemaining := []\<rparr>)))"
    using hs assms(2,6) by (simp add: clientTask_def co_bind_def s1_def Let_def)
  then show ?thesis
    using f3 w' w2 rem assms(10) by (simp add: finishClientTask_def vc_logs_def Let_def) (simp add: vc_net_def set_net_def)
qed

section \<open>Properties\<close>

text \<open>C3: End to end through the server: a client that sends a TCP request followed by its payload,
cut into receives in any way, and then ends, gets the two bytes of the response; the target of the
request receives exactly the payload, in order, and then the end of the stream. This holds for a
registered user, no TLS and no flow, when the target can be connected and takes the writes. At the
end the connection is not yet closed but its other coroutine has been interrupted.\<close>

theorem server_relays_tcp:
  assumes "encodeRequest req = Inr bs" and "req_command req = TCP" and "length (req_uuid req) = 16"
    and "address_ok (req_address req)" and "validator_contains (se_validator E) (req_uuid req)"
    and "se_tls E = None" and "target_sockaddr E req = Some addr" and "se_socket E addr False = tfd"
    and "\<forall>w. se_connect E tfd addr w = Some (Inr 0, w)" and "0 \<le> tfd" and "cfd \<noteq> tfd"
    and "[] \<notin> set cs" and "concat cs = bs @ payload" and "res \<le> 0"
    and "rx w cfd = map chunk cs @ [(res, buf)]"
    and "accept 2 (tx w cfd) = Some crest"
    and "\<forall>k rem. rem @ concat (drop k cs) = payload \<longrightarrow> accept_all (rem # drop k cs) (tx w tfd) \<noteq> None"
  shows "\<exists>s'. clientTask E (VlessConnection cfd evp w) = Some (Inr (), s') \<and>
    sent (vc_net s') tfd = sent w tfd @ payload \<and> wr_shut (vc_net s') tfd \<and>
    sent (vc_net s') cfd = sent w cfd @ [0, 0] \<and>
    \<not> vc_closed s' \<and> clientReadDone s' \<and> vc_log s' = [ShutdownFd tfd]"
  by (rule server_session [OF assms])

definition sample_target_request :: request where
  "sample_target_request = request_init\<lparr>req_uuid := replicate 16 7, req_command := TCP, req_port := 443,
     req_address := IPv4 [192, 0, 2, 1]\<rparr>"

definition sample_target_bytes :: bytes where
  "sample_target_bytes = [0] @ replicate 16 7 @ [0, 1, 1, 187, 1, 192, 0, 2, 1]"

definition sample_env :: server_env where
  "sample_env = \<lparr>se_validator = sample_users, se_tls = None, se_getaddrinfo = (\<lambda>_ _ _. None),
     se_socket = (\<lambda>_ _. 9), se_connect = (\<lambda>_ _ w. Some (Inr 0, w)), se_crypto = sample_crypto, se_uni = (\<lambda>lo _. lo)\<rparr>"

definition sample_client_net :: net where
  "sample_client_net = net0\<lparr>
     rx := (\<lambda>_. map chunk [sample_target_bytes @ [71], [69, 84]] @ [(0, [])]),
     tx := (\<lambda>fd. if fd = 9 then [1, 1, 1] else [2])\<rparr>"

lemma accept_ones: "accept n (replicate (n + m) 1) = Some (replicate m 1)"
proof (induction n)
  case (Suc n)
  then show ?case by (subst accept.simps) simp
qed simp

lemma accept_all_ones: "length (concat cs) \<le> n \<Longrightarrow> accept_all cs (replicate n 1) \<noteq> None"
proof (induction cs arbitrary: n)
  case (Cons c cs)
  then show ?case
    using accept_ones [of "length c" "n - length c"] by simp
qed simp

lemma sample_takes:
  "\<forall>k rem. rem @ concat (drop k cs) = [71, 69, 84] \<longrightarrow> accept_all (rem # drop k cs) (tx sample_client_net 9) \<noteq> None"
proof (intro allI impI)
  fix k rem
  assume "rem @ concat (drop k cs) = [71, 69, 84]"
  then have "length (concat (rem # drop k cs)) \<le> 3"
    by (metis concat.simps(2) length_Cons list.size(3) numeral_3_eq_3 order_refl)
  from accept_all_ones [OF this] show "accept_all (rem # drop k cs) (tx sample_client_net 9) \<noteq> None"
    by (simp add: sample_client_net_def numeral_3_eq_3)
qed

lemma server_relays_tcp_witness:
  "\<exists>s'. clientTask sample_env (VlessConnection 5 (sample_evp 0) sample_client_net) = Some (Inr (), s') \<and>
    sent (vc_net s') 9 = [71, 69, 84] \<and> wr_shut (vc_net s') 9 \<and> sent (vc_net s') 5 = [0, 0] \<and>
    \<not> vc_closed s' \<and> clientReadDone s' \<and> vc_log s' = [ShutdownFd 9]"
proof -
  let ?w = sample_client_net
  have enc: "encodeRequest sample_target_request = Inr sample_target_bytes"
    by code_simp
  show ?thesis
    using server_relays_tcp [OF enc, of sample_env "SockaddrIn [192, 0, 2, 1] 443" 9 5
        "[sample_target_bytes @ [71], [69, 84]]" "[71, 69, 84]" 0 ?w "[]" "[]" "sample_evp 0"] sample_takes
    by (simp add: sample_target_request_def sample_env_def sample_users_def validator_contains_def
        target_sockaddr_def request_init_def sample_client_net_def net0_def accept.simps chunk_def)
qed

section \<open>The life of a connection\<close>

definition life_inv :: "int \<Rightarrow> life \<Rightarrow> bool" where
  "life_inv fd l \<longleftrightarrow>
     (let s = lf_conn l in
      0 \<le> fd \<and>
      (vc_closed s \<longleftrightarrow> lf_client l = Ended \<and> lf_target l \<noteq> Running) \<and>
      (clientReadDone s \<longleftrightarrow> lf_client l = Ended) \<and> (targetReadDone s \<longleftrightarrow> lf_target l = Ended) \<and>
      (targetTaskStarted s \<longleftrightarrow> lf_target l \<noteq> NotStarted) \<and>
      (lf_client l = NotStarted \<longrightarrow> lf_target l = NotStarted) \<and>
      (lf_destroyed l \<longrightarrow> vc_closed s \<and> clientFd s = -1 \<and> targetFd s = -1) \<and>
      (\<not> lf_destroyed l \<longrightarrow> clientFd s = fd \<and> targetFd s \<noteq> fd \<and>
         (if lf_target l = NotStarted then targetFd s = -1 else 0 \<le> targetFd s)) \<and>
      (lf_client l = Ended \<and> lf_target l = Running \<longrightarrow> ShutdownFd (targetFd s) \<in> set (vc_log s)) \<and>
      (lf_target l = Ended \<and> lf_client l = Running \<longrightarrow> ShutdownFd fd \<in> set (vc_log s)) \<and>
      count_list (vc_log s) (CloseFd fd) = (if lf_destroyed l then 1 else 0))"

lemmas life_ops = VlessConnection_def vc_logs_def same_flags_def startTargetTask_def finishClientTask_def
  targetTask_end_def doClose_def

lemma life_inv_init:
  "0 \<le> fd \<Longrightarrow> life_inv fd \<lparr>lf_conn = VlessConnection fd evp w, lf_client = NotStarted,
    lf_target = NotStarted, lf_destroyed = False\<rparr>"
  by (simp add: life_inv_def life_ops)

lemma task_state_cases: "t = NotStarted \<or> t = Running \<or> t = Ended"
  by (cases t) simp_all

lemma life_inv_step: "life_step l l' \<Longrightarrow> life_inv fd l \<Longrightarrow> life_inv fd l'"
  by (erule life_stepE; insert task_state_cases [of "lf_target l"] task_state_cases [of "lf_client l"])
    (auto simp: life_inv_def life_ops Let_def split: if_splits)

lemma life_inv_reach: "life_reach fd l \<Longrightarrow> life_inv fd l"
  by (induction rule: life_reach.induct) (auto intro: life_inv_init life_inv_step)

text \<open>However the two coroutines of a connection are scheduled: the connection reports closed
exactly when its client coroutine has ended and its target coroutine is not running, so it is never
destroyed under a running coroutine and never kept once both are done; the coroutine that ends first
has interrupted the other one by shutting its descriptor down; and the client's descriptor is closed
exactly once, when the connection is destroyed.\<close>

theorem connection_lifecycle:
  assumes "life_reach fd l"
  shows "(vc_closed (lf_conn l) \<longleftrightarrow> lf_client l = Ended \<and> lf_target l \<noteq> Running) \<and>
    (lf_destroyed l \<longrightarrow> vc_closed (lf_conn l) \<and> clientFd (lf_conn l) = -1 \<and> targetFd (lf_conn l) = -1) \<and>
    (lf_client l = Ended \<and> lf_target l = Running \<longrightarrow>
       ShutdownFd (targetFd (lf_conn l)) \<in> set (vc_log (lf_conn l))) \<and>
    (lf_target l = Ended \<and> lf_client l = Running \<longrightarrow> ShutdownFd fd \<in> set (vc_log (lf_conn l))) \<and>
    count_list (vc_log (lf_conn l)) (CloseFd fd) = (if lf_destroyed l then 1 else 0)"
  using life_inv_reach [OF assms] unfolding life_inv_def Let_def by blast

definition sample_conn0 :: vconn where
  "sample_conn0 = VlessConnection 5 (sample_evp 0) sample_client_net"

definition sample_end :: life where
  "sample_end = \<lparr>lf_conn = doClose (targetTask_end (finishClientTask (startTargetTask (sample_conn0\<lparr>targetFd := 9\<rparr>)))),
     lf_client = Ended, lf_target = Ended, lf_destroyed = True\<rparr>"

lemma sample_end_reach: "life_reach 5 sample_end"
proof -
  let ?c0 = sample_conn0
  let ?c1 = "startTargetTask (?c0\<lparr>targetFd := 9\<rparr>)"
  let ?l = "\<lambda>c t. \<lparr>lf_conn = c, lf_client = Running, lf_target = t, lf_destroyed = False\<rparr>"
  let ?e = "\<lambda>c t. \<lparr>lf_conn = c, lf_client = Ended, lf_target = t, lf_destroyed = False\<rparr>"
  have conn: "clientFd ?c0 = 5" "targetFd ?c0 = -1" "\<not> vc_closed ?c0" "clientReadDone (finishClientTask ?c1)"
    by (simp_all add: sample_conn0_def VlessConnection_def finishClientTask_def startTargetTask_def vc_logs_def Let_def)
  have start: "life_reach 5 (?l ?c0 NotStarted)"
    using life_next [OF life_init LStart, of 5 "sample_evp 0" sample_client_net] conn
    by (simp add: sample_conn0_def)
  have connected: "life_reach 5 (?l ?c1 Running)"
    using life_next [OF start LConnected [of _ 9]] conn by simp
  have client: "life_reach 5 (?e (finishClientTask ?c1) Running)"
    using life_next [OF connected LClientEnd] by simp
  have target: "life_reach 5 (?e (targetTask_end (finishClientTask ?c1)) Ended)"
    using life_next [OF client LTargetEnd] by simp
  have "vc_closed (targetTask_end (finishClientTask ?c1))"
    using conn(4) by (simp add: targetTask_end_def Let_def)
  then show ?thesis
    using life_next [OF target LCleanup] by (simp add: sample_end_def)
qed

lemma connection_lifecycle_witness:
  "count_list (vc_log (lf_conn sample_end)) (CloseFd 5) = 1 \<and> vc_closed (lf_conn sample_end)"
  using connection_lifecycle [OF sample_end_reach] by (simp add: sample_end_def)

end
