(* ===== verification/Event_Loop_Props.thy ===== *)
theory Event_Loop_Props
  imports Event_Loop
begin

text \<open>
  What the event loop guarantees to any connection that keeps the contract of \<open>EventLoopConnection\<close>,
  stated as the locale \<open>loop_connection\<close>: the table never mixes two connections up, a connection is
  destroyed only when it is closed or the loop has ended, and a closed one is reclaimed before the
  loop waits again. The locale is interpreted on the server's and on the client's connection.
\<close>

section \<open>The table\<close>

lemma cleanup_loop_kept: "fst (cleanup_loop ops m) = filter (\<lambda>(fd, c). \<not> cn_isClosed ops c) m"
  by (induction ops m rule: cleanup_loop.induct) (auto simp: case_prod_beta)

lemma cleanup_loop_gone:
  "snd (cleanup_loop ops m) = map (cn_destroy ops \<circ> snd) (filter (\<lambda>(fd, c). cn_isClosed ops c) m)"
  by (induction ops m rule: cleanup_loop.induct) (auto simp: case_prod_beta)

lemma cleanup_simps [simp]:
  "connections (cleanupClosedConnections ops s) = filter (\<lambda>(fd, c). \<not> cn_isClosed ops c) (connections s)"
  "el_gone (cleanupClosedConnections ops s) =
     el_gone s @ map (cn_destroy ops \<circ> snd) (filter (\<lambda>(fd, c). cn_isClosed ops c) (connections s))"
  "listenFd (cleanupClosedConnections ops s) = listenFd s"
  "el_running (cleanupClosedConnections ops s) = el_running s"
  "acceptTask (cleanupClosedConnections ops s) = acceptTask s"
  by (simp_all add: cleanupClosedConnections_def case_prod_beta cleanup_loop_kept cleanup_loop_gone)

lemma stop_simps [simp]:
  "connections (loop_stop s) = connections s" "el_gone (loop_stop s) = el_gone s" "el_phase (loop_stop s) = el_phase s"
  "\<not> el_running (loop_stop s)" "\<not> 0 \<le> listenFd (loop_stop s)"
  by (auto simp: loop_stop_def el_call_def Let_def)

lemma call_simps [simp]:
  "connections (el_call cs s) = connections s" "el_gone (el_call cs s) = el_gone s" "el_phase (el_call cs s) = el_phase s"
  "listenFd (el_call cs s) = listenFd s" "el_running (el_call cs s) = el_running s"
  "connections (accept_next s) = connections s" "el_gone (accept_next s) = el_gone s"
  "el_phase (accept_next s) = el_phase s" "listenFd (accept_next s) = listenFd s"
  "el_running (accept_next s) = el_running s"
  by (simp_all add: el_call_def accept_next_def)

lemma run_end_simps [simp]:
  "connections (run_end ops s) = []" "el_gone (run_end ops s) = el_gone s @ map (cn_destroy ops \<circ> snd) (connections s)"
  "\<not> 0 \<le> listenFd (run_end ops s)" "el_phase (run_end ops s) = Returned" "el_running (run_end ops s) = el_running s"
  by (simp_all add: run_end_def Let_def)

lemma map_of_Some_split:
  "distinct (map fst m) \<Longrightarrow> (k, v) \<in> set m \<longleftrightarrow> map_of m k = Some v"
  by (simp add: map_of_eq_Some_iff)

lemma open_fds_map:
  assumes "distinct (map fst (connections s))"
  shows "open_fds fds s = {fd. fd = listenFd s \<and> 0 \<le> fd} \<union> (\<Union>c \<in> ran (map_of (connections s)). fds c)"
proof -
  have "snd ` set (connections s) = ran (map_of (connections s))"
    using assms by (force simp: ran_def map_of_Some_split [symmetric])
  then show ?thesis by (simp add: open_fds_def)
qed

lemma started_state:
  assumes "run_start r EventLoop = Some (Inr (), s)"
  shows "connections s = [] \<and> el_gone s = [] \<and> el_phase s = AtWait"
  using assms
  by (auto simp: run_start_def EventLoop_def Let_def el_call_def accept_next_def co_return_def co_throw_def
      split: if_splits)

declare map_of_eq_Some_iff [simp del]

section \<open>The contract\<close>

text \<open>
  \<open>inv fd c\<close> holds of a started connection that was accepted as \<open>fd\<close> and is not destroyed; \<open>log\<close> are the
  calls it made on descriptors.
\<close>

locale loop_connection =
  fixes ops :: "'c connection_ops"
    and step :: "'c \<Rightarrow> 'c \<Rightarrow> bool"
    and fds :: "'c \<Rightarrow> int set"
    and log :: "'c \<Rightarrow> syscall list"
    and factory :: "int \<Rightarrow> 'c option set"
    and inv :: "int \<Rightarrow> 'c \<Rightarrow> bool"
  assumes start_inv: "Some c \<in> factory fd \<Longrightarrow> 0 \<le> fd \<Longrightarrow> inv fd (cn_start ops c)"
    and start_fds: "Some c \<in> factory fd \<Longrightarrow> 0 \<le> fd \<Longrightarrow> fds (cn_start ops c) = {fd}"
    and step_inv: "inv fd c \<Longrightarrow> step c c' \<Longrightarrow> inv fd c'"
    and inv_fd: "inv fd c \<Longrightarrow> fd \<in> fds c \<and> cn_primaryFd ops c = fd"
    and closed_rests: "inv fd c \<Longrightarrow> cn_isClosed ops c \<Longrightarrow> \<not> step c c'"
    and destroy_fds: "inv fd c \<Longrightarrow> fds (cn_destroy ops c) = {}"
    and destroy_closes: "inv fd c \<Longrightarrow> count_list (log (cn_destroy ops c)) (CloseFd fd) = 1"
begin

definition table_ok :: "'c event_loop \<Rightarrow> bool" where
  "table_ok s \<longleftrightarrow> distinct (map fst (connections s)) \<and>
     (\<forall>fd c. map_of (connections s) fd = Some c \<longrightarrow> inv fd c \<and> (0 \<le> listenFd s \<longrightarrow> listenFd s \<notin> fds c)) \<and>
     (\<forall>x fd c fd' c'. map_of (connections s) fd = Some c \<longrightarrow> map_of (connections s) fd' = Some c' \<longrightarrow>
        x \<in> fds c \<longrightarrow> x \<in> fds c' \<longrightarrow> fd = fd') \<and>
     (el_phase s = AtWait \<longrightarrow> (\<forall>fd c. map_of (connections s) fd = Some c \<longrightarrow> \<not> cn_isClosed ops c)) \<and>
     (\<forall>g \<in> set (el_gone s). \<exists>fd c. g = cn_destroy ops c \<and> inv fd c \<and> (el_phase s \<noteq> Returned \<longrightarrow> cn_isClosed ops c)) \<and>
     el_phase s \<noteq> NotRun \<and> (el_phase s = Returned \<longrightarrow> connections s = [] \<and> \<not> 0 \<le> listenFd s)"

lemma one_owner:
  "table_ok s \<Longrightarrow> map_of (connections s) fd = Some c \<Longrightarrow> map_of (connections s) fd' = Some c' \<Longrightarrow>
    x \<in> fds c \<Longrightarrow> x \<in> fds c' \<Longrightarrow> fd = fd'"
  by (simp add: table_ok_def)

lemma gone_inv:
  "table_ok s \<Longrightarrow> g \<in> set (el_gone s) \<Longrightarrow>
    \<exists>fd c. g = cn_destroy ops c \<and> inv fd c \<and> (el_phase s \<noteq> Returned \<longrightarrow> cn_isClosed ops c)"
  unfolding table_ok_def by blast

lemma table_ok_started: "run_start r EventLoop = Some (Inr (), s) \<Longrightarrow> table_ok s"
  using started_state [of r s] by (simp add: table_ok_def)

lemma table_ok_wait: "table_ok s \<Longrightarrow> el_phase s = AtWait \<Longrightarrow> table_ok (s\<lparr>el_phase := AtCompletions\<rparr>)"
  by (simp add: table_ok_def)

lemma table_ok_next:
  assumes "table_ok s"
  shows "table_ok (accept_next s)" "table_ok (s\<lparr>acceptTask := a\<rparr>)" "table_ok (el_call cs s)" "table_ok (loop_stop s)"
  using assms by (simp_all add: table_ok_def)

lemma fresh_fd:
  assumes "table_ok s" and "fd \<notin> open_fds fds s" and "0 \<le> fd"
  shows "map_of (connections s) fd = None" and "listenFd s \<noteq> fd" and "map_of (connections s) k = Some c \<Longrightarrow> fd \<notin> fds c"
proof -
  have dist: "distinct (map fst (connections s))"
    using assms(1) by (simp add: table_ok_def)
  show "listenFd s \<noteq> fd"
    using assms(2,3) by (auto simp: open_fds_map [OF dist])
  show other: "fd \<notin> fds c" if "map_of (connections s) k = Some c" for k c
    using assms(2) that by (auto simp: open_fds_map [OF dist] intro: ranI)
  show "map_of (connections s) fd = None"
  proof (cases "map_of (connections s) fd")
    case (Some c)
    with assms(1) have "inv fd c" by (simp add: table_ok_def)
    with inv_fd other [OF Some] show ?thesis by blast
  qed simp
qed

lemma table_ok_insert:
  assumes "table_ok s" and "el_phase s = AtCompletions" and "0 \<le> fd" and "fd \<notin> open_fds fds s" and "Some c \<in> factory fd"
  shows "table_ok (insert_connection ops fd (cn_start ops c) s)"
  using assms fresh_fd [OF assms(1,4,3)] start_inv [OF assms(5,3)] start_fds [OF assms(5,3)]
  by (auto simp: table_ok_def insert_connection_def update_conv' distinct_update)

lemma table_ok_accept:
  assumes "table_ok s" and "el_phase s = AtCompletions" and "0 \<le> fd" and "fd \<notin> open_fds fds s" and "made \<in> factory fd"
  shows "table_ok (accept_complete ops fd made s)"
proof (cases made)
  case None
  then show ?thesis using assms(1,3) by (simp add: accept_complete_def table_ok_next)
next
  case (Some c)
  with table_ok_insert [OF assms(1-4)] assms(3,5) show ?thesis
    by (simp add: accept_complete_def table_ok_next)
qed

lemma table_ok_connection:
  assumes "table_ok s" and "el_phase s = AtCompletions" and "map_of (connections s) fd = Some c" and "step c c'"
    and "(fds c' - fds c) \<inter> open_fds fds s = {}"
  shows "table_ok (s\<lparr>connections := AList.update fd c' (connections s)\<rparr>)"
proof -
  have dist: "distinct (map fst (connections s))" and "inv fd c"
    using assms(1,3) by (simp_all add: table_ok_def)
  then have inv': "inv fd c'" using assms(4) step_inv by blast
  have new: "x \<notin> open_fds fds s" if "x \<in> fds c'" "x \<notin> fds c" for x
    using assms(5) that by blast
  have listen: "0 \<le> listenFd s \<Longrightarrow> listenFd s \<notin> fds c'"
    using assms(1,3) new [of "listenFd s"] by (auto simp: table_ok_def open_fds_map [OF dist])
  have other: "fds c' \<inter> fds d = {}" if "map_of (connections s) k = Some d" "k \<noteq> fd" for k d
  proof -
    have "fds c \<inter> fds d = {}"
      using one_owner [OF assms(1) that(1) assms(3)] that(2) by auto
    moreover have "fds d \<subseteq> open_fds fds s"
      using that(1) by (auto simp: open_fds_map [OF dist] intro: ranI)
    ultimately show ?thesis using assms(5) by blast
  qed
  show ?thesis
    using assms(1,2) inv' listen other dist
    by (auto simp: table_ok_def update_conv' distinct_update Int_commute)
qed

lemma map_of_filter_Some:
  "distinct (map fst m) \<Longrightarrow> map_of (filter (\<lambda>(k, v). P v) m) k = Some v \<longleftrightarrow> map_of m k = Some v \<and> P v"
  by (subst map_of_Some_split [symmetric])
    (auto simp: map_of_Some_split [symmetric] distinct_map inj_on_subset distinct_filter)

lemma table_ok_cleanup:
  assumes "table_ok s" and "el_phase s = AtCompletions"
  shows "table_ok ((cleanupClosedConnections ops s)\<lparr>el_phase := AtWait\<rparr>)"
proof -
  have dist: "distinct (map fst (connections s))"
    using assms(1) by (simp add: table_ok_def)
  then have dist': "distinct (map fst (filter (\<lambda>(fd, c). \<not> cn_isClosed ops c) (connections s)))"
    by (rule distinct_map_filter)
  have gone: "\<exists>fd d. cn_destroy ops c = cn_destroy ops d \<and> inv fd d \<and> cn_isClosed ops d"
    if "(k, c) \<in> set (connections s)" "cn_isClosed ops c" for k c
    using that assms(1) by (simp only: map_of_Some_split [OF dist]) (auto simp: table_ok_def)
  show ?thesis
    using assms dist dist' gone one_owner [OF assms(1)]
    by (auto simp: table_ok_def map_of_filter_Some)
qed

lemma table_ok_end:
  assumes "table_ok s" and "el_phase s = AtWait"
  shows "table_ok (run_end ops s)"
proof -
  have old: "\<exists>fd c. g = cn_destroy ops c \<and> inv fd c" if "g \<in> set (el_gone s)" for g
    using gone_inv [OF assms(1) that] by blast
  have dist: "distinct (map fst (connections s))"
    using assms(1) by (simp add: table_ok_def)
  have gone: "\<exists>fd d. cn_destroy ops c = cn_destroy ops d \<and> inv fd d" if "(k, c) \<in> set (connections s)" for k c
    using that assms(1) by (simp only: map_of_Some_split [OF dist]) (auto simp: table_ok_def)
  show ?thesis
    using assms gone old by (auto simp: table_ok_def)
qed

lemma table_ok_step: "loop_step ops step fds factory s s' \<Longrightarrow> table_ok s \<Longrightarrow> table_ok s'"
proof (erule loop_stepE, goal_cases)
  case (2 fd)
  then show ?case by (simp add: accept_complete_def table_ok_next)
qed (simp_all add: table_ok_wait table_ok_accept table_ok_connection table_ok_cleanup table_ok_end table_ok_next)

lemma table_ok_reach: "loop_reach ops step fds factory s \<Longrightarrow> table_ok s"
  by (induction rule: loop_reach.induct) (auto intro: table_ok_started table_ok_step)

text \<open>What one step may do to a connection of the table.\<close>

lemma kept_or_destroyed:
  assumes "loop_step ops step fds factory s s'" and "table_ok s" and "map_of (connections s) fd = Some c"
  shows "(\<exists>c'. map_of (connections s') fd = Some c' \<and> (c' = c \<or> step c c')) \<or>
    cn_destroy ops c \<in> set (el_gone s') \<and> map_of (connections s') fd = None \<and>
      (cn_isClosed ops c \<or> el_phase s = AtWait \<and> \<not> el_running s)"
proof -
  have dist: "distinct (map fst (connections s))"
    using assms(2) by (simp add: table_ok_def)
  have entry: "(fd, c) \<in> set (connections s)"
    using assms(3) by (rule map_of_SomeD)
  have filtered: "map_of (filter (\<lambda>(fd, c). \<not> cn_isClosed ops c) (connections s)) fd =
      (if cn_isClosed ops c then None else Some c)"
  proof (cases "map_of (filter (\<lambda>(fd, c). \<not> cn_isClosed ops c) (connections s)) fd")
    case None
    with map_of_filter_Some [OF dist, of "\<lambda>c. \<not> cn_isClosed ops c" fd c] assms(3) show ?thesis by auto
  next
    case (Some d)
    with map_of_filter_Some [OF dist, of "\<lambda>c. \<not> cn_isClosed ops c" fd d] assms(3) show ?thesis by auto
  qed
  from assms(1) show ?thesis
  proof (cases rule: loop_step.cases)
    case (ELAccept nfd made)
    then have "map_of (connections s) nfd = None"
      using fresh_fd(1) assms(2) by blast
    with ELAccept assms(3) show ?thesis
      by (auto simp: accept_complete_def insert_connection_def update_conv' split: option.split)
  next
    case (ELConnection k d d')
    with assms(3) show ?thesis by (auto simp: update_conv')
  qed (use assms(3) entry filtered in \<open>auto simp: accept_complete_def intro!: image_eqI\<close>)
qed

lemma gone_stays: "loop_step ops step fds factory s s' \<Longrightarrow> set (el_gone s) \<subseteq> set (el_gone s')"
  by (erule loop_stepE) (auto simp: accept_complete_def insert_connection_def split: option.split)

lemma run_reach: "loop_run ops step fds factory \<sigma> \<Longrightarrow> loop_reach ops step fds factory (\<sigma> i)"
  by (induction i) (use loop_next in \<open>force simp: loop_run_def\<close>)+

lemma run_step: "loop_run ops step fds factory \<sigma> \<Longrightarrow> \<sigma> (Suc i) = \<sigma> i \<or> loop_step ops step fds factory (\<sigma> i) (\<sigma> (Suc i))"
  by (simp add: loop_run_def)

text \<open>A closed connection rests in the table until it is destroyed.\<close>

lemma closed_until_destroyed:
  assumes "loop_run ops step fds factory \<sigma>" and "map_of (connections (\<sigma> i)) fd = Some c" and "cn_isClosed ops c"
    and "i \<le> j"
  shows "map_of (connections (\<sigma> j)) fd = Some c \<or> cn_destroy ops c \<in> set (el_gone (\<sigma> j))"
  using \<open>i \<le> j\<close>
proof (induction j rule: dec_induct)
  case base
  then show ?case using assms(2) by simp
next
  case (step j)
  show ?case
  proof (cases "cn_destroy ops c \<in> set (el_gone (\<sigma> j))")
    case True
    with gone_stays run_step [OF assms(1), of j] show ?thesis by auto
  next
    case False
    with step.IH have here: "map_of (connections (\<sigma> j)) fd = Some c" by simp
    have ok: "table_ok (\<sigma> j)"
      by (rule table_ok_reach [OF run_reach [OF assms(1)]])
    then have "inv fd c" using here by (simp add: table_ok_def)
    then have "\<not> step c c'" for c' using closed_rests assms(3) by blast
    with kept_or_destroyed [OF _ ok here] here run_step [OF assms(1), of j] show ?thesis by metis
  qed
qed

lemma closed_is_reclaimed:
  assumes "loop_run ops step fds factory \<sigma>" and "map_of (connections (\<sigma> i)) fd = Some c" and "cn_isClosed ops c"
    and "i \<le> j" and "el_phase (\<sigma> j) \<noteq> AtCompletions"
  shows "cn_destroy ops c \<in> set (el_gone (\<sigma> j))"
proof -
  have "table_ok (\<sigma> j)"
    by (rule table_ok_reach [OF run_reach [OF assms(1)]])
  then have "map_of (connections (\<sigma> j)) fd \<noteq> Some c"
    using assms(3,5) by (cases "el_phase (\<sigma> j)") (auto simp: table_ok_def)
  with closed_until_destroyed [OF assms(1-4)] show ?thesis by simp
qed

text \<open>A stopped loop stays stopped, and can only finish.\<close>

lemma stopped_step:
  "loop_step ops step fds factory s s' \<Longrightarrow> \<not> el_running s \<Longrightarrow> \<not> el_running s'"
  by (erule loop_stepE) (auto simp: accept_complete_def insert_connection_def split: option.split)

lemma stopped_stays: "loop_run ops step fds factory \<sigma> \<Longrightarrow> \<not> el_running (\<sigma> i) \<Longrightarrow> \<not> el_running (\<sigma> (i + n))"
proof (induction n)
  case (Suc n)
  with run_step [of \<sigma> "i + n"] stopped_step show ?case by (metis add_Suc_right)
qed simp

text \<open>How far a stopped loop is from its end.\<close>

definition rank :: "loop_phase \<Rightarrow> nat" where
  "rank p = (case p of NotRun \<Rightarrow> 3 | AtCompletions \<Rightarrow> 2 | AtWait \<Rightarrow> 1 | Returned \<Rightarrow> 0)"

lemma rank_step:
  "loop_step ops step fds factory s s' \<Longrightarrow> \<not> el_running s \<Longrightarrow> rank (el_phase s') \<le> rank (el_phase s)"
  by (erule loop_stepE) (auto simp: rank_def accept_complete_def insert_connection_def split: option.split)

lemma rank_run:
  "loop_run ops step fds factory \<sigma> \<Longrightarrow> \<not> el_running (\<sigma> i) \<Longrightarrow> rank (el_phase (\<sigma> (i + n))) \<le> rank (el_phase (\<sigma> i))"
proof (induction n)
  case (Suc n)
  then have "rank (el_phase (\<sigma> (Suc (i + n)))) \<le> rank (el_phase (\<sigma> (i + n)))"
    using rank_step [OF _ stopped_stays [OF Suc.prems, of n]] run_step [OF Suc.prems(1), of "i + n"] by (metis order_refl)
  with Suc show ?case by simp
qed simp

lemma rank_inject: "rank p = rank q \<longleftrightarrow> p = q"
  by (cases p; cases q) (simp_all add: rank_def)

lemma stopped_returns:
  assumes "loop_run ops step fds factory \<sigma>" and "\<not> el_running (\<sigma> i)"
    and "\<forall>k\<ge>i. el_phase (\<sigma> k) \<noteq> Returned \<longrightarrow> (\<exists>j>k. el_phase (\<sigma> j) \<noteq> el_phase (\<sigma> k))"
  shows "\<exists>j\<ge>i. el_phase (\<sigma> j) = Returned"
proof -
  have "i \<le> k \<Longrightarrow> rank (el_phase (\<sigma> k)) = n \<Longrightarrow> \<exists>j\<ge>k. el_phase (\<sigma> j) = Returned" for k n
  proof (induction n arbitrary: k rule: less_induct)
    case (less n)
    show ?case
    proof (cases "el_phase (\<sigma> k) = Returned")
      case False
      with assms(3) less.prems(1) obtain j where j: "j > k" "el_phase (\<sigma> j) \<noteq> el_phase (\<sigma> k)"
        by blast
      have "\<not> el_running (\<sigma> k)"
        using stopped_stays [OF assms(1,2), of "k - i"] less.prems(1) by simp
      with rank_run [OF assms(1), of k "j - k"] j(1) have "rank (el_phase (\<sigma> j)) \<le> n"
        using less.prems(2) by simp
      moreover have "rank (el_phase (\<sigma> j)) \<noteq> n"
        using j(2) less.prems(2) rank_inject by metis
      ultimately obtain j' where "j \<le> j'" "el_phase (\<sigma> j') = Returned"
        using less.IH [of "rank (el_phase (\<sigma> j))" j] j(1) less.prems(1) by auto
      with j(1) show ?thesis by (metis less_imp_le order_trans)
    qed auto
  qed
  then show ?thesis by blast
qed

lemma returned_clean:
  "loop_reach ops step fds factory s \<Longrightarrow> el_phase s = Returned \<Longrightarrow> open_fds fds s = {}"
  using table_ok_reach [of s] by (auto simp: table_ok_def open_fds_def)

end

section \<open>The runner\<close>

text \<open>The message of a worker that has recorded it, and whether it has flagged the error.\<close>

fun recorded :: "worker \<Rightarrow> string option" where
  "recorded (WRecorded m) = Some m"
| "recorded (WFlagged m) = Some m"
| "recorded (WJoined r) = r"
| "recorded _ = None"

fun flagged :: "worker \<Rightarrow> bool" where
  "flagged (WFlagged m) = True"
| "flagged (WJoined r) = (r \<noteq> None)"
| "flagged _ = False"

definition runner_inv :: "nat \<Rightarrow> 'c runner \<Rightarrow> bool" where
  "runner_inv n s \<longleftrightarrow> length (rn_workers s) = n \<and>
     (\<forall>i < n. recorded (rn_workers s ! i) \<noteq> None \<longrightarrow> (\<exists>j < n. recorded (rn_workers s ! j) = Some (errorMessage s))) \<and>
     (hasError s \<longleftrightarrow> (\<exists>i < n. flagged (rn_workers s ! i)))"

lemma flagged_recorded: "flagged w \<Longrightarrow> recorded w \<noteq> None"
  by (cases w) auto

text \<open>A worker that moves without recording, flagging or taking back either keeps the invariant.\<close>

lemma runner_inv_move:
  assumes "runner_inv n s" and "i < n" and "recorded w = recorded (rn_workers s ! i)" and "flagged w = flagged (rn_workers s ! i)"
    and "rn_workers s' = (rn_workers s)[i := w]" and "errorMessage s' = errorMessage s" and "hasError s' = hasError s"
  shows "runner_inv n s'"
proof -
  have "recorded (rn_workers s' ! j) = recorded (rn_workers s ! j)" "flagged (rn_workers s' ! j) = flagged (rn_workers s ! j)" if "j < n" for j
    using assms that by (auto simp: runner_inv_def nth_list_update)
  moreover have "length (rn_workers s') = n"
    using assms(1,5) by (simp add: runner_inv_def)
  ultimately show ?thesis
    using assms(1,6,7) by (simp add: runner_inv_def cong: conj_cong)
qed

lemma runner_inv_record:
  assumes "runner_inv n s" and "i < n" and "rn_workers s ! i = WThrew m"
  shows "runner_inv n (worker_record i m s)"
proof -
  have len: "length (rn_workers s) = n"
    using assms(1) by (simp add: runner_inv_def)
  have "\<exists>j < n. recorded (((rn_workers s)[i := WRecorded m]) ! j) = Some (if hasError s then errorMessage s else m)"
  proof (cases "hasError s")
    case True
    then obtain k where "k < n" "flagged (rn_workers s ! k)"
      using assms(1) by (auto simp: runner_inv_def)
    then obtain j where j: "j < n" "recorded (rn_workers s ! j) = Some (errorMessage s)"
      using assms(1) flagged_recorded by (auto simp: runner_inv_def)
    with assms(3) have "j \<noteq> i" by auto
    with j True show ?thesis by auto
  next
    case False
    with assms(2) len show ?thesis by (intro exI [of _ i]) simp
  qed
  moreover have "flagged (((rn_workers s)[i := WRecorded m]) ! j) \<longleftrightarrow> flagged (rn_workers s ! j)" if "j < n" for j
    using assms(3) len that by (cases "j = i") simp_all
  moreover have "hasError s \<longleftrightarrow> (\<exists>j < n. flagged (rn_workers s ! j))"
    using assms(1) by (simp add: runner_inv_def)
  ultimately show ?thesis
    using len by (cases "hasError s") (simp_all add: runner_inv_def worker_record_def set_worker_def cong: conj_cong)
qed

lemma runner_inv_flag:
  assumes "runner_inv n s" and "i < n" and "rn_workers s ! i = WRecorded m"
  shows "runner_inv n (worker_flag i m s)"
proof -
  have len: "length (rn_workers s) = n"
    using assms(1) by (simp add: runner_inv_def)
  have same: "recorded (((rn_workers s)[i := WFlagged m]) ! j) = recorded (rn_workers s ! j)" if "j < n" for j
    using assms(2,3) len that by (auto simp: nth_list_update)
  have "\<exists>j < n. flagged (((rn_workers s)[i := WFlagged m]) ! j)"
    using assms(2) len by (intro exI [of _ i]) simp
  moreover have "\<forall>i < n. recorded (rn_workers s ! i) \<noteq> None \<longrightarrow> (\<exists>j < n. recorded (rn_workers s ! j) = Some (errorMessage s))"
    using assms(1) by (simp add: runner_inv_def)
  ultimately show ?thesis
    using len same by (simp add: runner_inv_def worker_flag_def set_worker_def cong: conj_cong)
qed

lemma runner_inv_step:
  assumes "runner_step ops step fds factory s s'" and "runner_inv n s"
  shows "runner_inv n s'"
  using assms(1)
proof (cases rule: runner_step.cases)
  case (RNStart i r)
  have "i < n" using RNStart(2) assms(2) by (simp add: runner_inv_def)
  then have move: "runner_inv n (set_worker i w (s\<lparr>rn_loops := ls\<rparr>))" if "recorded w = None" "\<not> flagged w" for w ls
    using RNStart(3) that by (intro runner_inv_move [OF assms(2), of i w]) (simp_all add: set_worker_def)
  show ?thesis
  proof (cases "run_start r (rn_loops s ! i)")
    case None
    with RNStart(1) assms(2) show ?thesis by (simp add: worker_start_def)
  next
    case (Some p)
    obtain a l where p: "p = (a, l)" by (cases p)
    show ?thesis
      using move RNStart(1) Some p by (cases a) (auto simp: worker_start_def split: exn.split)
  qed
next
  case (RNLoop i l)
  with assms(2) show ?thesis by (simp add: runner_inv_def)
next
  case (RNThrow i m)
  then show ?thesis
    using assms(2) by (intro runner_inv_move [OF assms(2), of i "WThrew m"]) (simp_all add: runner_inv_def set_worker_def)
next
  case (RNRecord i m)
  then show ?thesis using runner_inv_record [OF assms(2)] assms(2) by (simp add: runner_inv_def)
next
  case (RNFlag i m)
  then show ?thesis using runner_inv_flag [OF assms(2)] assms(2) by (simp add: runner_inv_def)
next
  case (RNStopAll i m)
  then show ?thesis
    using assms(2) by (intro runner_inv_move [OF assms(2), of i "WJoined (Some m)"])
      (simp_all add: runner_inv_def set_worker_def stop_all_def)
next
  case (RNReturn i)
  then show ?thesis
    using assms(2) by (intro runner_inv_move [OF assms(2), of i "WJoined None"]) (simp_all add: runner_inv_def set_worker_def)
next
  case RNSignal
  with assms(2) show ?thesis by (simp add: runner_inv_def stop_all_def)
qed

lemma runner_inv_reach: "runner_reach ops step fds factory n s \<Longrightarrow> runner_inv n s"
proof (induction rule: runner_reach.induct)
  case runner_started
  then show ?case by (simp add: runner_inv_def runner_init_def)
qed (rule runner_inv_step)

end
