(* ===== verification/Server_Loop.thy ===== *)
theory Server_Loop
  imports Server_Props Event_Loop_Props
begin

text \<open>
  The server's connections in the event loop: \<open>VlessConnection\<close> as an implementation of
  \<open>EventLoopConnection\<close>, its coroutines moving as \<open>life_step\<close> says, and what the loop then guarantees.
\<close>

section \<open>The connection as the loop sees it\<close>

definition vless_start :: "life \<Rightarrow> life" where
  "vless_start l = (if vc_closed (lf_conn l) then l else l\<lparr>lf_client := Running\<rparr>)"

definition vless_destroy :: "life \<Rightarrow> life" where
  "vless_destroy l = l\<lparr>lf_conn := doClose (lf_conn l), lf_destroyed := True\<rparr>"

definition vless_ops :: "life connection_ops" where
  "vless_ops = \<lparr>cn_start = vless_start, cn_isClosed = (\<lambda>l. vc_closed (lf_conn l)),
     cn_primaryFd = (\<lambda>l. clientFd (lf_conn l)), cn_destroy = vless_destroy\<rparr>"

definition vless_fds :: "life \<Rightarrow> int set" where
  "vless_fds l = {fd. 0 \<le> fd \<and> vc_hasFd fd (lf_conn l)}"

definition vless_step :: "life \<Rightarrow> life \<Rightarrow> bool" where
  "vless_step l l' \<longleftrightarrow> life_step l l' \<and> \<not> lf_destroyed l'"

text \<open>The factory of the server never returns null.\<close>

definition vless_made :: "int \<Rightarrow> evp_world \<Rightarrow> net \<Rightarrow> life" where
  "vless_made fd evp w = \<lparr>lf_conn = VlessConnection fd evp w, lf_client = NotStarted, lf_target = NotStarted,
     lf_destroyed = False\<rparr>"

definition vless_factory :: "int \<Rightarrow> life option set" where
  "vless_factory fd = {Some (vless_made fd evp w) | evp w. True}"

definition vless_inv :: "int \<Rightarrow> life \<Rightarrow> bool" where
  "vless_inv fd l \<longleftrightarrow> life_inv fd l \<and> \<not> lf_destroyed l \<and> lf_client l \<noteq> NotStarted"

lemma vless_ops_simps [simp]:
  "cn_start vless_ops = vless_start" "cn_isClosed vless_ops l = vc_closed (lf_conn l)"
  "cn_primaryFd vless_ops l = clientFd (lf_conn l)" "cn_destroy vless_ops = vless_destroy"
  by (simp_all add: vless_ops_def)

lemma vless_started: "0 \<le> fd \<Longrightarrow> vless_inv fd (vless_start (vless_made fd evp w))"
  using life_inv_step [OF LStart life_inv_init [of fd evp w]]
  by (simp add: vless_inv_def vless_start_def vless_made_def VlessConnection_def)

lemma started_stays: "life_step l l' \<Longrightarrow> lf_client l \<noteq> NotStarted \<Longrightarrow> lf_client l' \<noteq> NotStarted"
  by (erule life_stepE) auto

lemma closed_no_step: "life_inv fd l \<Longrightarrow> vc_closed (lf_conn l) \<Longrightarrow> life_step l l' \<Longrightarrow> lf_destroyed l'"
  by (erule life_stepE) (auto simp: life_inv_def Let_def)

lemma doClose_closes:
  "life_inv fd l \<Longrightarrow> \<not> lf_destroyed l \<Longrightarrow> count_list (vc_log (doClose (lf_conn l))) (CloseFd fd) = 1"
  by (auto simp: life_inv_def doClose_def vc_logs_def Let_def split: if_splits)

lemma doClose_hasFd: "0 \<le> fd \<Longrightarrow> \<not> vc_hasFd fd (doClose s)"
  by (auto simp: vc_hasFd_def doClose_def vc_logs_def Let_def)

interpretation vless_loop: loop_connection vless_ops vless_step vless_fds "vc_log \<circ> lf_conn" vless_factory vless_inv
proof (unfold_locales, goal_cases)
  case (1 c fd)
  then show ?case by (auto simp: vless_factory_def vless_started)
next
  case (2 c fd)
  then show ?case
    by (auto simp: vless_factory_def vless_start_def vless_made_def vless_fds_def vc_hasFd_def VlessConnection_def)
next
  case (3 fd c c')
  then show ?case by (auto simp: vless_inv_def vless_step_def intro: life_inv_step dest: started_stays)
next
  case (4 fd c)
  then show ?case by (auto simp: vless_inv_def life_inv_def Let_def vless_fds_def vc_hasFd_def)
next
  case (5 fd c c')
  then show ?case using closed_no_step by (auto simp: vless_inv_def vless_step_def)
next
  case (6 fd c)
  then show ?case by (auto simp: vless_fds_def vless_destroy_def doClose_hasFd)
next
  case (7 fd c)
  then show ?case by (simp add: vless_inv_def vless_destroy_def doClose_closes)
qed

section \<open>What the loop guarantees\<close>

lemma vless_gone:
  assumes "loop_reach vless_ops vless_step vless_fds vless_factory s" and "g \<in> set (el_gone s)"
  shows "vless_fds g = {} \<and>
    (\<exists>l. g = vless_destroy l \<and> count_list (vc_log (lf_conn g)) (CloseFd (clientFd (lf_conn l))) = 1 \<and>
       (el_phase s \<noteq> Returned \<longrightarrow> lf_client l = Ended \<and> lf_target l \<noteq> Running))"
proof -
  obtain fd l where l: "g = vless_destroy l" "vless_inv fd l" "el_phase s \<noteq> Returned \<longrightarrow> vc_closed (lf_conn l)"
    using vless_loop.gone_inv [OF vless_loop.table_ok_reach [OF assms(1)] assms(2)] by auto
  then have "vc_closed (lf_conn l) \<longrightarrow> lf_client l = Ended \<and> lf_target l \<noteq> Running"
    by (auto simp: vless_inv_def life_inv_def Let_def)
  with l vless_loop.inv_fd [OF l(2)] vless_loop.destroy_closes [OF l(2)] vless_loop.destroy_fds [OF l(2)]
  show ?thesis by auto
qed



section \<open>A sample loop\<close>

definition sample_loop0 :: "life event_loop" where
  "sample_loop0 = \<lparr>el_running = True, listenFd = 3, connections = [], acceptTask = AcceptWaiting,
     el_phase = AtWait, el_gone = [], el_log = []\<rparr>"

definition sample_life :: life where
  "sample_life = (vless_made 5 (sample_evp 0) sample_client_net)\<lparr>lf_client := Running\<rparr>"

definition sample_life_end :: life where
  "sample_life_end = sample_life\<lparr>lf_conn := finishClientTask (lf_conn sample_life), lf_client := Ended\<rparr>"

definition sample_loop1 :: "life event_loop" where
  "sample_loop1 = sample_loop0\<lparr>el_phase := AtCompletions, connections := [(5, sample_life)]\<rparr>"

definition sample_loop2 :: "life event_loop" where
  "sample_loop2 = sample_loop0\<lparr>el_gone := [vless_destroy sample_life_end]\<rparr>"

abbreviation vless_loop_reach :: "life event_loop \<Rightarrow> bool" where
  "vless_loop_reach \<equiv> loop_reach vless_ops vless_step vless_fds vless_factory"

lemma sample_loop0_reach: "vless_loop_reach sample_loop0"
  by (rule loop_started [of "\<lparr>lr_socket = 3, lr_bind = 0, lr_listen = 0\<rparr>"])
    (simp add: run_start_def EventLoop_def sample_loop0_def accept_next_def)

lemma sample_loop1_reach: "vless_loop_reach sample_loop1"
proof -
  have wait: "vless_loop_reach (sample_loop0\<lparr>el_phase := AtCompletions\<rparr>)"
    by (rule loop_next [OF sample_loop0_reach ELWait]) (simp_all add: sample_loop0_def)
  have start: "vless_start (vless_made 5 (sample_evp 0) sample_client_net) = sample_life"
    by (simp add: vless_start_def sample_life_def vless_made_def VlessConnection_def)
  have "accept_complete vless_ops 5 (Some (vless_made 5 (sample_evp 0) sample_client_net))
      (sample_loop0\<lparr>el_phase := AtCompletions\<rparr>) = sample_loop1"
    by (simp add: accept_complete_def insert_connection_def accept_next_def start)
      (simp add: sample_loop0_def sample_loop1_def)
  with loop_next [OF wait ELAccept [of _ 5 vless_fds "Some (vless_made 5 (sample_evp 0) sample_client_net)" vless_factory]]
  show ?thesis
    by (auto simp: sample_loop0_def open_fds_def vless_factory_def)
qed

lemma sample_loop2_reach: "vless_loop_reach sample_loop2"
proof -
  let ?e = sample_life_end
  have step: "vless_step sample_life ?e"
    unfolding vless_step_def sample_life_end_def
    by (intro conjI LClientEnd) (simp_all add: sample_life_def vless_made_def)
  have fds: "vless_fds ?e - vless_fds sample_life = {}"
    by (auto simp: vless_fds_def vc_hasFd_def sample_life_end_def sample_life_def vless_made_def VlessConnection_def
        finishClientTask_def Let_def)
  have "vless_loop_reach (sample_loop1\<lparr>connections := [(5, ?e)]\<rparr>)"
    using loop_next [OF sample_loop1_reach ELConnection [of _ 5 sample_life vless_step ?e vless_fds]] step fds
    by (simp add: sample_loop1_def)
  from loop_next [OF this ELCleanup]
  have reach: "vless_loop_reach ((cleanupClosedConnections vless_ops (sample_loop1\<lparr>connections := [(5, ?e)]\<rparr>))\<lparr>el_phase := AtWait\<rparr>)"
    by (simp add: sample_loop1_def)
  have "vc_closed (lf_conn ?e)"
    by (simp add: sample_life_end_def sample_life_def vless_made_def VlessConnection_def finishClientTask_def Let_def)
  then have "(cleanupClosedConnections vless_ops (sample_loop1\<lparr>connections := [(5, ?e)]\<rparr>))\<lparr>el_phase := AtWait\<rparr> = sample_loop2"
    by (simp add: cleanupClosedConnections_def sample_loop1_def sample_loop2_def sample_loop0_def)
  with reach show ?thesis by simp
qed


definition sample_run :: "nat \<Rightarrow> life event_loop" where
  "sample_run i = (if i = 0 then sample_loop2 else if i = 1 then loop_stop sample_loop2 else run_end vless_ops (loop_stop sample_loop2))"


section \<open>The runner\<close>

text \<open>C14: When every worker of \<open>runEventLoops\<close> has been joined, however the threads were interleaved, the
result is 0 exactly when no worker threw; otherwise it is 1 and the error reported is the message of
an exception that some worker threw (or the fixed text when that message is empty).\<close>

theorem runner_reports:
  assumes "runner_reach ops step fds factory n s" and "\<forall>w \<in> set (rn_workers s). \<exists>r. w = WJoined r"
  shows "if \<forall>w \<in> set (rn_workers s). w = WJoined None then runner_result s = (0, [])
    else \<exists>m. WJoined (Some m) \<in> set (rn_workers s) \<and>
      runner_result s = (1, if m = [] then ''worker thread failed'' else m)"
proof -
  have inv: "runner_inv n s" by (rule runner_inv_reach [OF assms(1)])
  then have n: "length (rn_workers s) = n" by (simp add: runner_inv_def)
  have joined: "\<exists>r. rn_workers s ! i = WJoined r" if "i < n" for i
    using assms(2) n that by auto
  show ?thesis
  proof (cases "\<forall>w \<in> set (rn_workers s). w = WJoined None")
    case True
    then have "\<not> hasError s"
      using inv n by (auto simp: runner_inv_def) (metis flagged.simps(2) nth_mem)
    with True show ?thesis by (simp add: runner_result_def)
  next
    case False
    then obtain w where "w \<in> set (rn_workers s)" "w \<noteq> WJoined None" by blast
    then obtain i where i: "i < n" "rn_workers s ! i \<noteq> WJoined None"
      using n by (auto simp: in_set_conv_nth)
    with joined obtain m where m: "rn_workers s ! i = WJoined (Some m)" by fastforce
    with i inv have err: "hasError s" by (auto simp: runner_inv_def)
    from i m inv obtain j where j: "j < n" "recorded (rn_workers s ! j) = Some (errorMessage s)"
      by (auto simp: runner_inv_def)
    with joined have "rn_workers s ! j = WJoined (Some (errorMessage s))" by fastforce
    then have "WJoined (Some (errorMessage s)) \<in> set (rn_workers s)"
      using j(1) n by (metis nth_mem)
    then have "\<exists>m. WJoined (Some m) \<in> set (rn_workers s) \<and>
        runner_result s = (1, if m = [] then ''worker thread failed'' else m)"
      using err by (intro exI [of _ "errorMessage s"]) (simp add: runner_result_def)
    with False show ?thesis by (simp only: if_False)
  qed
qed

text \<open>A worker whose \<open>bind\<close> fails, to its end.\<close>

definition bind_failed :: "'c event_loop" where
  "bind_failed = EventLoop\<lparr>listenFd := 4, el_log := [CloseFd 4]\<rparr>"

lemma worker_start_bind_failed:
  "rn_loops s ! i = EventLoop \<Longrightarrow>
    worker_start i \<lparr>lr_socket = 4, lr_bind = -1, lr_listen = 0\<rparr> s =
      set_worker i (WThrew ''failed to bind listen socket'') (s\<lparr>rn_loops := (rn_loops s)[i := bind_failed]\<rparr>)"
  by (simp add: worker_start_def run_start_def EventLoop_def bind_failed_def el_call_def)

definition after_bind_failure :: "nat \<Rightarrow> 'c runner" where
  "after_bind_failure n = \<lparr>rn_loops = loop_stop bind_failed # replicate n (loop_stop EventLoop),
     rn_workers = WJoined (Some ''failed to bind listen socket'') # replicate n WCreated, hasError = True,
     errorMessage = ''failed to bind listen socket''\<rparr>"

lemma after_bind_failure_reach: "runner_reach ops step fds factory (Suc n) (after_bind_failure n)"
proof -
  let ?m = "''failed to bind listen socket''"
  let ?s = "\<lambda>w h e. \<lparr>rn_loops = bind_failed # replicate n EventLoop, rn_workers = w # replicate n WCreated,
    hasError = h, errorMessage = e\<rparr>"
  have "runner_reach ops step fds factory (Suc n) (worker_start 0 \<lparr>lr_socket = 4, lr_bind = -1, lr_listen = 0\<rparr> (runner_init (Suc n)))"
    by (rule runner_next [OF runner_started RNStart]) (simp_all add: runner_init_def)
  then have 1: "runner_reach ops step fds factory (Suc n) (?s (WThrew ?m) False [])"
    by (simp add: worker_start_bind_failed runner_init_def set_worker_def)
  have 2: "runner_reach ops step fds factory (Suc n) (?s (WRecorded ?m) False ?m)"
    using runner_next [OF 1 RNRecord [of 0]] by (simp add: worker_record_def set_worker_def)
  have 3: "runner_reach ops step fds factory (Suc n) (?s (WFlagged ?m) True ?m)"
    using runner_next [OF 2 RNFlag [of 0]] by (simp add: worker_flag_def set_worker_def)
  show ?thesis
    using runner_next [OF 3 RNStopAll [of 0]] by (simp add: set_worker_def stop_all_def after_bind_failure_def)
qed

lemma runner_reports_witness:
  "runner_result (after_bind_failure 0 :: life runner) = (1, ''failed to bind listen socket'')"
proof -
  have "runner_reach vless_ops vless_step vless_fds vless_factory 1 (after_bind_failure 0)"
    using after_bind_failure_reach [of vless_ops vless_step vless_fds vless_factory 0] by simp
  from runner_reports [OF this] show ?thesis by (simp add: after_bind_failure_def)
qed

text \<open>A stop request does not reach a loop whose thread has not entered \<open>run\<close> yet: when the first loop
cannot bind its port and has stopped all loops before the second thread starts, the second loop
afterwards runs, with no stop to come, although the error is flagged; \<open>runEventLoops\<close> keeps waiting for
it. And the descriptor that the failed \<open>run\<close> had closed is closed a second time by \<open>stop\<close>.\<close>

theorem bind_failure_misses_late_loop:
  "\<exists>s. runner_reach vless_ops vless_step vless_fds vless_factory 2 s \<and> hasError s \<and>
    rn_workers s = [WJoined (Some ''failed to bind listen socket''), WRunning] \<and>
    el_running (rn_loops s ! 1) \<and> el_phase (rn_loops s ! 1) = AtWait \<and>
    count_list (el_log (rn_loops s ! 0)) (CloseFd 4) = 2"
proof -
  let ?s = "after_bind_failure 1 :: life runner"
  let ?r = "\<lparr>lr_socket = 5, lr_bind = 0, lr_listen = 0\<rparr>"
  have "runner_reach vless_ops vless_step vless_fds vless_factory 2 ?s"
    using after_bind_failure_reach [of vless_ops vless_step vless_fds vless_factory 1]
    by (simp add: numeral_2_eq_2)
  from runner_next [OF this RNStart [of 1 _ _ _ _ _ ?r]]
  have reach: "runner_reach vless_ops vless_step vless_fds vless_factory 2 (worker_start 1 ?r ?s)"
    by (simp add: after_bind_failure_def)
  have "worker_start 1 ?r ?s = set_worker 1 WRunning (?s\<lparr>rn_loops := [loop_stop bind_failed,
      (accept_next ((loop_stop EventLoop)\<lparr>listenFd := 5, el_running := True\<rparr>))\<lparr>el_phase := AtWait\<rparr>]\<rparr>)"
    by (simp add: worker_start_def run_start_def after_bind_failure_def)
  moreover have "count_list (el_log (loop_stop (bind_failed :: life event_loop))) (CloseFd 4) = 2"
    by (simp add: loop_stop_def bind_failed_def el_call_def EventLoop_def Let_def)
  ultimately show ?thesis
    using reach by (intro exI [of _ "worker_start 1 ?r ?s"])
      (simp add: set_worker_def after_bind_failure_def accept_next_def)
qed

end
