(* ===== verification/Client_Udp.thy ===== *)
theory Client_Udp
  imports Vless_Client Udp_Relay "HOL-Library.AList"
begin

text \<open>
  The client's SOCKS5 UDP relay (include/client/socks5_udp_relay.h, src/client/socks5_udp_relay.cpp).

  \<open>udp_relay\<close> is the object together with the system it runs on. The session table is an
  association list over \<open>makeKey\<close>; sessions are named by their key, as only \<open>recvLoop\<close> replaces
  table entries. \<open>ur_from\<close> is the script of \<open>AsyncRecvFrom\<close> on the application's socket: the
  completions to come with their source addresses. \<open>ur_event\<close> counts the writes to the eventfd and
  \<open>ur_sentto\<close> logs the datagrams \<open>AsyncSendTo\<close> hands to the application's socket.
\<close>

section \<open>State\<close>

record session =
  ss_remoteFd :: int
  ss_stream :: "net stream_ops option"
  ss_dest :: address
  ss_port :: "16 word"
  ss_appSrc :: "sockaddr option"
  ss_alive :: bool

record udp_relay =
  udpFd :: int
  eventFd :: int
  ur_cfg :: vless_client_config
  ur_closed :: bool
  sessions :: "(string \<times> session) list"
  sendQueue :: "(bytes \<times> sockaddr option) list"
  ur_event :: nat
  ur_from :: "(recv_cqe \<times> sockaddr option) list"
  ur_sentto :: "(bytes \<times> sockaddr option) list"
  ur_sys :: sys

definition Socks5UdpRelay ::
    "int \<Rightarrow> vless_client_config \<Rightarrow> (recv_cqe \<times> sockaddr option) list \<Rightarrow> sys \<Rightarrow> udp_relay" where
  "Socks5UdpRelay fd cfg from_app w = \<lparr>udpFd = fd, eventFd = -1, ur_cfg = cfg, ur_closed = False, sessions = [],
     sendQueue = [], ur_event = 0, ur_from = from_app, ur_sentto = [], ur_sys = w\<rparr>"

definition ur_call :: "syscall list \<Rightarrow> udp_relay \<Rightarrow> udp_relay" where
  "ur_call cs s = s\<lparr>ur_sys := sys_call cs (ur_sys s)\<rparr>"

definition on_ur_sys :: "(sys, 'a) co \<Rightarrow> (udp_relay, 'a) co" where
  "on_ur_sys = embed ur_sys (\<lambda>w s. s\<lparr>ur_sys := w\<rparr>)"

definition on_ur_net :: "(net, 'a) co \<Rightarrow> (udp_relay, 'a) co" where
  "on_ur_net m = on_ur_sys (on_sys_net m)"

definition set_session :: "string \<Rightarrow> session \<Rightarrow> udp_relay \<Rightarrow> udp_relay" where
  "set_session key ss s = s\<lparr>sessions := AList.update key ss (sessions s)\<rparr>"

section \<open>Start, stop, descriptors\<close>

text \<open>\<open>start\<close>: the two loops are started when the eventfd could be created.\<close>

definition relay_start :: "client_env \<Rightarrow> udp_relay \<Rightarrow> udp_relay" where
  "relay_start E s =
     (let s = s\<lparr>eventFd := ce_eventfd E\<rparr> in
      if eventFd s < 0 then s\<lparr>ur_closed := True\<rparr> else s)"

text \<open>Ending a session: \<open>cancelFd\<close>, \<open>close\<close>, and the session is dead.\<close>

definition session_calls :: "session \<Rightarrow> syscall list" where
  "session_calls ss = (if ss_remoteFd ss \<ge> 0 then [CancelFd (ss_remoteFd ss), CloseFd (ss_remoteFd ss)] else [])"

definition fd_calls :: "int \<Rightarrow> syscall list" where
  "fd_calls fd = (if fd \<ge> 0 then [CancelFd fd, CloseFd fd] else [])"

definition relay_stop :: "udp_relay \<Rightarrow> udp_relay" where
  "relay_stop s =
     (if ur_closed s then s
      else
        (let s = s\<lparr>ur_closed := True\<rparr>;
             s = ur_call (concat (map (\<lambda>(key, ss). session_calls ss) (sessions s))) s;
             s = (ur_call (fd_calls (eventFd s)) s)\<lparr>eventFd := (if eventFd s \<ge> 0 then -1 else eventFd s)\<rparr>;
             s = (ur_call (fd_calls (udpFd s)) s)\<lparr>udpFd := (if udpFd s \<ge> 0 then -1 else udpFd s)\<rparr>
         in s\<lparr>sessions := [], sendQueue := []\<rparr>))"

definition relay_hasFd :: "int \<Rightarrow> udp_relay \<Rightarrow> bool" where
  "relay_hasFd fd s \<longleftrightarrow> fd = udpFd s \<or> fd = eventFd s \<or> list_ex (\<lambda>(key, ss). ss_remoteFd ss = fd) (sessions s)"

section \<open>Application to remote\<close>

text \<open>The key of the session, or \<open>None\<close> for the null pointer.\<close>

definition session_usable :: "string \<Rightarrow> udp_relay \<Rightarrow> bool" where
  "session_usable key s = (case map_of (sessions s) key of None \<Rightarrow> False | Some ss \<Rightarrow> ss_alive ss)"

definition getOrCreateSession ::
    "client_env \<Rightarrow> address \<Rightarrow> 16 word \<Rightarrow> (udp_relay, string option) co" where
  "getOrCreateSession E addr port s =
     (let key = makeKey (ce_ntop6 E) addr port in
      if session_usable key s then Some (Inr (Some key), s)
      else
        (let socksReq = \<lparr>sr_cmd = UdpAssociate, sr_address = addr, sr_port = port\<rparr> in
         co_bind (on_ur_sys (vlessConnectAndHandshake E (ur_cfg s) (toVlessRequest socksReq UDP))) (\<lambda>handshake s.
           if hr_remoteFd handshake < 0 then Some (Inr None, s)
           else Some (Inr (Some key), set_session key
             \<lparr>ss_remoteFd = hr_remoteFd handshake, ss_stream = hr_stream handshake, ss_dest = addr,
              ss_port = port, ss_appSrc = None, ss_alive = True\<rparr> s)) s))"

text \<open>The session as it is after a suspension.\<close>

definition current_session :: "string \<Rightarrow> session \<Rightarrow> udp_relay \<Rightarrow> session" where
  "current_session key ss s = (case map_of (sessions s) key of None \<Rightarrow> ss | Some ss' \<Rightarrow> ss')"

text \<open>The end of a session: dead, and its descriptor cancelled and closed.\<close>

definition end_session :: "string \<Rightarrow> session \<Rightarrow> udp_relay \<Rightarrow> udp_relay" where
  "end_session key ss s =
     ur_call (session_calls ss)
       (set_session key (ss\<lparr>ss_alive := False, ss_remoteFd := (if ss_remoteFd ss \<ge> 0 then -1 else ss_remoteFd ss)\<rparr>) s)"

text \<open>One datagram of the application, once its completion is there.\<close>

definition relay_datagram :: "client_env \<Rightarrow> bytes \<Rightarrow> sockaddr option \<Rightarrow> (udp_relay, unit) co" where
  "relay_datagram E data src =
     (case parseUdpDatagram data of
        None \<Rightarrow> co_return ()
      | Some (dest, port, payload) \<Rightarrow>
          (if payload = [] then co_return ()
           else co_bind (getOrCreateSession E dest port) (\<lambda>session s.
             case session of
               None \<Rightarrow> Some (Inr (), s)
             | Some key \<Rightarrow>
                 (let ss = (the (map_of (sessions s) key))\<lparr>ss_appSrc := src\<rparr>;
                      s = set_session key ss s
                  in case ss_stream ss of
                       None \<Rightarrow> Some (Inr (), set_session key (ss\<lparr>ss_alive := False\<rparr>) s)
                     | Some ops \<Rightarrow>
                         co_bind (on_ur_net (st_writeFull ops (udp_frame payload))) (\<lambda>written s.
                           if written \<le> 0 then Some (Inr (), end_session key (current_session key ss s) s)
                           else Some (Inr (), s)) s))))"

partial_function (option) recvLoop :: "client_env \<Rightarrow> udp_relay \<Rightarrow> ((exn + unit) \<times> udp_relay) option" where
  "recvLoop E s =
     (if ur_closed s then Some (Inr (), relay_stop s)
      else case ur_from s of
        [] \<Rightarrow> None
      | (c, src) # later \<Rightarrow>
          (let r = recv_complete c; s = s\<lparr>ur_from := later\<rparr> in
           if rr_error r then Some (Inr (), relay_stop s)
           else if rr_eof r \<or> rr_data r = [] then recvLoop E s
           else co_bind (relay_datagram E (rr_data r) src) (\<lambda>_. recvLoop E) s))"

section \<open>Remote to application\<close>

definition enqueueDatagram ::
    "address \<Rightarrow> 16 word \<Rightarrow> bytes \<Rightarrow> sockaddr option \<Rightarrow> (udp_relay, unit) co" where
  "enqueueDatagram dest port payload appSrc s =
     (if ur_closed s \<or> payload = [] then Some (Inr (), s)
      else case encodeUdpDatagram dest port payload of
        Inl e \<Rightarrow> Some (Inl e, s)
      | Inr data \<Rightarrow>
          (let s = s\<lparr>sendQueue := sendQueue s @ [(data, appSrc)]\<rparr>
           in Some (Inr (), if eventFd s \<ge> 0 then s\<lparr>ur_event := ur_event s + 1\<rparr> else s)))"

fun enqueue_all ::
    "address \<Rightarrow> 16 word \<Rightarrow> bytes list \<Rightarrow> sockaddr option \<Rightarrow> (udp_relay, unit) co" where
  "enqueue_all dest port [] appSrc = co_return ()"
| "enqueue_all dest port (p # ps) appSrc =
     co_bind (enqueueDatagram dest port p appSrc) (\<lambda>_. enqueue_all dest port ps appSrc)"

partial_function (option) sessionOutTask :: "string \<Rightarrow> udp_relay \<Rightarrow> ((exn + unit) \<times> udp_relay) option" where
  "sessionOutTask key s =
     (case map_of (sessions s) key of
        None \<Rightarrow> Some (Inr (), s)
      | Some ss \<Rightarrow>
          (case (if \<not> ur_closed s \<and> ss_alive ss \<and> ss_remoteFd ss \<ge> 0 then ss_stream ss else None) of
             None \<Rightarrow> Some (Inr (), end_session key ss s)
           | Some ops \<Rightarrow>
               co_bind (on_ur_net (st_read ops 8192)) (\<lambda>r s.
                 let ss = current_session key ss s in
                 if rr_eof r then Some (Inr (), end_session key ss s)
                 else if rr_error r then Some (Inr (), end_session key ss s)
                 else co_bind (enqueue_all (ss_dest ss) (ss_port ss) (session_frames (rr_data r) 0) (ss_appSrc ss))
                   (\<lambda>_. sessionOutTask key) s) s))"

text \<open>\<open>AsyncSendTo\<close> sends one datagram; the batch loop ends at the first failure.\<close>

definition send_to :: "int \<Rightarrow> bytes \<Rightarrow> sockaddr option \<Rightarrow> (udp_relay, int) co" where
  "send_to fd data src =
     co_bind (on_ur_net (async_send fd data)) (\<lambda>sent s.
       Some (Inr sent, if sent > 0 then s\<lparr>ur_sentto := ur_sentto s @ [(data, src)]\<rparr> else s))"

partial_function (option) send_queue :: "udp_relay \<Rightarrow> ((exn + unit) \<times> udp_relay) option" where
  "send_queue s =
     (case sendQueue s of
        [] \<Rightarrow> Some (Inr (), s)
      | (data, src) # later \<Rightarrow>
          (if ur_closed s then Some (Inr (), s)
           else co_bind (send_to (udpFd s) data src) (\<lambda>sent s.
             if sent \<le> 0 then Some (Inr (), s) else send_queue s) (s\<lparr>sendQueue := later\<rparr>)))"

partial_function (option) sendLoop :: "udp_relay \<Rightarrow> ((exn + unit) \<times> udp_relay) option" where
  "sendLoop s =
     (if ur_closed s then Some (Inr (), s)
      else co_bind (on_ur_net (async_recv (eventFd s) 4096)) (\<lambda>r s.
        if rr_error r then Some (Inr (), s)
        else co_bind send_queue (\<lambda>_. sendLoop) s) s)"

end
