(* ===== verification/Socks5_Connection.thy ===== *)
theory Socks5_Connection
  imports Client_Udp
begin

text \<open>
  The client's connection to an application (include/client/socks5_connection.h,
  src/client/socks5_connection.cpp): SOCKS5 greeting and request, CONNECT through a VLESS tunnel,
  UDP ASSOCIATE, and the end of the two coroutines, as on the server.

  \<open>sconn\<close> is the object; the network it runs on is inside its buffered stream, the calls that close,
  shut down or cancel a descriptor are logged in \<open>sc_log\<close>.
\<close>

section \<open>State\<close>

record sconn =
  appFd :: int
  remoteFd :: int
  sc_cfg :: vless_client_config
  sc_stream :: "net ubs"
  udpRelay :: "udp_relay option"
  sc_closed :: bool
  appReadDone :: bool
  remoteReadDone :: bool
  remoteTaskStarted :: bool
  sc_log :: "syscall list"

definition Socks5Connection :: "int \<Rightarrow> vless_client_config \<Rightarrow> net \<Rightarrow> sconn" where
  "Socks5Connection fd cfg w = \<lparr>appFd = fd, remoteFd = -1, sc_cfg = cfg, sc_stream = ubs_init w, udpRelay = None,
     sc_closed = False, appReadDone = False, remoteReadDone = False, remoteTaskStarted = False, sc_log = []\<rparr>"

definition sc_hasFd :: "int \<Rightarrow> sconn \<Rightarrow> bool" where
  "sc_hasFd fd s \<longleftrightarrow> fd = appFd s \<or> fd = remoteFd s \<or>
     (case udpRelay s of None \<Rightarrow> False | Some r \<Rightarrow> relay_hasFd fd r)"

definition sc_net :: "sconn \<Rightarrow> net" where
  "sc_net s = ubs_inner (sc_stream s)"

definition sc_set_net :: "net \<Rightarrow> sconn \<Rightarrow> sconn" where
  "sc_set_net w s = s\<lparr>sc_stream := (sc_stream s)\<lparr>ubs_inner := w\<rparr>\<rparr>"

definition sc_logs :: "syscall list \<Rightarrow> sconn \<Rightarrow> sconn" where
  "sc_logs cs s = s\<lparr>sc_log := sc_log s @ cs\<rparr>"

definition sc_on_net :: "(net, 'a) co \<Rightarrow> (sconn, 'a) co" where
  "sc_on_net = embed sc_net sc_set_net"

definition sc_on_stream :: "(net ubs, 'a) co \<Rightarrow> (sconn, 'a) co" where
  "sc_on_stream = embed sc_stream (\<lambda>b s. s\<lparr>sc_stream := b\<rparr>)"

definition sc_sys :: "sconn \<Rightarrow> sys" where
  "sc_sys s = \<lparr>sys_net = sc_net s, sys_log = sc_log s\<rparr>"

definition sc_set_sys :: "sys \<Rightarrow> sconn \<Rightarrow> sconn" where
  "sc_set_sys w s = (sc_set_net (sys_net w) s)\<lparr>sc_log := sys_log w\<rparr>"

definition sc_on_sys :: "(sys, 'a) co \<Rightarrow> (sconn, 'a) co" where
  "sc_on_sys = embed sc_sys sc_set_sys"

definition sc_ops :: "net stream_ops \<Rightarrow> sconn stream_ops" where
  "sc_ops = embed_ops sc_net sc_set_net"

interpretation sc_part: part sc_net sc_set_net
  by unfold_locales (simp_all add: sc_net_def sc_set_net_def)

definition appStream :: "sconn \<Rightarrow> sconn stream_ops" where
  "appStream s = sc_ops (async_stream (appFd s))"

section \<open>Sessions\<close>

definition sendSocksReply :: "client_env \<Rightarrow> reply \<Rightarrow> string \<Rightarrow> 16 word \<Rightarrow> (sconn, bool) co" where
  "sendSocksReply E reply bindIp bindPort s =
     co_bind (lift_exn (encodeReply (ce_pton4 E) (ce_pton6 E) reply bindIp bindPort)) (\<lambda>bs.
       co_bind (st_writeFull (appStream s) bs) (\<lambda>written. co_return (written > 0))) s"

definition startRemoteTask :: "sconn \<Rightarrow> sconn" where
  "startRemoteTask s = s\<lparr>remoteTaskStarted := True\<rparr>"

definition forward_remaining :: "bytes \<Rightarrow> (sconn, bool) co" where
  "forward_remaining remaining s =
     (if remaining = [] then Some (Inr True, s)
      else co_bind (st_writeFull (appStream s) remaining) (\<lambda>fwd. co_return (fwd > 0)) s)"

definition sc_runTcpSession :: "client_env \<Rightarrow> socks_request \<Rightarrow> (sconn, unit) co" where
  "sc_runTcpSession E req s =
     co_bind (sc_on_sys (vlessConnectAndHandshake E (sc_cfg s) (toVlessRequest req TCP))) (\<lambda>handshake.
       if hr_remoteFd handshake < 0 then
         co_bind (sendSocksReply E ConnectionRefused ''0.0.0.0'' 0) (\<lambda>_. co_return ())
       else co_bind (co_modify (\<lambda>s. s\<lparr>remoteFd := hr_remoteFd handshake\<rparr>)) (\<lambda>_.
         co_bind (sendSocksReply E Success ''0.0.0.0'' 0) (\<lambda>ok. if \<not> ok then co_return ()
         else co_bind (forward_remaining (hr_remaining handshake)) (\<lambda>ok. if \<not> ok then co_return ()
         else case hr_stream handshake of
           None \<Rightarrow> co_return ()
         | Some ops \<Rightarrow>
             co_bind (co_modify startRemoteTask) (\<lambda>_ s.
               co_bind (copy_stream (sc_ops ops) (appStream s) sc_closed) (\<lambda>_. co_return ()) s))))) s"

text \<open>Waiting for the application to close its control connection.\<close>

partial_function (option) wait_control :: "int \<Rightarrow> sconn \<Rightarrow> ((exn + unit) \<times> sconn) option" where
  "wait_control fd s =
     (if sc_closed s then Some (Inr (), s)
      else co_bind (sc_on_net (async_recv fd 4096)) (\<lambda>r s.
        if rr_eof r \<or> rr_error r then Some (Inr (), s) else wait_control fd s) s)"

text \<open>The relay's network and log during \<open>stop\<close> are the connection's.\<close>

definition stop_relay :: "sconn \<Rightarrow> sconn" where
  "stop_relay s =
     (case udpRelay s of
        None \<Rightarrow> s
      | Some r \<Rightarrow>
          (let r' = relay_stop (r\<lparr>ur_sys := sc_sys s\<rparr>)
           in s\<lparr>udpRelay := Some r', sc_log := sys_log (ur_sys r')\<rparr>))"

definition runUdpAssociate ::
    "client_env \<Rightarrow> (recv_cqe \<times> sockaddr option) list \<Rightarrow> socks_request \<Rightarrow> (sconn, unit) co" where
  "runUdpAssociate E from_app req =
     (let fd = ce_udp_socket E;
          refuse = co_bind (sendSocksReply E GeneralFailure ''0.0.0.0'' 0) (\<lambda>_. co_return ())
      in if fd < 0 then refuse
         else if ce_udp_bind E fd < 0 then co_bind (co_modify (sc_logs [CloseFd fd])) (\<lambda>_. refuse)
         else co_bind (sendSocksReply E Success ''127.0.0.1'' (ce_udp_port E fd)) (\<lambda>ok.
           if \<not> ok then co_modify (sc_logs [CloseFd fd])
           else co_bind (co_modify (\<lambda>s. s\<lparr>udpRelay := Some (relay_start E
               (Socks5UdpRelay fd (sc_cfg s) from_app (sc_sys s)))\<rparr>)) (\<lambda>_ s.
             co_bind (wait_control (appFd s)) (\<lambda>_. co_modify stop_relay) s)))"

section \<open>The coroutines and the end\<close>

definition sc_finishClientTask :: "sconn \<Rightarrow> sconn" where
  "sc_finishClientTask s =
     (let s = s\<lparr>appReadDone := True\<rparr> in
      if \<not> remoteTaskStarted s then s\<lparr>sc_closed := True\<rparr>
      else if \<not> remoteReadDone s \<and> remoteFd s \<ge> 0 then sc_logs [ShutdownFd (remoteFd s)] s
      else s\<lparr>sc_closed := True\<rparr>)"

definition sc_dispatch ::
    "client_env \<Rightarrow> (recv_cqe \<times> sockaddr option) list \<Rightarrow> socks_request \<Rightarrow> (sconn, unit) co" where
  "sc_dispatch E from_app req =
     (case sr_cmd req of
        Connect \<Rightarrow> sc_runTcpSession E req
      | UdpAssociate \<Rightarrow> runUdpAssociate E from_app req
      | _ \<Rightarrow> co_bind (sendSocksReply E CommandNotSupported ''0.0.0.0'' 0) (\<lambda>_. co_return ()))"

definition sc_clientTask :: "client_env \<Rightarrow> (recv_cqe \<times> sockaddr option) list \<Rightarrow> (sconn, unit) co" where
  "sc_clientTask E from_app s =
     (let fd = appFd s;
          session =
            co_bind (sc_on_stream (readGreeting (ubs_read (async_recv fd)))) (\<lambda>noAuth.
              if \<not> noAuth then co_bind (st_writeFull (appStream s) [5, 0xFF]) (\<lambda>_. co_return ())
              else co_bind (st_writeFull (appStream s) encodeGreetingResponse) (\<lambda>g.
                if g \<le> 0 then co_return ()
                else co_bind (sc_on_stream (readRequest (ubs_read (async_recv fd)))) (sc_dispatch E from_app)))
      in case session s of None \<Rightarrow> None | Some (r, s) \<Rightarrow> Some (Inr (), sc_finishClientTask s))"

text \<open>What \<open>remoteTask\<close> does after its relay, whether that returned or threw.\<close>

definition remoteTask_end :: "sconn \<Rightarrow> sconn" where
  "remoteTask_end s =
     (let s = s\<lparr>remoteReadDone := True\<rparr>;
          s = (if \<not> appReadDone s \<and> appFd s \<ge> 0 then sc_logs [ShutdownFd (appFd s)] s else s)
      in if appReadDone s \<and> remoteReadDone s then s\<lparr>sc_closed := True\<rparr> else s)"

definition remoteTask :: "net stream_ops \<Rightarrow> (sconn, unit) co" where
  "remoteTask ops s =
     (case copy_stream (appStream s) (sc_ops ops) sc_closed s of
        None \<Rightarrow> None
      | Some (r, s) \<Rightarrow> Some (Inr (), remoteTask_end s))"

definition sc_doClose :: "sconn \<Rightarrow> sconn" where
  "sc_doClose s =
     (let s = s\<lparr>sc_closed := True\<rparr>;
          s = (if appFd s \<ge> 0 then sc_logs [CancelFd (appFd s)] s else s);
          s = (if remoteFd s \<ge> 0 then sc_logs [CancelFd (remoteFd s)] s else s);
          s = (stop_relay s)\<lparr>udpRelay := None\<rparr>;
          s = (if remoteFd s \<ge> 0 then (sc_logs [CloseFd (remoteFd s)] s)\<lparr>remoteFd := -1\<rparr> else s)
      in if appFd s \<ge> 0 then (sc_logs [CloseFd (appFd s)] s)\<lparr>appFd := -1\<rparr> else s)"

end
