(* ===== verification/Client_Props.thy ===== *)
theory Client_Props
  imports Socks5_Connection Stream_Frames
begin

text \<open>
  The client: what becomes of the descriptor of the tunnel on every path of the handshake, and a
  SOCKS5 CONNECT session from the greeting to the end of the application's stream.
\<close>

section \<open>The handshake with the remote server\<close>

text \<open>The descriptor the handshake opens, if it gets that far.\<close>

definition tunnel_fd :: "client_env \<Rightarrow> vless_client_config \<Rightarrow> int option" where
  "tunnel_fd E cfg =
     (case resolveRemote E (remoteHost cfg) (remotePort cfg) of
        None \<Rightarrow> None
      | Some addr \<Rightarrow> if ce_socket E addr < 0 then None else Some (ce_socket E addr))"


definition sample_client_env :: client_env where
  "sample_client_env = \<lparr>ce_getaddrinfo = (\<lambda>_ _. Some [SockaddrIn [192, 0, 2, 7] 443]), ce_socket = (\<lambda>_. 7),
     ce_connect = (\<lambda>_ _ w. Some (Inr 0, w)), ce_udp_socket = -1, ce_udp_bind = (\<lambda>_. -1), ce_udp_port = (\<lambda>_. 0),
     ce_eventfd = -1, ce_pton4 = (\<lambda>s. if s = ''0.0.0.0'' then Some [0, 0, 0, 0] else None), ce_pton6 = (\<lambda>_. None),
     ce_ntop6 = (\<lambda>_. None)\<rparr>"

definition sample_client_config :: vless_client_config where
  "sample_client_config = vless_client_config_init\<lparr>remoteHost := ''proxy'', cc_uuid := replicate 16 7\<rparr>"


section \<open>Running the network inside the connection\<close>

lemma sc_net_set [simp]: "sc_net (sc_set_net w s) = w" "sc_set_net w (sc_set_net w' s) = sc_set_net w s"
  by (simp_all add: sc_net_def sc_set_net_def)

lemma sc_set_net_simps [simp]:
  "appFd (sc_set_net w s) = appFd s" "remoteFd (sc_set_net w s) = remoteFd s" "sc_cfg (sc_set_net w s) = sc_cfg s"
  "sc_closed (sc_set_net w s) = sc_closed s" "appReadDone (sc_set_net w s) = appReadDone s"
  "remoteReadDone (sc_set_net w s) = remoteReadDone s" "remoteTaskStarted (sc_set_net w s) = remoteTaskStarted s"
  "sc_log (sc_set_net w s) = sc_log s" "udpRelay (sc_set_net w s) = udpRelay s"
  by (simp_all add: sc_set_net_def)

lemma sc_on_net_eval: "m (sc_net s) = Some (r, w) \<Longrightarrow> sc_on_net m s = Some (r, sc_set_net w s)"
  by (simp add: sc_on_net_def embed_def)

lemma sc_ops_simps [simp]:
  "st_read (sc_ops ops) n = sc_on_net (st_read ops n)"
  "st_writeFull (sc_ops ops) d = sc_on_net (st_writeFull ops d)"
  "st_shutdownWrite (sc_ops ops) = sc_on_net (st_shutdownWrite ops)"
  by (simp_all add: sc_ops_def sc_on_net_def)

lemma appStream_write [simp]: "st_writeFull (appStream s) d = sc_on_net (async_writeFull (appFd s) d)"
  by (simp add: appStream_def)

text \<open>A write of the connection to the application that the kernel accepts.\<close>

lemma app_write:
  assumes "accept (length d) (tx (sc_net s) (appFd s)) = Some rs"
  obtains w where "sc_on_net (async_writeFull (appFd s) d) s = Some (Inr (int (length d)), sc_set_net w s)"
    and "sent w (appFd s) = sent (sc_net s) (appFd s) @ d" and "tx w (appFd s) = rs" and "rx w = rx (sc_net s)"
    and "\<forall>g. g \<noteq> appFd s \<longrightarrow> sent w g = sent (sc_net s) g \<and> tx w g = tx (sc_net s) g"
  using writeFull_accept [OF assms] sc_on_net_eval by metis

section \<open>Reading greeting, request and response\<close>

lemma greeting_chunks:
  assumes "concat gcs = [5, n] @ methods" and "length methods = unat n" and "n \<noteq> 0" and "[] \<notin> set gcs"
    and "ubs_ok b" and "ubs_consumed b = length (ubs_buffer b)" and "rx (ubs_inner b) fd = map chunk gcs @ rest"
  obtains b' where "readGreeting (ubs_read (async_recv fd)) b = Some (Inr (0 \<in> set methods), b')"
    and "drop (ubs_consumed b') (ubs_buffer b') = []" and "ubs_inner b' = with_rx fd rest (ubs_inner b)" and "ubs_ok b'"
proof -
  have list: "readGreeting list_rd (([5, n] @ methods) @ []) = Some (Inr (0 \<in> set methods), [])"
    using readGreeting_list [OF assms(2,3), of "[]"] by simp
  have "gcs = [] \<or> length ([] :: bytes) < length (last gcs)"
    using assms(4) by (cases gcs rule: rev_cases) auto
  from read_chunks [OF _ rx_local_readGreeting _ assms(4) this assms(5-7), of "[5, n] @ methods" "0 \<in> set methods"]
    assms(1) async_rd.buf.sim_Inr [OF async_rd.buf.sim_readGreeting] list
  show thesis by (metis append_Nil2 that)
qed

lemma request_chunks:
  assumes "concat rcs = ([5, c, r] @ ap) @ early" and "length early < length (last rcs)" and "[] \<notin> set rcs"
    and "writeAddrPort addr port = Inr ap" and "address_ok addr"
    and "ubs_ok b" and "ubs_consumed b = length (ubs_buffer b)" and "rx (ubs_inner b) fd = map chunk rcs @ rest"
  obtains b' where "readRequest (ubs_read (async_recv fd)) b =
      Some (Inr \<lparr>sr_cmd = socks_command_of_byte c, sr_address = addr, sr_port = port\<rparr>, b')"
    and "ubs_inner b' = with_rx fd rest (ubs_inner b)"
proof -
  have list: "readRequest list_rd (([5, c, r] @ ap) @ early) =
      Some (Inr \<lparr>sr_cmd = socks_command_of_byte c, sr_address = addr, sr_port = port\<rparr>, early)"
    using readRequest_list [OF assms(4,5)] by simp
  from read_chunks [OF _ rx_local_readRequest assms(1,3) _ assms(6-8)]
    assms(2) async_rd.buf.sim_Inr [OF async_rd.buf.sim_readRequest] list
  show thesis by (metis that)
qed

lemma response_chunks:
  assumes "concat scs = [0, 0] @ down" and "length down < length (last scs)" and "[] \<notin> set scs"
    and "rx w fd = map chunk scs @ later"
  shows "read_response (async_stream fd) w = Some (Inr (Some down), with_rx fd later w)"
proof -
  have init: "ubs_ok (ubs_init w)" "ubs_consumed (ubs_init w) = length (ubs_buffer (ubs_init w))"
    "rx (ubs_inner (ubs_init w)) fd = map chunk scs @ later" "ubs_inner (ubs_init w) = w"
    using assms(4) by (simp_all add: ubs_init_def ubs_ok_def)
  obtain b where b: "decodeResponse (ubs_read (async_recv fd)) (ubs_init w) = Some (Inr True, b)"
    "drop (ubs_consumed b) (ubs_buffer b) = down" "ubs_inner b = with_rx fd later w"
    using read_chunks [OF async_rd.buf.decodeResponse_enough rx_local_decodeResponse assms(1,3) disjI2 [OF assms(2)]
        init(1-3)] init(4) by metis
  then show ?thesis
    by (simp add: read_response_def buffered_def co_bind_def ubs_drainRemaining_def)
qed

section \<open>A CONNECT session\<close>

lemma encodeRequest_nonempty: "encodeRequest req = Inr bs \<Longrightarrow> bs \<noteq> []"
  by (auto simp: encodeRequest_def split: sum.splits)

lemma handshake_ok:
  assumes "\<not> tlsEnabled cfg" and "resolveRemote E (remoteHost cfg) (remotePort cfg) = Some addr"
    and "ce_socket E addr = rfd" and "0 \<le> rfd" and "\<forall>w. ce_connect E rfd addr w = Some (Inr 0, w)"
    and "encodeRequest (req\<lparr>req_uuid := cc_uuid cfg\<rparr>) = Inr bs" and "accept (length bs) (tx (sys_net s) rfd) = Some rr"
    and "rx (sys_net s) rfd = map chunk scs @ later" and "concat scs = [0, 0] @ down"
    and "length down < length (last scs)" and "[] \<notin> set scs"
  obtains w' where "vlessConnectAndHandshake E cfg req s =
      Some (Inr \<lparr>hr_remoteFd = rfd, hr_stream = Some (async_stream rfd), hr_raw = Some (async_stream rfd),
        hr_remaining = down\<rparr>, sys_set_net w' s)"
    and "sent w' rfd = sent (sys_net s) rfd @ bs" and "tx w' rfd = rr" and "rx w' = (rx (sys_net s))(rfd := later)"
    and "\<And>g. g \<noteq> rfd \<Longrightarrow> sent w' g = sent (sys_net s) g \<and> tx w' g = tx (sys_net s) g"
proof -
  let ?put = "\<lambda>w. sys_set_net w s"
  from writeFull_accept [OF assms(7)] obtain w1 where w1:
    "async_writeFull rfd bs (sys_net s) = Some (Inr (int (length bs)), w1)" "sent w1 rfd = sent (sys_net s) rfd @ bs"
    "tx w1 rfd = rr" "rx w1 = rx (sys_net s)" "\<forall>g. g \<noteq> rfd \<longrightarrow> sent w1 g = sent (sys_net s) g \<and> tx w1 g = tx (sys_net s) g"
    by auto
  let ?w' = "with_rx rfd later w1"
  have "read_response (async_stream rfd) w1 = Some (Inr (Some down), ?w')"
    using response_chunks [OF assms(9-11)] assms(8) w1(4) by simp
  then have "vlessConnectAndHandshake E cfg req s =
      Some (Inr \<lparr>hr_remoteFd = rfd, hr_stream = Some (async_stream rfd), hr_raw = Some (async_stream rfd),
        hr_remaining = down\<rparr>, ?put ?w')"
    using assms(1-6) w1(1) encodeRequest_nonempty [OF assms(6)]
    by (simp add: vlessConnectAndHandshake_def Let_def co_bind_def on_sys_net_def embed_def open_stream_def
        lift_exn_def sys_set_net_def)
  then show thesis
    using w1 by (intro that [of ?w']) simp_all
qed

lemma reply_bytes:
  assumes "ce_pton4 E ''0.0.0.0'' = Some [0, 0, 0, 0]"
  shows "encodeReply (ce_pton4 E) (ce_pton6 E) r ''0.0.0.0'' 0 = Inr [5, byte_of_reply r, 0, 1, 0, 0, 0, 0, 0, 0]"
proof -
  have "c_str ''0.0.0.0'' = ''0.0.0.0''"
    by code_simp
  with assms show ?thesis
    by (simp add: encodeReply_def fromHost_def writeAddrPort_def hi8_def lo8_def)
qed

lemma copy_stream_sc:
  assumes "copy_stream dst src (\<lambda>_. False) w = Some (r, w')" and "\<not> sc_closed s"
  shows "copy_stream (sc_ops dst) (sc_ops src) sc_closed (sc_set_net w s) = Some (r, sc_set_net w' s)"
  unfolding sc_ops_def by (rule sc_part.copy_stream_embed [OF assms(1)]) (simp add: assms(2))

lemma copy_in_client:
  assumes "\<not> sc_closed s" and "rx (sc_net s) src = map chunk cs @ [(res, buf)]" and "res \<le> 0"
    and "[] \<notin> set cs" and "accept_all cs (tx (sc_net s) dst) = Some rest"
  obtains s' where "copy_stream (sc_ops (async_stream dst)) (sc_ops (async_stream src)) sc_closed s = Some (Inr (res = 0), s')"
    and "sent (sc_net s') dst = sent (sc_net s) dst @ concat cs" and "wr_shut (sc_net s') dst"
proof -
  from copy_stream_chunks' [of "sc_net s" src cs res buf "[]" dst rest] assms(2-5)
  obtain w' where w': "copy_stream (async_stream dst) (async_stream src) (\<lambda>_. False) (sc_net s) = Some (Inr (res = 0), w')"
    "sent w' dst = sent (sc_net s) dst @ concat cs" "wr_shut w' dst"
    by auto
  have "sc_set_net (sc_net s) s = s"
    by (simp add: sc_net_def sc_set_net_def)
  with copy_stream_sc [OF w'(1), of s] assms(1) w'(2,3) show thesis
    by (intro that [of "sc_set_net w' s"]) simp_all
qed

text \<open>The direction from the server to the application, after what the handshake already passed on (\<open>early\<close>).\<close>

lemma reply_to_application:
  assumes "\<not> sc_closed c" and "sent (sc_net c) (appFd c) = before @ early" and "early @ concat cs = ds"
    and "[] \<notin> set cs" and "rx (sc_net c) (remoteFd c) = map chunk cs @ [(0, [])]"
    and "accept_all cs (tx (sc_net c) (appFd c)) \<noteq> None"
  shows "\<exists>c'. remoteTask (async_stream (remoteFd c)) c = Some (Inr (), c') \<and> remoteReadDone c' \<and>
    sent (sc_net c') (appFd c) = before @ ds \<and> wr_shut (sc_net c') (appFd c)"
proof -
  obtain rest where "accept_all cs (tx (sc_net c) (appFd c)) = Some rest"
    using assms(6) by blast
  from copy_in_client [OF assms(1,5) order_refl assms(4) this] obtain c1 where
    c1: "copy_stream (sc_ops (async_stream (appFd c))) (sc_ops (async_stream (remoteFd c))) sc_closed c = Some (Inr True, c1)"
    "sent (sc_net c1) (appFd c) = sent (sc_net c) (appFd c) @ concat cs" "wr_shut (sc_net c1) (appFd c)"
    by auto
  have "remoteReadDone (remoteTask_end c1)" "sc_net (remoteTask_end c1) = sc_net c1"
    by (simp_all add: remoteTask_end_def sc_logs_def sc_net_def Let_def)
  with c1 assms(2,3) show ?thesis
    by (auto simp: remoteTask_def appStream_def)
qed

text \<open>From the greeting to the dispatch of the request.\<close>

lemma connect_request:
  assumes "concat gcs = [5, n] @ methods" and "length methods = unat n" and "0 \<in> set methods" and "[] \<notin> set gcs"
    and "concat rcs = ([5, 1, r] @ ap) @ early" and "length early < length (last rcs)" and "[] \<notin> set rcs"
    and "writeAddrPort addr port = Inr ap" and "address_ok addr"
    and "rx w afd = map chunk (gcs @ rcs) @ rest" and "accept 2 (tx w afd) = Some rs"
  obtains s where "sc_clientTask E fs (Socks5Connection afd cfg w) =
      (case sc_runTcpSession E \<lparr>sr_cmd = Connect, sr_address = addr, sr_port = port\<rparr> s of
         None \<Rightarrow> None | Some (r, s) \<Rightarrow> Some (Inr (), sc_finishClientTask s))"
    and "rx (sc_net s) = (rx w)(afd := rest)" and "tx (sc_net s) afd = rs" and "sent (sc_net s) afd = sent w afd @ [5, 0]"
    and "\<And>g. g \<noteq> afd \<Longrightarrow> sent (sc_net s) g = sent w g \<and> tx (sc_net s) g = tx w g"
    and "appFd s = afd" and "sc_cfg s = cfg" and "\<not> sc_closed s" and "\<not> remoteReadDone s" and "sc_log s = []"
proof -
  let ?s0 = "Socks5Connection afd cfg w"
  have n: "n \<noteq> 0"
    using assms(2,3) by auto
  have b0: "ubs_ok (sc_stream ?s0)" "ubs_consumed (sc_stream ?s0) = length (ubs_buffer (sc_stream ?s0))"
    "rx (ubs_inner (sc_stream ?s0)) afd = map chunk gcs @ (map chunk rcs @ rest)" "ubs_inner (sc_stream ?s0) = w"
    using assms(10) by (simp_all add: Socks5Connection_def ubs_init_def ubs_ok_def)
  obtain b1 where b1: "readGreeting (ubs_read (async_recv afd)) (sc_stream ?s0) = Some (Inr True, b1)"
    "drop (ubs_consumed b1) (ubs_buffer b1) = []" "ubs_inner b1 = with_rx afd (map chunk rcs @ rest) w" "ubs_ok b1"
    using greeting_chunks [OF assms(1,2) n assms(4) b0(1-3)] assms(3) b0(4) by metis
  let ?s1 = "?s0\<lparr>sc_stream := b1\<rparr>"
  have greet: "sc_on_stream (readGreeting (ubs_read (async_recv afd))) ?s0 = Some (Inr True, ?s1)"
    using b1(1) by (simp add: sc_on_stream_def embed_def)
  have "accept (length [5, 0 :: byte]) (tx (sc_net ?s1) (appFd ?s1)) = Some rs"
    using b1(3) assms(11) by (simp add: sc_net_def Socks5Connection_def numeral_2_eq_2)
  from app_write [OF this] obtain w2 where w2:
    "sc_on_net (async_writeFull afd [5, 0]) ?s1 = Some (Inr 2, sc_set_net w2 ?s1)"
    "sent w2 afd = sent (sc_net ?s1) afd @ [5, 0]" "tx w2 afd = rs" "rx w2 = rx (sc_net ?s1)"
    "\<And>g. g \<noteq> afd \<Longrightarrow> sent w2 g = sent (sc_net ?s1) g \<and> tx w2 g = tx (sc_net ?s1) g"
    by (auto simp: Socks5Connection_def)
  let ?s2 = "sc_set_net w2 ?s1"
  have b2: "ubs_ok (sc_stream ?s2)" "ubs_consumed (sc_stream ?s2) = length (ubs_buffer (sc_stream ?s2))"
    "rx (ubs_inner (sc_stream ?s2)) afd = map chunk rcs @ rest"
    using b1 w2(4) by (simp_all add: sc_set_net_def sc_net_def ubs_ok_def)
  obtain b3 where b3: "readRequest (ubs_read (async_recv afd)) (sc_stream ?s2) =
      Some (Inr \<lparr>sr_cmd = socks_command_of_byte 1, sr_address = addr, sr_port = port\<rparr>, b3)"
    "ubs_inner b3 = with_rx afd rest (ubs_inner (sc_stream ?s2))"
    using request_chunks [OF assms(5-9) b2] by metis
  let ?s3 = "?s2\<lparr>sc_stream := b3\<rparr>"
  have req: "sc_on_stream (readRequest (ubs_read (async_recv afd))) ?s2 =
      Some (Inr \<lparr>sr_cmd = Connect, sr_address = addr, sr_port = port\<rparr>, ?s3)"
    using b3(1) by (simp add: sc_on_stream_def embed_def socks_command_of_byte_def)
  have n3: "sc_net ?s3 = with_rx afd rest w2"
    using b3(2) by (simp add: sc_net_def sc_set_net_def)
  have n1: "sc_net ?s1 = with_rx afd (map chunk rcs @ rest) w"
    using b1(3) by (simp add: sc_net_def)
  have fd: "appFd ?s0 = afd"
    by (simp add: Socks5Connection_def)
  have "sc_clientTask E fs ?s0 =
      (case sc_runTcpSession E \<lparr>sr_cmd = Connect, sr_address = addr, sr_port = port\<rparr> ?s3 of
         None \<Rightarrow> None | Some (r, s) \<Rightarrow> Some (Inr (), sc_finishClientTask s))"
    using greet w2(1) req fd
    by (simp add: sc_clientTask_def encodeGreetingResponse_def co_bind_def [of "sc_on_stream _"] co_bind_def [of "sc_on_net _"]
        sc_dispatch_def)
  then show thesis
    using n3 n1 w2 by (intro that [of ?s3]) (simp_all add: Socks5Connection_def)
qed

abbreviation socks_ok_reply :: bytes where
  "socks_ok_reply \<equiv> [5, 0, 0, 1, 0, 0, 0, 0, 0, 0]"

text \<open>The tunnel, the reply, what the handshake has read too much, and the relay.\<close>

text \<open>What came with the handshake's response is passed on, if there is anything.\<close>

lemma app_forward:
  assumes "accept (length down) (tx (sc_net s) (appFd s)) = Some rest" and "rfd \<noteq> appFd s"
  obtains w where "forward_remaining down s = Some (Inr True, sc_set_net w s)"
    and "sent w (appFd s) = sent (sc_net s) (appFd s) @ down" and "rx w = rx (sc_net s)"
    and "sent w rfd = sent (sc_net s) rfd" and "tx w rfd = tx (sc_net s) rfd"
proof (cases "down = []")
  case True
  then show ?thesis
    by (intro that [of "sc_net s"]) (simp_all add: forward_remaining_def sc_set_net_def sc_net_def)
next
  case False
  from app_write [OF assms(1)] assms(2) obtain w where
    "sc_on_net (async_writeFull (appFd s) down) s = Some (Inr (int (length down)), sc_set_net w s)"
    "sent w (appFd s) = sent (sc_net s) (appFd s) @ down" "rx w = rx (sc_net s)"
    "sent w rfd = sent (sc_net s) rfd" "tx w rfd = tx (sc_net s) rfd"
    by metis
  then show ?thesis
    using False by (intro that [of w]) (simp_all add: forward_remaining_def co_bind_def)
qed

lemma connect_relay:
  assumes "\<not> tlsEnabled (sc_cfg s)" and "resolveRemote E (remoteHost (sc_cfg s)) (remotePort (sc_cfg s)) = Some ra"
    and "ce_socket E ra = rfd" and "0 \<le> rfd" and "\<forall>w. ce_connect E rfd ra w = Some (Inr 0, w)" and "rfd \<noteq> appFd s"
    and "ce_pton4 E ''0.0.0.0'' = Some [0, 0, 0, 0]"
    and "encodeRequest ((toVlessRequest req TCP)\<lparr>req_uuid := cc_uuid (sc_cfg s)\<rparr>) = Inr bs"
    and "rx (sc_net s) rfd = map chunk scs @ later" and "concat scs = [0, 0] @ down"
    and "length down < length (last scs)" and "[] \<notin> set scs"
    and "rx (sc_net s) (appFd s) = map chunk pcs @ [(res, buf)]" and "res \<le> 0" and "[] \<notin> set pcs"
    and "accept_all (bs # pcs) (tx (sc_net s) rfd) = Some rrest"
    and "accept_all [socks_ok_reply, down] (tx (sc_net s) (appFd s)) = Some crest" and "\<not> sc_closed s"
  obtains w where "sc_runTcpSession E req s = Some (Inr (), sc_set_net w (startRemoteTask (s\<lparr>remoteFd := rfd\<rparr>)))"
    and "sent w rfd = sent (sc_net s) rfd @ bs @ concat pcs" and "wr_shut w rfd"
    and "sent w (appFd s) = sent (sc_net s) (appFd s) @ socks_ok_reply @ down"
proof -
  let ?a = "appFd s"
  obtain rr where rr: "accept (length bs) (tx (sc_net s) rfd) = Some rr" "accept_all pcs rr = Some rrest"
    using assms(16) by (auto split: option.splits)
  obtain cr where cr: "accept (length socks_ok_reply) (tx (sc_net s) ?a) = Some cr"
      "accept (length down) cr = Some crest"
    using assms(17) by (auto simp del: list.size split: option.splits)
  have sys: "sys_net (sc_sys s) = sc_net s"
    by (simp add: sc_sys_def)
  have ne: "?a \<noteq> rfd"
    using assms(6) by simp
  obtain w1 where w1: "vlessConnectAndHandshake E (sc_cfg s) (toVlessRequest req TCP) (sc_sys s) =
      Some (Inr \<lparr>hr_remoteFd = rfd, hr_stream = Some (async_stream rfd), hr_raw = Some (async_stream rfd),
        hr_remaining = down\<rparr>, sys_set_net w1 (sc_sys s))"
    "sent w1 rfd = sent (sc_net s) rfd @ bs" "tx w1 rfd = rr" "rx w1 = (rx (sc_net s))(rfd := later)"
    "sent w1 ?a = sent (sc_net s) ?a" "tx w1 ?a = tx (sc_net s) ?a"
    by (rule handshake_ok [OF assms(1-5,8) _ _ assms(10-12), of "sc_sys s" rr later])
      (use rr(1) assms(9) sys ne in simp_all)
  let ?s1 = "sc_set_net w1 s"
  have hs: "sc_on_sys (vlessConnectAndHandshake E (sc_cfg s) (toVlessRequest req TCP)) s =
      Some (Inr \<lparr>hr_remoteFd = rfd, hr_stream = Some (async_stream rfd), hr_raw = Some (async_stream rfd),
        hr_remaining = down\<rparr>, ?s1)"
    using w1(1) by (simp add: sc_on_sys_def embed_def sc_set_sys_def) (simp add: sc_sys_def sc_set_net_def)
  let ?s2 = "?s1\<lparr>remoteFd := rfd\<rparr>"
  have n2: "sc_net ?s2 = w1"
    by (simp add: sc_net_def sc_set_net_def)
  have "accept (length socks_ok_reply) (tx (sc_net ?s2) (appFd ?s2)) = Some cr"
    using cr(1) n2 w1(6) by simp
  then obtain w2 where w2: "sc_on_net (async_writeFull ?a socks_ok_reply) ?s2 = Some (Inr 10, sc_set_net w2 ?s2)"
    "sent w2 ?a = sent (sc_net s) ?a @ socks_ok_reply" "tx w2 ?a = cr" "rx w2 = rx w1"
    "sent w2 rfd = sent w1 rfd" "tx w2 rfd = rr"
    by (rule app_write) (use n2 w1 assms(6) in simp_all)
  have reply: "sendSocksReply E Success ''0.0.0.0'' 0 ?s2 = Some (Inr True, sc_set_net w2 ?s2)"
    using w2(1) reply_bytes [OF assms(7)] by (simp add: sendSocksReply_def co_bind_def lift_exn_def)
  let ?s3 = "sc_set_net w2 ?s2"
  have "accept (length down) (tx (sc_net ?s3) (appFd ?s3)) = Some crest"
    using cr(2) w2(3) by simp
  then obtain w3 where w3: "forward_remaining down ?s3 = Some (Inr True, sc_set_net w3 ?s3)"
    "sent w3 ?a = sent w2 ?a @ down" "rx w3 = rx w2" "sent w3 rfd = sent w2 rfd" "tx w3 rfd = rr"
    by (rule app_forward [where rfd = rfd]) (use assms(6) w2(6) in simp_all)
  let ?s4 = "startRemoteTask (sc_set_net w3 ?s3)"
  have s4: "?s4 = sc_set_net w3 (startRemoteTask (s\<lparr>remoteFd := rfd\<rparr>))"
    by (simp add: startRemoteTask_def sc_set_net_def)
  have "rx w3 ?a = map chunk pcs @ [(res, buf)]"
    using w3(3) w2(4) w1(4) assms(6,13) by simp
  from copy_stream_chunks' [of w3 ?a pcs res buf "[]" rfd rrest] this assms(14,15) w3(5) rr(2) obtain w4 where
    w4: "copy_stream (async_stream rfd) (async_stream ?a) (\<lambda>_. False) w3 = Some (Inr (res = 0), w4)"
    "sent w4 rfd = sent w3 rfd @ concat pcs" "wr_shut w4 rfd"
    by auto
  have closed: "\<not> sc_closed (startRemoteTask (s\<lparr>remoteFd := rfd\<rparr>))" and app: "appFd ?s4 = ?a"
    using assms(18) by (simp_all add: startRemoteTask_def)
  have relay: "copy_stream (sc_ops (async_stream rfd)) (appStream ?s4) sc_closed ?s4 =
      Some (Inr (res = 0), sc_set_net w4 (startRemoteTask (s\<lparr>remoteFd := rfd\<rparr>)))"
    unfolding appStream_def app using copy_stream_sc [OF w4(1) closed] by (simp only: s4)
  have "sc_runTcpSession E req s = Some (Inr (), sc_set_net w4 (startRemoteTask (s\<lparr>remoteFd := rfd\<rparr>)))"
    using hs reply w3(1) relay assms(4)
    by (simp add: sc_runTcpSession_def co_bind_def [of "sc_on_sys _"] co_bind_def [of "sendSocksReply _ _ _ _"]
        co_bind_def [of "forward_remaining _"] co_bind_def [of "co_modify _"] co_bind_def [of "copy_stream _ _ _"])
  moreover have "sent w4 ?a = sent w3 ?a"
    using copy_stream_other [OF w4(1)] assms(6) by metis
  ultimately show thesis
    using w4 w3 w2 w1 by (intro that [of w4]) simp_all
qed

lemma connect_session:
  assumes "concat gcs = [5, n] @ methods" and "length methods = unat n" and "0 \<in> set methods" and "[] \<notin> set gcs"
    and "concat rcs = ([5, 1, r] @ ap) @ early" and "length early < length (last rcs)" and "[] \<notin> set rcs"
    and "writeAddrPort addr port = Inr ap" and "address_ok addr"
    and "[] \<notin> set pcs" and "res \<le> 0" and "rx w afd = map chunk (gcs @ rcs @ pcs) @ [(res, buf)]"
    and "\<not> tlsEnabled cfg" and "resolveRemote E (remoteHost cfg) (remotePort cfg) = Some ra"
    and "ce_socket E ra = rfd" and "0 \<le> rfd" and "\<forall>w. ce_connect E rfd ra w = Some (Inr 0, w)" and "rfd \<noteq> afd"
    and "ce_pton4 E ''0.0.0.0'' = Some [0, 0, 0, 0]"
    and "encodeRequest (request_init\<lparr>req_uuid := cc_uuid cfg, req_command := TCP, req_port := port, req_address := addr\<rparr>) = Inr bs"
    and "rx w rfd = map chunk scs @ later" and "concat scs = [0, 0] @ down"
    and "length down < length (last scs)" and "[] \<notin> set scs"
    and "accept_all (bs # pcs) (tx w rfd) = Some rrest"
    and "accept_all [[5, 0], socks_ok_reply, down] (tx w afd) = Some crest"
  shows "\<exists>s. sc_clientTask E fs (Socks5Connection afd cfg w) = Some (Inr (), s) \<and>
    sent (sc_net s) rfd = sent w rfd @ bs @ concat pcs \<and> wr_shut (sc_net s) rfd \<and>
    sent (sc_net s) afd = sent w afd @ [5, 0] @ socks_ok_reply @ down \<and>
    \<not> sc_closed s \<and> appReadDone s \<and> sc_log s = [ShutdownFd rfd]"
proof -
  let ?req = "\<lparr>sr_cmd = Connect, sr_address = addr, sr_port = port\<rparr>"
  have enc: "encodeRequest ((toVlessRequest ?req TCP)\<lparr>req_uuid := cc_uuid cfg\<rparr>) = Inr bs"
    using assms(20) by (simp add: toVlessRequest_def request_init_def)
  obtain rs where rs: "accept 2 (tx w afd) = Some rs" "accept_all [socks_ok_reply, down] rs = Some crest"
    using assms(26) by (auto simp: numeral_2_eq_2 split: option.splits)
  have script: "rx w afd = map chunk (gcs @ rcs) @ (map chunk pcs @ [(res, buf)])"
    using assms(12) by simp
  obtain s where s: "sc_clientTask E fs (Socks5Connection afd cfg w) =
      (case sc_runTcpSession E ?req s of None \<Rightarrow> None | Some (r, s) \<Rightarrow> Some (Inr (), sc_finishClientTask s))"
    "rx (sc_net s) = (rx w)(afd := map chunk pcs @ [(res, buf)])" "tx (sc_net s) afd = rs"
    "sent (sc_net s) afd = sent w afd @ [5, 0]" "sent (sc_net s) rfd = sent w rfd" "tx (sc_net s) rfd = tx w rfd"
    "appFd s = afd" "sc_cfg s = cfg" "\<not> sc_closed s" "\<not> remoteReadDone s" "sc_log s = []"
    by (rule connect_request [OF assms(1-9) script rs(1), of E fs cfg]) (use assms(18) in simp_all)
  obtain w' where w': "sc_runTcpSession E ?req s = Some (Inr (), sc_set_net w' (startRemoteTask (s\<lparr>remoteFd := rfd\<rparr>)))"
    "sent w' rfd = sent (sc_net s) rfd @ bs @ concat pcs" "wr_shut w' rfd"
    "sent w' (appFd s) = sent (sc_net s) (appFd s) @ socks_ok_reply @ down"
    by (rule connect_relay [of s E ra rfd ?req bs scs later down pcs res buf rrest crest])
      (use assms s rs(2) enc in simp_all)
  then show ?thesis
    using s assms(16) by (simp add: sc_finishClientTask_def startRemoteTask_def sc_logs_def Let_def)
      (simp add: sc_net_def sc_set_net_def)
qed


definition sample_app_net :: net where
  "sample_app_net = net0\<lparr>
     rx := (\<lambda>fd. if fd = 7 then map chunk [[0], [0, 72]] @ [(0, [])]
       else map chunk ([[5, 1, 0]] @ [[5, 1, 0, 1, 192, 0], [2, 1, 1, 187]] @ [[71, 69], [84]]) @ [(0, [])]),
     tx := (\<lambda>fd. if fd = 7 then [26, 2, 1] else [2, 10, 1])\<rparr>"


end
