(* ===== verification/Client_Loop.thy ===== *)
theory Client_Loop
  imports Client_Props Event_Loop_Props Server_Loop
begin

text \<open>
  The client's connections in the event loop: the life of the two coroutines of a \<open>Socks5Connection\<close>,
  which implements \<open>EventLoopConnection\<close> as the server's connection does, and the instance of the loop.
\<close>

section \<open>The life of a connection\<close>

text \<open>The descriptors of the UDP relay, as long as it has not been stopped.\<close>

definition relay_fds :: "sconn \<Rightarrow> int set" where
  "relay_fds s = (case udpRelay s of None \<Rightarrow> {} | Some r \<Rightarrow> if ur_closed r then {} else {fd. 0 \<le> fd \<and> relay_hasFd fd r})"

record sc_life =
  sl_conn :: sconn
  sl_client :: task_state
  sl_remote :: task_state
  sl_destroyed :: bool

text \<open>
  What a coroutine may change between two of the steps below: anything but the four flags and the two
  descriptors; calls on other descriptors are logged (those of a failed handshake and of the UDP relay),
  and the relay's descriptors are not those of the connection.
\<close>

definition same_sc_flags :: "sconn \<Rightarrow> sconn \<Rightarrow> bool" where
  "same_sc_flags s s' \<longleftrightarrow> appFd s' = appFd s \<and> remoteFd s' = remoteFd s \<and> sc_closed s' = sc_closed s \<and>
     appReadDone s' = appReadDone s \<and> remoteReadDone s' = remoteReadDone s \<and>
     remoteTaskStarted s' = remoteTaskStarted s \<and>
     (\<exists>cs. sc_log s' = sc_log s @ cs \<and> CloseFd (appFd s) \<notin> set cs \<and> CloseFd (remoteFd s) \<notin> set cs) \<and>
     appFd s \<notin> relay_fds s' \<and> remoteFd s \<notin> relay_fds s'"

inductive sc_life_step :: "sc_life \<Rightarrow> sc_life \<Rightarrow> bool" where
  SLStart: "\<not> sl_destroyed l \<Longrightarrow> sl_client l = NotStarted \<Longrightarrow> \<not> sc_closed (sl_conn l) \<Longrightarrow>
    sc_life_step l (l\<lparr>sl_client := Running\<rparr>)"
| SLRelay: "\<not> sl_destroyed l \<Longrightarrow> sl_client l = Running \<or> sl_remote l = Running \<Longrightarrow> same_sc_flags (sl_conn l) s' \<Longrightarrow>
    sc_life_step l (l\<lparr>sl_conn := s'\<rparr>)"
| SLConnected: "\<not> sl_destroyed l \<Longrightarrow> sl_client l = Running \<Longrightarrow> sl_remote l = NotStarted \<Longrightarrow> 0 \<le> fd \<Longrightarrow>
    remoteFd (sl_conn l) = -1 \<Longrightarrow> fd \<noteq> appFd (sl_conn l) \<Longrightarrow> fd \<notin> relay_fds (sl_conn l) \<Longrightarrow>
    sc_life_step l (l\<lparr>sl_conn := (sl_conn l)\<lparr>remoteFd := fd\<rparr>\<rparr>)"
| SLRemoteStart: "\<not> sl_destroyed l \<Longrightarrow> sl_client l = Running \<Longrightarrow> sl_remote l = NotStarted \<Longrightarrow>
    0 \<le> remoteFd (sl_conn l) \<Longrightarrow>
    sc_life_step l (l\<lparr>sl_conn := startRemoteTask (sl_conn l), sl_remote := Running\<rparr>)"
| SLClientEnd: "\<not> sl_destroyed l \<Longrightarrow> sl_client l = Running \<Longrightarrow>
    sc_life_step l (l\<lparr>sl_conn := sc_finishClientTask (sl_conn l), sl_client := Ended\<rparr>)"
| SLRemoteEnd: "\<not> sl_destroyed l \<Longrightarrow> sl_remote l = Running \<Longrightarrow>
    sc_life_step l (l\<lparr>sl_conn := remoteTask_end (sl_conn l), sl_remote := Ended\<rparr>)"
| SLCleanup: "\<not> sl_destroyed l \<Longrightarrow> sc_closed (sl_conn l) \<Longrightarrow>
    sc_life_step l (l\<lparr>sl_conn := sc_doClose (sl_conn l), sl_destroyed := True\<rparr>)"

inductive_cases sc_life_stepE: "sc_life_step l l'"

section \<open>Stopping the relay\<close>

lemma relay_stop_log:
  "\<exists>cs. sys_log (ur_sys (relay_stop r)) = sys_log (ur_sys r) @ cs \<and>
     (\<forall>fd. CloseFd fd \<in> set cs \<longrightarrow> \<not> ur_closed r \<and> 0 \<le> fd \<and> relay_hasFd fd r)"
proof (cases "ur_closed r")
  case False
  let ?cs = "concat (map (\<lambda>(key, ss). session_calls ss) (sessions r)) @ fd_calls (eventFd r) @ fd_calls (udpFd r)"
  have "sys_log (ur_sys (relay_stop r)) = sys_log (ur_sys r) @ ?cs"
    using False by (simp add: relay_stop_def ur_call_def Let_def)
  moreover have "CloseFd fd \<in> set ?cs \<Longrightarrow> 0 \<le> fd \<and> relay_hasFd fd r" for fd
    by (auto simp: session_calls_def fd_calls_def relay_hasFd_def list_ex_iff split: if_splits)
  ultimately show ?thesis using False by blast
qed (simp add: relay_stop_def)

lemma stop_relay_same:
  "appFd (stop_relay s) = appFd s \<and> remoteFd (stop_relay s) = remoteFd s \<and> sc_closed (stop_relay s) = sc_closed s \<and>
   appReadDone (stop_relay s) = appReadDone s \<and> remoteReadDone (stop_relay s) = remoteReadDone s \<and>
   remoteTaskStarted (stop_relay s) = remoteTaskStarted s"
  by (simp add: stop_relay_def Let_def split: option.split)

lemmas stop_relay_simps [simp] = stop_relay_same [THEN conjunct1] stop_relay_same [THEN conjunct2, THEN conjunct1]
  stop_relay_same [THEN conjunct2, THEN conjunct2, THEN conjunct1]
  stop_relay_same [THEN conjunct2, THEN conjunct2, THEN conjunct2, THEN conjunct1]
  stop_relay_same [THEN conjunct2, THEN conjunct2, THEN conjunct2, THEN conjunct2, THEN conjunct1]
  stop_relay_same [THEN conjunct2, THEN conjunct2, THEN conjunct2, THEN conjunct2, THEN conjunct2]

lemma stop_relay_log:
  "\<exists>cs. sc_log (stop_relay s) = sc_log s @ cs \<and> (\<forall>fd. CloseFd fd \<in> set cs \<longrightarrow> fd \<in> relay_fds s)"
proof (cases "udpRelay s")
  case (Some r)
  obtain cs where "sys_log (ur_sys (relay_stop (r\<lparr>ur_sys := sc_sys s\<rparr>))) = sc_log s @ cs"
    "\<forall>fd. CloseFd fd \<in> set cs \<longrightarrow> \<not> ur_closed r \<and> 0 \<le> fd \<and> relay_hasFd fd r"
    using relay_stop_log [of "r\<lparr>ur_sys := sc_sys s\<rparr>"] by (auto simp: sc_sys_def relay_hasFd_def)
  with Some show ?thesis by (auto simp: stop_relay_def relay_fds_def Let_def)
qed (simp add: stop_relay_def)

lemma stop_relay_count:
  "fd \<notin> relay_fds s \<Longrightarrow> count_list (sc_log (stop_relay s)) (CloseFd fd) = count_list (sc_log s) (CloseFd fd)"
  using stop_relay_log [of s] by (auto simp: count_list_0_iff)

section \<open>The invariant\<close>

definition sc_life_inv :: "int \<Rightarrow> sc_life \<Rightarrow> bool" where
  "sc_life_inv fd l \<longleftrightarrow>
     (let s = sl_conn l in
      0 \<le> fd \<and>
      (sc_closed s \<longleftrightarrow> sl_client l = Ended \<and> sl_remote l \<noteq> Running) \<and>
      (appReadDone s \<longleftrightarrow> sl_client l = Ended) \<and> (remoteReadDone s \<longleftrightarrow> sl_remote l = Ended) \<and>
      (remoteTaskStarted s \<longleftrightarrow> sl_remote l \<noteq> NotStarted) \<and>
      (sl_client l = NotStarted \<longrightarrow> sl_remote l = NotStarted) \<and>
      (sl_destroyed l \<longrightarrow> sc_closed s \<and> appFd s = -1 \<and> remoteFd s < 0 \<and> udpRelay s = None) \<and>
      (\<not> sl_destroyed l \<longrightarrow> appFd s = fd \<and> remoteFd s \<noteq> fd \<and> fd \<notin> relay_fds s \<and>
         (sl_remote l \<noteq> NotStarted \<longrightarrow> 0 \<le> remoteFd s)) \<and>
      (sl_client l = Ended \<and> sl_remote l = Running \<longrightarrow> ShutdownFd (remoteFd s) \<in> set (sc_log s)) \<and>
      (sl_remote l = Ended \<and> sl_client l = Running \<longrightarrow> ShutdownFd fd \<in> set (sc_log s)) \<and>
      count_list (sc_log s) (CloseFd fd) = (if sl_destroyed l then 1 else 0))"

definition socks_made :: "int \<Rightarrow> vless_client_config \<Rightarrow> net \<Rightarrow> sc_life" where
  "socks_made fd cfg w = \<lparr>sl_conn = Socks5Connection fd cfg w, sl_client = NotStarted, sl_remote = NotStarted,
     sl_destroyed = False\<rparr>"

lemma sc_life_inv_init: "0 \<le> fd \<Longrightarrow> sc_life_inv fd (socks_made fd cfg w)"
  by (simp add: sc_life_inv_def socks_made_def Socks5Connection_def relay_fds_def)

lemma relay_fds_update [simp]:
  "relay_fds (s\<lparr>remoteFd := fd\<rparr>) = relay_fds s" "relay_fds (s\<lparr>appReadDone := b\<rparr>) = relay_fds s"
  "relay_fds (s\<lparr>remoteReadDone := b\<rparr>) = relay_fds s" "relay_fds (s\<lparr>sc_closed := b\<rparr>) = relay_fds s"
  "relay_fds (s\<lparr>remoteTaskStarted := b\<rparr>) = relay_fds s" "relay_fds (s\<lparr>sc_log := cs\<rparr>) = relay_fds s"
  by (simp_all add: relay_fds_def)

lemma sc_doClose_simps:
  "sc_closed (sc_doClose s)" "appReadDone (sc_doClose s) = appReadDone s"
  "remoteReadDone (sc_doClose s) = remoteReadDone s" "remoteTaskStarted (sc_doClose s) = remoteTaskStarted s"
  "udpRelay (sc_doClose s) = None" "appFd (sc_doClose s) = (if 0 \<le> appFd s then -1 else appFd s)"
  "remoteFd (sc_doClose s) = (if 0 \<le> remoteFd s then -1 else remoteFd s)"
  by (simp_all add: sc_doClose_def sc_logs_def Let_def)

lemma sc_doClose_count:
  assumes "0 \<le> appFd s" and "remoteFd s \<noteq> appFd s" and "appFd s \<notin> relay_fds s"
  shows "count_list (sc_log (sc_doClose s)) (CloseFd (appFd s)) = Suc (count_list (sc_log s) (CloseFd (appFd s)))"
  using assms by (simp add: sc_doClose_def sc_logs_def Let_def stop_relay_count)

lemma same_sc_flags_count:
  "same_sc_flags s s' \<Longrightarrow> count_list (sc_log s') (CloseFd (appFd s)) = count_list (sc_log s) (CloseFd (appFd s)) \<and>
    set (sc_log s) \<subseteq> set (sc_log s')"
  by (auto simp: same_sc_flags_def count_list_0_iff)

lemma sc_cleanup_inv:
  assumes "sc_life_inv fd l" and "\<not> sl_destroyed l" and "sc_closed (sl_conn l)"
  shows "sc_life_inv fd (l\<lparr>sl_conn := sc_doClose (sl_conn l), sl_destroyed := True\<rparr>)"
  using assms sc_doClose_count [of "sl_conn l"]
  by (auto simp: sc_life_inv_def Let_def sc_doClose_simps)

lemma sc_relay_inv:
  assumes "sc_life_inv fd l" and "\<not> sl_destroyed l" and "same_sc_flags (sl_conn l) s'"
  shows "sc_life_inv fd (l\<lparr>sl_conn := s'\<rparr>)"
  using assms same_sc_flags_count [OF assms(3)]
  by (auto simp: sc_life_inv_def Let_def same_sc_flags_def)

lemmas sc_life_ops = sc_logs_def startRemoteTask_def sc_finishClientTask_def remoteTask_end_def

lemma sc_life_inv_step: "sc_life_step l l' \<Longrightarrow> sc_life_inv fd l \<Longrightarrow> sc_life_inv fd l'"
proof (erule sc_life_stepE, goal_cases)
  case (2 s')
  then show ?case by (simp add: sc_relay_inv)
next
  case 7
  then show ?case by (simp add: sc_cleanup_inv)
qed (insert task_state_cases [of "sl_remote l"] task_state_cases [of "sl_client l"],
     auto simp: sc_life_inv_def sc_life_ops Let_def split: if_splits)

section \<open>The connection as the loop sees it\<close>

definition socks_start :: "sc_life \<Rightarrow> sc_life" where
  "socks_start l = (if sc_closed (sl_conn l) then l else l\<lparr>sl_client := Running\<rparr>)"

definition socks_destroy :: "sc_life \<Rightarrow> sc_life" where
  "socks_destroy l = l\<lparr>sl_conn := sc_doClose (sl_conn l), sl_destroyed := True\<rparr>"

definition socks_ops :: "sc_life connection_ops" where
  "socks_ops = \<lparr>cn_start = socks_start, cn_isClosed = (\<lambda>l. sc_closed (sl_conn l)),
     cn_primaryFd = (\<lambda>l. appFd (sl_conn l)), cn_destroy = socks_destroy\<rparr>"

definition socks_fds :: "sc_life \<Rightarrow> int set" where
  "socks_fds l = {fd. 0 \<le> fd \<and> (fd = appFd (sl_conn l) \<or> fd = remoteFd (sl_conn l))} \<union> relay_fds (sl_conn l)"

definition socks_step :: "sc_life \<Rightarrow> sc_life \<Rightarrow> bool" where
  "socks_step l l' \<longleftrightarrow> sc_life_step l l' \<and> \<not> sl_destroyed l'"

definition socks_factory :: "vless_client_config \<Rightarrow> int \<Rightarrow> sc_life option set" where
  "socks_factory cfg fd = {Some (socks_made fd cfg w) | w. True}"

definition socks_inv :: "int \<Rightarrow> sc_life \<Rightarrow> bool" where
  "socks_inv fd l \<longleftrightarrow> sc_life_inv fd l \<and> \<not> sl_destroyed l \<and> sl_client l \<noteq> NotStarted"

lemma socks_ops_simps [simp]:
  "cn_start socks_ops = socks_start" "cn_isClosed socks_ops l = sc_closed (sl_conn l)"
  "cn_primaryFd socks_ops l = appFd (sl_conn l)" "cn_destroy socks_ops = socks_destroy"
  by (simp_all add: socks_ops_def)

lemma socks_started: "0 \<le> fd \<Longrightarrow> socks_inv fd (socks_start (socks_made fd cfg w))"
  using sc_life_inv_step [OF SLStart sc_life_inv_init [of fd cfg w]]
  by (simp add: socks_inv_def socks_start_def socks_made_def Socks5Connection_def)

lemma sc_started_stays: "sc_life_step l l' \<Longrightarrow> sl_client l \<noteq> NotStarted \<Longrightarrow> sl_client l' \<noteq> NotStarted"
  by (erule sc_life_stepE) auto

lemma sc_closed_no_step: "sc_life_inv fd l \<Longrightarrow> sc_closed (sl_conn l) \<Longrightarrow> sc_life_step l l' \<Longrightarrow> sl_destroyed l'"
  by (erule sc_life_stepE) (auto simp: sc_life_inv_def Let_def)

interpretation socks_loop: loop_connection socks_ops socks_step socks_fds "sc_log \<circ> sl_conn" "socks_factory cfg" socks_inv
  for cfg
proof (unfold_locales, goal_cases)
  case (1 c fd)
  then show ?case by (auto simp: socks_factory_def socks_started)
next
  case (2 c fd)
  then show ?case
    by (auto simp: socks_factory_def socks_start_def socks_made_def socks_fds_def relay_fds_def Socks5Connection_def)
next
  case (3 fd c c')
  then show ?case by (auto simp: socks_inv_def socks_step_def intro: sc_life_inv_step dest: sc_started_stays)
next
  case (4 fd c)
  then show ?case by (auto simp: socks_inv_def sc_life_inv_def Let_def socks_fds_def)
next
  case (5 fd c c')
  then show ?case using sc_closed_no_step by (auto simp: socks_inv_def socks_step_def)
next
  case (6 fd c)
  then show ?case by (auto simp: socks_fds_def socks_destroy_def sc_doClose_simps relay_fds_def)
next
  case (7 fd c)
  then show ?case
    using sc_doClose_count [of "sl_conn c"] by (auto simp: socks_inv_def socks_destroy_def sc_life_inv_def Let_def)
qed

text \<open>C32: Liveness of the client's event loop: a SOCKS5 connection that has become closed while completions
are dispatched is destroyed before the loop leaves the dispatch, whatever else happens in between:
its own descriptor is then closed exactly once, and none of its descriptors, those of the tunnel and
of the UDP relay included, stays open.\<close>

theorem closed_connection_reclaimed:
  assumes "loop_run socks_ops socks_step socks_fds (socks_factory cfg) \<sigma>"
    and "map_of (connections (\<sigma> i)) fd = Some l" and "sc_closed (sl_conn l)"
    and "i \<le> j" and "el_phase (\<sigma> j) \<noteq> AtCompletions"
  shows "socks_destroy l \<in> set (el_gone (\<sigma> j)) \<and> socks_fds (socks_destroy l) = {} \<and>
    count_list (sc_log (sl_conn (socks_destroy l))) (CloseFd fd) = 1 \<and>
    sl_client l = Ended \<and> sl_remote l \<noteq> Running"
proof -
  have "socks_loop.table_ok (\<sigma> i)"
    by (rule socks_loop.table_ok_reach [OF socks_loop.run_reach [OF assms(1)]])
  then have inv: "socks_inv fd l"
    using assms(2) by (simp add: socks_loop.table_ok_def)
  then have "sl_client l = Ended \<and> sl_remote l \<noteq> Running"
    using assms(3) by (auto simp: socks_inv_def sc_life_inv_def Let_def)
  with inv socks_loop.destroy_fds [OF inv] socks_loop.destroy_closes [OF inv]
    socks_loop.closed_is_reclaimed [OF assms(1,2) _ assms(4,5)] assms(3)
  show ?thesis by simp
qed

section \<open>A sample run\<close>

definition sample_socks :: sc_life where
  "sample_socks = (socks_made 5 sample_client_config sample_app_net)\<lparr>sl_client := Running\<rparr>"

definition sample_socks_end :: sc_life where
  "sample_socks_end = sample_socks\<lparr>sl_conn := sc_finishClientTask (sl_conn sample_socks), sl_client := Ended\<rparr>"

definition sample_socks_loop :: "sc_life event_loop" where
  "sample_socks_loop = \<lparr>el_running = True, listenFd = 3, connections = [(5, sample_socks_end)],
     acceptTask = AcceptWaiting, el_phase = AtCompletions, el_gone = [], el_log = []\<rparr>"

abbreviation socks_loop_reach :: "sc_life event_loop \<Rightarrow> bool" where
  "socks_loop_reach \<equiv> loop_reach socks_ops socks_step socks_fds (socks_factory sample_client_config)"

lemma sample_socks_closed: "sc_closed (sl_conn sample_socks_end)"
  by (simp add: sample_socks_end_def sample_socks_def socks_made_def Socks5Connection_def sc_finishClientTask_def)

lemma sample_socks_loop_reach: "socks_loop_reach sample_socks_loop"
proof -
  let ?l = "\<lambda>p cs. \<lparr>el_running = True, listenFd = 3, connections = cs, acceptTask = AcceptWaiting,
     el_phase = p, el_gone = [], el_log = []\<rparr>"
  let ?made = "socks_made 5 sample_client_config sample_app_net"
  have "socks_loop_reach (?l AtWait [])"
    by (rule loop_started [of "\<lparr>lr_socket = 3, lr_bind = 0, lr_listen = 0\<rparr>"])
      (simp add: run_start_def EventLoop_def accept_next_def)
  from loop_next [OF this ELWait] have dispatch: "socks_loop_reach (?l AtCompletions [])"
    by simp
  have start: "socks_start ?made = sample_socks"
    by (simp add: socks_start_def sample_socks_def socks_made_def Socks5Connection_def)
  have accepted: "socks_loop_reach (?l AtCompletions [(5, sample_socks)])"
    using loop_next [OF dispatch ELAccept [of _ 5 socks_fds "Some ?made" "socks_factory sample_client_config"]]
    by (auto simp: open_fds_def socks_factory_def accept_complete_def insert_connection_def accept_next_def start)
  have step: "socks_step sample_socks sample_socks_end"
    unfolding socks_step_def sample_socks_end_def
    by (intro conjI SLClientEnd) (simp_all add: sample_socks_def socks_made_def)
  have "socks_fds sample_socks_end - socks_fds sample_socks = {}"
    by (auto simp: socks_fds_def relay_fds_def sample_socks_end_def sample_socks_def socks_made_def
        Socks5Connection_def sc_finishClientTask_def)
  with loop_next [OF accepted ELConnection [of _ 5 sample_socks socks_step sample_socks_end socks_fds]] step
  show ?thesis by (simp add: sample_socks_loop_def)
qed

definition sample_socks_run :: "nat \<Rightarrow> sc_life event_loop" where
  "sample_socks_run i = (if i = 0 then sample_socks_loop
     else (cleanupClosedConnections socks_ops sample_socks_loop)\<lparr>el_phase := AtWait\<rparr>)"

lemma closed_connection_reclaimed_witness:
  "socks_destroy sample_socks_end \<in> set (el_gone (sample_socks_run 1)) \<and>
    count_list (sc_log (sl_conn (socks_destroy sample_socks_end))) (CloseFd 5) = 1"
proof -
  have "loop_step socks_ops socks_step socks_fds (socks_factory sample_client_config) sample_socks_loop
      ((cleanupClosedConnections socks_ops sample_socks_loop)\<lparr>el_phase := AtWait\<rparr>)"
    by (rule ELCleanup) (simp add: sample_socks_loop_def)
  then have "loop_run socks_ops socks_step socks_fds (socks_factory sample_client_config) sample_socks_run"
    using sample_socks_loop_reach by (simp add: loop_run_def sample_socks_run_def)
  moreover have "map_of (connections (sample_socks_run 0)) 5 = Some sample_socks_end"
    by (simp add: sample_socks_run_def sample_socks_loop_def)
  moreover have "el_phase (sample_socks_run 1) \<noteq> AtCompletions"
    by (simp add: sample_socks_run_def)
  ultimately show ?thesis
    using closed_connection_reclaimed [of sample_client_config sample_socks_run 0 5 sample_socks_end 1] sample_socks_closed
    by simp
qed

section \<open>A relay that could not start\<close>

text \<open>When the eventfd cannot be created, \<open>start\<close> marks the relay closed, and \<open>stop\<close> then does nothing: the
UDP socket is never closed.\<close>

lemma failed_relay_keeps_socket:
  "ce_eventfd E < 0 \<Longrightarrow> relay_stop (relay_start E r) = relay_start E r \<and> udpFd (relay_start E r) = udpFd r"
  by (simp add: relay_start_def relay_stop_def Let_def)

end
