(* ===== verification/Vision_Props.thy ===== *)
theory Vision_Props
  imports Vision
begin

text \<open>
  The Vision layer end to end: whatever the writer emits, cut into any chunks, the reader
  turns back into the data the writer was given. The reader's loop is a stream transducer
  (\<open>feed_append\<close>): splitting its input does not change the output.
\<close>

section \<open>The reader as a transducer\<close>

definition feed :: "bytes \<Rightarrow> vision_reader \<times> bytes \<Rightarrow> vision_reader \<times> bytes" where
  "feed data ro = (if withinPadding (fst ro) then vr_loop (fst ro) (snd ro) data
                   else (fst ro, snd ro @ data))"

lemma feed_Nil [simp]: "feed [] ro = ro"
  by (cases ro) (simp add: feed_def vr_loop.simps)

lemma vr_header_append:
  "vr_header r (xs @ ys) =
     (case vr_header r xs of (r', rest) \<Rightarrow> if rest = [] then vr_header r' ys else (r', rest @ ys))"
  by (induction r xs rule: vr_header.induct) (auto split: prod.splits)

lemma vr_header_byte_keeps [simp]:
  "withinPadding (vr_header_byte b r) = withinPadding r"
  "remainingCommand (vr_header_byte b r) = remainingCommand r - 1"
  by (simp_all add: vr_header_byte_def Let_def)

lemma vr_header_within [simp]: "withinPadding (fst (vr_header r xs)) = withinPadding r"
  by (induction r xs rule: vr_header.induct) auto

lemma vr_header_done: "vr_header r xs = (r', rest) \<Longrightarrow> rest \<noteq> [] \<Longrightarrow> remainingCommand r' \<le> 0"
  by (induction r xs rule: vr_header.induct) (auto split: if_splits)

lemma vr_loop_header_nil:
  "remainingCommand r > 0 \<Longrightarrow> vr_loop r out ys = (case vr_header r ys of (r', rest) \<Rightarrow> vr_loop r' out rest)"
  by (cases ys) (simp_all add: vr_loop.simps [of r out])

lemma vr_header_stop: "\<not> remainingCommand r > 0 \<Longrightarrow> vr_header r ys = (r, ys)"
  by (cases ys) auto

lemma vr_loop_via_header:
  "vr_loop r out ys = (case vr_header r ys of (r', rest) \<Rightarrow> vr_loop r' out rest)"
  by (cases "remainingCommand r > 0") (simp_all add: vr_loop_header_nil vr_header_stop)

text \<open>Input that ends inside the content or inside the padding leaves the loop where the next input goes on.\<close>

lemma vr_loop_short_content:
  assumes "remainingCommand r \<le> 0" and "int (length xs) < remainingContent r" and "xs \<noteq> []"
  defines "r' \<equiv> r\<lparr>remainingContent := remainingContent r - int (length xs)\<rparr>"
  shows "vr_loop r out xs = (r', out @ xs)" and "vr_loop r out (xs @ ys) = vr_loop r' (out @ xs) ys"
proof -
  show "vr_loop r out xs = (r', out @ xs)"
    using assms by (simp add: vr_loop.simps [of r out] vr_loop.simps [of _ _ "[]"] Let_def)
  show "vr_loop r out (xs @ ys) = vr_loop r' (out @ xs) ys"
    using assms
    by (cases "ys = []")
      (auto simp: vr_loop.simps [of r out "xs @ ys"] vr_loop.simps [of "r\<lparr>remainingContent := remainingContent r - int (length xs)\<rparr>" "out @ xs" ys] Let_def min_def
        vr_loop.simps [of r out "xs"] vr_loop.simps [of _ _ "[]"] nat_diff_distrib)
qed

lemma vr_loop_short_padding:
  assumes "remainingCommand r \<le> 0" and "remainingContent r \<le> 0" and "int (length xs) < remainingPadding r" and "xs \<noteq> []"
  defines "r' \<equiv> r\<lparr>remainingPadding := remainingPadding r - int (length xs)\<rparr>"
  shows "vr_loop r out xs = (r', out)" and "vr_loop r out (xs @ ys) = vr_loop r' out ys"
proof -
  show "vr_loop r out xs = (r', out)"
    using assms by (simp add: vr_loop.simps [of r out] vr_loop.simps [of _ _ "[]"] Let_def)
  show "vr_loop r out (xs @ ys) = vr_loop r' out ys"
    using assms
    by (cases "ys = []")
      (auto simp: vr_loop.simps [of r out "xs @ ys"] vr_loop.simps [of "r\<lparr>remainingPadding := remainingPadding r - int (length xs)\<rparr>" out ys] Let_def min_def
        vr_loop.simps [of r out "xs"] vr_loop.simps [of _ _ "[]"] nat_diff_distrib)
qed

lemma feed_loop_append:
  assumes "withinPadding r"
  shows "vr_loop r out (xs @ ys) = feed ys (vr_loop r out xs)"
  using assms
proof (induction r out xs rule: vr_loop.induct)
  case (1 r out xs)
  consider (nil) "xs = []" | (header) "xs \<noteq> []" "remainingCommand r > 0"
    | (content) "xs \<noteq> []" "\<not> remainingCommand r > 0" "remainingContent r > 0"
    | (pad) "xs \<noteq> []" "\<not> remainingCommand r > 0" "\<not> remainingContent r > 0" "remainingPadding r > 0"
    | (cont) "xs \<noteq> []" "\<not> remainingCommand r > 0" "\<not> remainingContent r > 0"
        "\<not> remainingPadding r > 0" "currentCommand r = uint VISION_CMD_CONTINUE"
    | (stop) "xs \<noteq> []" "\<not> remainingCommand r > 0" "\<not> remainingContent r > 0"
        "\<not> remainingPadding r > 0" "currentCommand r \<noteq> uint VISION_CMD_CONTINUE"
    by blast
  then show ?case
  proof cases
    case nil
    with "1.prems" show ?thesis by (simp add: feed_def vr_loop.simps [of r out "[]"])
  next
    case header
    obtain r' rest where h: "vr_header r xs = (r', rest)" by fastforce
    with "1.prems" have within: "withinPadding r'"
      by (metis fst_conv vr_header_within)
    from header h "1.IH"(1) within
    have IH: "vr_loop r' out (rest @ ys) = feed ys (vr_loop r' out rest)" by simp
    show ?thesis
    proof (cases "rest = []")
      case True
      then have "vr_loop r out (xs @ ys) = vr_loop r' out ys"
        using header h by (simp add: vr_loop_header_nil vr_header_append vr_loop_via_header [of r'])
      then show ?thesis
        using header h True within
        by (simp add: vr_loop_header_nil vr_loop.simps [of r' out "[]"] feed_def)
    next
      case False
      then show ?thesis
        using header h IH by (simp add: vr_loop_header_nil vr_header_append)
    qed
  next
    case content
    let ?n = "min (nat (remainingContent r)) (length xs)"
    let ?r = "r\<lparr>remainingContent := remainingContent r - int ?n\<rparr>"
    have IH: "vr_loop ?r (out @ take ?n xs) (drop ?n xs @ ys) =
        feed ys (vr_loop ?r (out @ take ?n xs) (drop ?n xs))"
      using content "1.IH"(2) "1.prems" by simp
    show ?thesis
    proof (cases "nat (remainingContent r) \<le> length xs")
      case True
      then show ?thesis
        using content IH by (simp add: vr_loop.simps [of r out] Let_def min_def)
    next
      case False
      then show ?thesis
        using content vr_loop_short_content [of r xs out] "1.prems" by (simp add: feed_def)
    qed
  next
    case pad
    let ?n = "min (nat (remainingPadding r)) (length xs)"
    let ?r = "r\<lparr>remainingPadding := remainingPadding r - int ?n\<rparr>"
    have IH: "vr_loop ?r out (drop ?n xs @ ys) = feed ys (vr_loop ?r out (drop ?n xs))"
      using pad "1.IH"(3) "1.prems" by simp
    show ?thesis
    proof (cases "nat (remainingPadding r) \<le> length xs")
      case True
      then show ?thesis
        using pad IH by (simp add: vr_loop.simps [of r out] Let_def min_def)
    next
      case False
      then show ?thesis
        using pad vr_loop_short_padding [of r xs out] "1.prems" by (simp add: feed_def)
    qed
  next
    case cont
    then show ?thesis
      using "1.IH"(4) "1.prems" by (simp add: vr_loop.simps [of r out])
  next
    case stop
    then show ?thesis
      by (simp add: vr_loop.simps [of r out] feed_def Let_def)
  qed
qed

lemma feed_append: "feed (xs @ ys) ro = feed ys (feed xs ro)"
proof (cases "withinPadding (fst ro)")
  case True
  then show ?thesis
    using feed_loop_append [of "fst ro" "snd ro" xs ys] by (simp add: feed_def [of _ ro])
qed (simp add: feed_def)

lemma vr_loop_prefix:
  "vr_loop r (pre @ out) d = (fst (vr_loop r out d), pre @ snd (vr_loop r out d))"
proof (induction r out d rule: vr_loop.induct)
  case (1 r out d)
  then show ?case
    by (auto simp: vr_loop.simps [of r] Let_def split: prod.splits)
qed

lemma feed_prefix: "feed d (r, pre @ out) = (fst (feed d (r, out)), pre @ snd (feed d (r, out)))"
  by (simp add: feed_def vr_loop_prefix)

lemma feed_out: "feed d (r, out) = (fst (feed d (r, [])), out @ snd (feed d (r, [])))"
  using feed_prefix [of d r out "[]"] by simp

section \<open>A whole session of the reader\<close>

fun reader_run :: "vision_reader \<Rightarrow> (bytes \<times> vision_context option) list \<Rightarrow> bytes list" where
  "reader_run r [] = []"
| "reader_run r ((d, ctx) # ds) =
     (case vr_process d r ctx of (out, r', _) \<Rightarrow> out # reader_run r' ds)"

lemma vr_header_nonneg: "0 \<le> remainingCommand r \<Longrightarrow> 0 \<le> remainingCommand (fst (vr_header r d))"
  by (induction r d rule: vr_header.induct) auto

lemma vr_header_direct [simp]: "vr_directCopy (fst (vr_header r d)) = vr_directCopy r"
  by (induction r d rule: vr_header.induct) (auto simp: vr_header_byte_def Let_def)

definition reader_ok :: "vision_reader \<Rightarrow> bool" where
  "reader_ok r \<longleftrightarrow> 0 \<le> remainingCommand r \<and> (vr_directCopy r \<longrightarrow> \<not> withinPadding r)"

lemma reader_ok_update [simp]:
  "reader_ok (r\<lparr>remainingContent := n\<rparr>) = reader_ok r"
  "reader_ok (r\<lparr>remainingPadding := n\<rparr>) = reader_ok r"
  "0 \<le> n \<Longrightarrow> reader_ok r \<Longrightarrow> reader_ok (r\<lparr>remainingCommand := n\<rparr>)"
  "reader_ok r \<Longrightarrow> reader_ok (r\<lparr>withinPadding := False\<rparr>)"
  "reader_ok r \<Longrightarrow> reader_ok (r\<lparr>withinPadding := False, vr_directCopy := True\<rparr>)"
  by (auto simp: reader_ok_def)

lemma vr_header_ok: "reader_ok r \<Longrightarrow> vr_header r d = (r', rest) \<Longrightarrow> reader_ok r'"
  using vr_header_nonneg [of r d] vr_header_direct [of r d] vr_header_within [of r d]
  by (simp add: reader_ok_def)

lemma vr_loop_ok: "reader_ok r \<Longrightarrow> reader_ok (fst (vr_loop r out d))"
proof (induction r out d rule: vr_loop.induct)
  case (1 r out d)
  then show ?case
    by (auto simp: vr_loop.simps [of r] Let_def dest: vr_header_ok split: prod.splits)
qed

lemma reader_run_raw: "\<not> withinPadding r \<Longrightarrow> concat (reader_run r cs) = concat (map fst cs)"
proof (induction cs arbitrary: r)
  case (Cons c cs)
  then show ?case
    by (cases c) (auto simp: vr_process_def)
qed simp

lemma reader_run_feed:
  "reader_ok r \<Longrightarrow> concat (reader_run r cs) = snd (feed (concat (map fst cs)) (r, []))"
proof (induction cs arbitrary: r)
  case (Cons c cs)
  obtain d ctx where c: "c = (d, ctx)" by fastforce
  show ?case
  proof (cases "withinPadding r \<and> d \<noteq> []")
    case True
    obtain r' out where l: "vr_loop r [] d = (r', out)" by fastforce
    with True Cons.prems have "vr_process d r ctx = (out, r', vr_detect out ctx)"
      by (simp add: vr_process_def reader_ok_def)
    moreover have "reader_ok r'"
      using vr_loop_ok [OF Cons.prems, of "[]" d] l by simp
    moreover have "feed d (r, []) = (r', out)"
      using True l by (simp add: feed_def)
    ultimately show ?thesis
      using Cons.IH [of r'] c feed_out [of "concat (map fst cs)" r' out] by (simp add: feed_append)
  next
    case False
    then show ?thesis
      using Cons.IH [OF Cons.prems] c reader_run_raw [of r "c # cs"]
      by (cases "withinPadding r") (auto simp: feed_def vr_process_def)
  qed
qed simp

section \<open>One frame\<close>

definition at_header :: "vision_reader \<Rightarrow> bool" where
  "at_header r \<longleftrightarrow> withinPadding r \<and> (remainingCommand r = 5 \<or>
     remainingCommand r = 0 \<and> remainingContent r = 0 \<and> remainingPadding r = 0 \<and> currentCommand r = 0)"

definition frame_done :: "int \<Rightarrow> vision_reader \<Rightarrow> vision_reader" where
  "frame_done c r = r\<lparr>remainingCommand := 0, remainingContent := 0, remainingPadding := 0,
     currentCommand := c\<rparr>"

definition frame_header :: "byte \<Rightarrow> int \<Rightarrow> int \<Rightarrow> bytes" where
  "frame_header c n p = [c, word_of_int (drop_bit 8 n), word_of_int n,
     word_of_int (drop_bit 8 p), word_of_int p]"

lemma join_bytes:
  assumes "0 \<le> n" and "n < 65536"
  shows "push_bit 8 (uint (word_of_int (drop_bit 8 n) :: byte)) OR uint (word_of_int n :: byte) = n"
proof -
  have "push_bit 8 (take_bit 8 (drop_bit 8 n)) OR take_bit 8 n = take_bit 16 n"
    by (rule bit_eqI) (auto simp: bit_simps)
  also have "\<dots> = n"
    using assms by (simp add: take_bit_int_eq_self)
  finally show ?thesis
    by (simp add: unsigned_of_int)
qed

lemma vr_header_frame:
  assumes "0 \<le> n" "n < 65536" "0 \<le> p" "p < 65536" and "remainingCommand r = 5"
  shows "vr_header r (frame_header c n p @ rest) =
    (r\<lparr>remainingCommand := 0, remainingContent := n, remainingPadding := p, currentCommand := uint c\<rparr>, rest)"
  using assms join_bytes [OF assms(1,2)] join_bytes [OF assms(3,4)]
  by (simp add: frame_header_def vr_header_byte_def vr_header_stop)

lemma vr_loop_continue:
  assumes "d \<noteq> []" and "remainingCommand r = 0" and "remainingContent r = 0"
    and "remainingPadding r = 0" and "currentCommand r = 0"
  shows "vr_loop r out d = vr_loop (r\<lparr>remainingCommand := 5\<rparr>) out d"
  by (subst vr_loop.simps) (use assms in \<open>simp add: vision_consts\<close>)

lemma vr_loop_frame:
  assumes "at_header r" and "length content < 65536" and "length pad < 65536" and "content \<noteq> []"
  shows "vr_loop r out (frame_header c (int (length content)) (int (length pad)) @ content @ pad) =
    (frame_done (uint c) r, out @ content)"
proof -
  let ?h = "frame_header c (int (length content)) (int (length pad))"
  let ?r5 = "r\<lparr>remainingCommand := 5\<rparr>"
  let ?r0 = "r\<lparr>remainingCommand := 0, remainingContent := int (length content),
      remainingPadding := int (length pad), currentCommand := uint c\<rparr>"
  let ?r1 = "r\<lparr>remainingCommand := 0, remainingContent := 0,
      remainingPadding := int (length pad), currentCommand := uint c\<rparr>"
  have "vr_loop r out (?h @ content @ pad) = vr_loop ?r5 out (?h @ content @ pad)"
  proof (cases "remainingCommand r = 5")
    case True
    then have "?r5 = r" by simp
    then show ?thesis by simp
  next
    case False
    with assms(1) show ?thesis
      by (intro vr_loop_continue) (auto simp: at_header_def frame_header_def)
  qed
  also have "\<dots> = vr_loop ?r0 out (content @ pad)"
    using vr_header_frame [of "int (length content)" "int (length pad)" ?r5 c "content @ pad"] assms
    by (subst vr_loop_via_header) simp
  also have "\<dots> = vr_loop (?r0\<lparr>remainingContent := 0\<rparr>) (out @ content) pad"
    using assms(4) by (simp add: vr_loop.simps [of ?r0] Let_def)
  also have "?r0\<lparr>remainingContent := 0\<rparr> = ?r1"
    by (cases r) simp
  also have "vr_loop ?r1 (out @ content) pad = (frame_done (uint c) r, out @ content)"
    by (subst vr_loop.simps) (simp add: vr_loop.simps [of _ _ "[]"] frame_done_def Let_def)
  finally show ?thesis .
qed

section \<open>The writer\<close>

lemma padding_len_bounds: "0 \<le> padding_len draw lp written n" "padding_len draw lp written n \<le> 8187"
  by (auto simp: padding_len_def vision_consts Let_def)

text \<open>Every frame the writer builds.\<close>

lemma vw_padding_frame:
  obtains pad where "fst (vw_padding uni data cmd lp w) =
      (if uuidWritten w then [] else vw_uuid w) @
      frame_header cmd (int (length data)) (int (length pad)) @ data @ pad"
    and "int (length pad) = padding_len (padding_draw uni (vw_draws w) lp (length data)) lp
      (uuidWritten w) (length data)"
proof -
  let ?p = "padding_len (padding_draw uni (vw_draws w) lp (length data)) lp (uuidWritten w) (length data)"
  let ?pad = "map (\<lambda>i. of_nat (uni (vw_draws w + 1 + i) 255) :: byte) [0..<nat ?p]"
  have len: "int (length ?pad) = ?p"
    using padding_len_bounds(1) by simp
  show thesis
    by (rule that [of ?pad]) (use len in \<open>simp_all add: vw_padding_def Let_def frame_header_def del: map_map\<close>)
qed

lemma vw_padding_state [simp]:
  "vw_uuid (snd (vw_padding uni data cmd lp w)) = vw_uuid w"
  "uuidWritten (snd (vw_padding uni data cmd lp w))"
  "isPadding (snd (vw_padding uni data cmd lp w)) = isPadding w"
  "vw_directCopy (snd (vw_padding uni data cmd lp w)) = vw_directCopy w"
  by (simp_all add: vw_padding_def Let_def)

definition writer_ok :: "vision_writer \<Rightarrow> bool" where
  "writer_ok w \<longleftrightarrow> (vw_directCopy w \<longrightarrow> \<not> isPadding w)"

text \<open>The writer either passes raw data through or emits one frame; only a CONTINUE frame
  keeps it padding.\<close>

lemma vw_process_raw:
  assumes "\<not> isPadding w" and "vw_process uni d w ctx = (f, w', ctx')"
  shows "f = d \<and> \<not> isPadding w' \<and> uuidWritten w' = uuidWritten w \<and> vw_uuid w' = vw_uuid w"
  using assms by (auto simp: vw_process_def Let_def split: if_splits)

lemma vw_process_frame:
  assumes "d \<noteq> []" and "isPadding w" and "writer_ok w" and run: "vw_process uni d w ctx = (f, w', ctx')"
  obtains cmd pad where
    "f = (if uuidWritten w then [] else vw_uuid w) @
      frame_header cmd (int (length d)) (int (length pad)) @ d @ pad"
    and "length pad \<le> 8187" and "isPadding w' \<longleftrightarrow> cmd = 0"
    and "uuidWritten w'" and "vw_uuid w' = vw_uuid w" and "writer_ok w'"
proof -
  have "(\<exists>lp. vw_padding uni d VISION_CMD_CONTINUE lp w = (f, w')) \<or>
    (\<exists>lp. vw_padding uni d VISION_CMD_END lp (w\<lparr>isPadding := False\<rparr>) = (f, w')) \<or>
    (\<exists>lp. vw_padding uni d VISION_CMD_DIRECT lp (w\<lparr>vw_directCopy := True, isPadding := False\<rparr>) = (f, w'))"
    using run assms(1-3)
    by (auto simp: vw_process_def Let_def writer_ok_def split: if_splits prod.splits)
  then obtain cmd lp w0 where "vw_padding uni d cmd lp w0 = (f, w')"
    and w0: "uuidWritten w0 = uuidWritten w \<and> vw_uuid w0 = vw_uuid w \<and> writer_ok w0 \<and>
      (isPadding w0 \<longleftrightarrow> cmd = 0)"
    using assms(2,3)
    by (elim disjE exE) (force simp: writer_ok_def vision_consts intro: that)+
  then have f: "f = fst (vw_padding uni d cmd lp w0)" and w': "w' = snd (vw_padding uni d cmd lp w0)"
    by simp_all
  show thesis
  proof (rule vw_padding_frame [of uni d cmd lp w0])
    fix pad assume frame: "fst (vw_padding uni d cmd lp w0) = (if uuidWritten w0 then [] else vw_uuid w0) @
        frame_header cmd (int (length d)) (int (length pad)) @ d @ pad"
      and "int (length pad) = padding_len (padding_draw uni (vw_draws w0) lp (length d)) lp (uuidWritten w0) (length d)"
    then have "length pad \<le> 8187"
      using padding_len_bounds(2) [of "padding_draw uni (vw_draws w0) lp (length d)" lp "uuidWritten w0" "length d"]
      by simp
    with frame show thesis
      using f w' w0 by (intro that [of cmd pad]) (auto simp: writer_ok_def)
  qed
qed

section \<open>End to end\<close>

fun writer_run ::
    "(nat \<Rightarrow> nat \<Rightarrow> nat) \<Rightarrow> vision_writer \<Rightarrow> (bytes \<times> vision_context option) list \<Rightarrow> bytes list" where
  "writer_run uni w [] = []"
| "writer_run uni w ((d, ctx) # ds) =
     (case vw_process uni d w ctx of (f, w', _) \<Rightarrow> f # writer_run uni w' ds)"

text \<open>The reader after the writer's output so far.\<close>

definition in_sync :: "vision_writer \<Rightarrow> vision_reader \<Rightarrow> bool" where
  "in_sync w r \<longleftrightarrow> uuidWritten w \<and> writer_ok w \<and>
     (if isPadding w then at_header r
      else \<not> withinPadding r \<or> remainingCommand r = 0 \<and> remainingContent r = 0 \<and>
        remainingPadding r = 0 \<and> currentCommand r \<noteq> 0)"

lemma sync_raw:
  assumes "in_sync w r" and "\<not> isPadding w" and "d \<noteq> []"
  shows "snd (feed d (r, out)) = out @ d \<and> \<not> withinPadding (fst (feed d (r, out)))"
  using assms by (auto simp: in_sync_def feed_def vision_consts vr_loop.simps [of r] Let_def)

lemma sync_frame:
  assumes "in_sync w r" and "isPadding w" and "d \<noteq> []" and "length d < 65536"
    and run: "vw_process uni d w ctx = (f, w', ctx')"
  shows "\<exists>r'. feed f (r, out) = (r', out @ d) \<and> in_sync w' r'"
proof -
  from assms have ok: "writer_ok w" and r: "at_header r" and uw: "uuidWritten w"
    by (auto simp: in_sync_def)
  obtain cmd pad where f: "f = frame_header cmd (int (length d)) (int (length pad)) @ d @ pad"
    and pad: "length pad \<le> 8187" and w': "isPadding w' \<longleftrightarrow> cmd = 0" "uuidWritten w'" "writer_ok w'"
    by (rule vw_process_frame [OF assms(3,2) ok run]) (use uw in simp)
  have "feed f (r, out) = (frame_done (uint cmd) r, out @ d)"
    using r assms pad unfolding f by (simp add: feed_def at_header_def vr_loop_frame [OF r])
  moreover have "in_sync w' (frame_done (uint cmd) r)"
    using r w' by (auto simp: in_sync_def at_header_def frame_done_def uint_0_iff)
  ultimately show ?thesis by blast
qed

lemma sync_run:
  assumes "in_sync w r" and "\<forall>(d, ctx) \<in> set ds. d \<noteq> [] \<and> length d < 65536"
  shows "snd (feed (concat (writer_run uni w ds)) (r, out)) = out @ concat (map fst ds)"
  using assms
proof (induction ds arbitrary: w r out)
  case (Cons x ds)
  obtain d ctx where x: "x = (d, ctx)" by fastforce
  obtain f w' ctx' where run: "vw_process uni d w ctx = (f, w', ctx')" by (metis prod_cases3)
  show ?case
  proof (cases "isPadding w")
    case True
    with sync_frame [OF Cons.prems(1) True _ _ run, of out] Cons.prems(2) x
    obtain r' where "feed f (r, out) = (r', out @ d)" "in_sync w' r'" by auto
    with Cons.IH [of w' r' "out @ d"] Cons.prems(2) x run show ?thesis
      by (simp add: feed_append)
  next
    case False
    have f: "f = d" "\<not> isPadding w'" "uuidWritten w'"
      using vw_process_raw [OF False run] Cons.prems(1) by (auto simp: in_sync_def)
    have raw: "snd (feed d (r, out)) = out @ d \<and> \<not> withinPadding (fst (feed d (r, out)))"
      using sync_raw [OF Cons.prems(1) False] Cons.prems(2) x by auto
    then have "in_sync w' (fst (feed d (r, out)))"
      using f by (simp add: in_sync_def writer_ok_def)
    from Cons.IH [OF this, of "out @ d"] Cons.prems(2) x run f raw show ?thesis
      by (cases "feed d (r, out)") (simp add: feed_append)
  qed
qed simp

lemma writer_run_start:
  assumes "length uuid = 16" and "ds \<noteq> []" and "\<forall>(d, ctx) \<in> set ds. d \<noteq> [] \<and> length d < 65536"
    and "at_header r"
  shows "\<exists>rest. concat (writer_run uni (vision_writer_init uuid) ds) = uuid @ rest \<and>
    snd (feed rest (r, out)) = out @ concat (map fst ds)"
proof -
  obtain d ctx ds' where ds: "ds = (d, ctx) # ds'"
    using assms(2) by (cases ds) auto
  with assms(3) have d: "d \<noteq> []" "length d < 65536" by auto
  obtain f w' ctx' where run: "vw_process uni d (vision_writer_init uuid) ctx = (f, w', ctx')"
    by (metis prod_cases3)
  obtain cmd pad where f: "f = uuid @ frame_header cmd (int (length d)) (int (length pad)) @ d @ pad"
    and pad: "length pad \<le> 8187" and w': "isPadding w' \<longleftrightarrow> cmd = 0" "uuidWritten w'" "writer_ok w'"
    by (rule vw_process_frame [OF d(1) _ _ run]) (auto simp: vision_writer_init_def writer_ok_def)
  let ?g = "frame_header cmd (int (length d)) (int (length pad)) @ d @ pad"
  have "feed ?g (r, out) = (frame_done (uint cmd) r, out @ d)"
    using assms(4) d pad by (simp add: feed_def at_header_def vr_loop_frame [OF assms(4)])
  moreover have "in_sync w' (frame_done (uint cmd) r)"
    using assms(4) w' by (auto simp: in_sync_def at_header_def frame_done_def uint_0_iff)
  ultimately have "snd (feed (?g @ concat (writer_run uni w' ds')) (r, out)) = out @ concat (map fst ds)"
    using sync_run [of w' "frame_done (uint cmd) r" ds' uni "out @ d"] assms(3) ds
    by (simp add: feed_append)
  then show ?thesis
    using ds run f by (intro exI [of _ "?g @ concat (writer_run uni w' ds')"]) simp
qed

lemma reader_undoes_writer:
  assumes "length uuid = 16" and "ds \<noteq> []" and "\<forall>(d, ctx) \<in> set ds. d \<noteq> [] \<and> length d < 65536"
    and "concat (map fst cs) = concat (writer_run uni (vision_writer_init uuid) ds)"
    and "cs \<noteq> []" and "length (fst (hd cs)) \<ge> 21"
  shows "concat (reader_run (vision_reader_init uuid) cs) = concat (map fst ds)"
proof -
  obtain c ctx cs' where cs: "cs = (c, ctx) # cs'"
    using assms(5) by (cases cs) auto
  let ?r = "(vision_reader_init uuid)\<lparr>remainingCommand := 5\<rparr>"
  have header: "at_header ?r"
    by (simp add: at_header_def vision_reader_init_def)
  obtain rest where all: "c @ concat (map fst cs') = uuid @ rest"
    and unpad: "snd (feed rest (?r, [])) = concat (map fst ds)"
    using writer_run_start [OF assms(1-3) header, of uni "[]"] assms(4) cs by auto
  have c: "take 16 c = uuid" "length c \<ge> 21"
    using all assms(1,6) cs append_eq_append_conv_if [of c _ uuid rest] by auto
  then have rest: "rest = drop 16 c @ concat (map fst cs')"
    using all assms(1) by (metis append_eq_conv_conj append_take_drop_id append_assoc)
  obtain r' out where l: "vr_loop ?r [] (drop 16 c) = (r', out)" by fastforce
  have ok: "reader_ok r'"
    using vr_loop_ok [of ?r "[]" "drop 16 c"] l by (simp add: reader_ok_def vision_reader_init_def)
  have "c \<noteq> []"
    using c by auto
  then have "vr_process c (vision_reader_init uuid) ctx = (out, r', vr_detect out ctx)"
    using c l by (simp add: vr_process_def vision_reader_init_def vision_consts)
  then have "concat (reader_run (vision_reader_init uuid) cs) =
      out @ snd (feed (concat (map fst cs')) (r', []))"
    using cs reader_run_feed [OF ok] by simp
  also have "\<dots> = snd (feed (concat (map fst cs')) (r', out))"
    using feed_out [of _ r' out] by simp
  also have "\<dots> = snd (feed rest (?r, []))"
    using l by (simp add: rest feed_append) (simp add: feed_def vision_reader_init_def)
  finally show ?thesis
    using unpad by simp
qed


definition sample_uuid :: bytes where
  "sample_uuid = [0, 1, 2, 3, 4, 5, 6, 7, 8, 9, 10, 11, 12, 13, 14, 15]"

definition sample_writes :: "(bytes \<times> vision_context option) list" where
  "sample_writes = [([1, 2, 3], None), ([4, 5],
     Some (vision_context_init\<lparr>packetsToFilter := 1\<rparr>)), ([6], None)]"

definition sample_uni :: "nat \<Rightarrow> nat \<Rightarrow> nat" where
  "sample_uni k m = (if m = 255 then 7 else 2)"

definition sample_wire :: bytes where
  "sample_wire = concat (writer_run sample_uni (vision_writer_init sample_uuid) sample_writes)"

lemma length_sample_uuid [simp]: "length sample_uuid = 16"
  by (simp add: sample_uuid_def)

lemma sample_wire_eq: "sample_wire =
    sample_uuid @ [0, 0, 3, 0, 2, 1, 2, 3, 7, 7] @ [1, 0, 2, 0, 2, 4, 5, 7, 7] @ [6]"
  by code_simp

definition sample_cut :: "(bytes \<times> vision_context option) list" where
  "sample_cut = [(take 22 sample_wire, None), (take 2 (drop 22 sample_wire), None),
     (drop 24 sample_wire, None)]"


section \<open>Frame sizes, the end of padding, the unframed start\<close>

text \<open>C18: Every frame of the writer carries the data after a 5- or 21-byte header, its padding is
at most 8187 bytes, and the whole frame is within the 8192-byte limit or, when header and data
alone exceed that, has no padding at all.\<close>

theorem vision_frame_bounds:
  assumes "vw_padding uni data cmd lp w = (f, w')" and "length (vw_uuid w) = 16"
  shows "let header = (if uuidWritten w then 5 else 21) in
    \<exists>pad. length f = header + length data + length pad \<and>
      drop header f = data @ pad \<and> length pad \<le> 8187 \<and>
      (length f \<le> 8192 \<or> pad = [])"
proof (rule vw_padding_frame [of uni data cmd lp w])
  fix pad
  assume f: "fst (vw_padding uni data cmd lp w) = (if uuidWritten w then [] else vw_uuid w) @
      frame_header cmd (int (length data)) (int (length pad)) @ data @ pad"
    and pad: "int (length pad) = padding_len (padding_draw uni (vw_draws w) lp (length data)) lp
      (uuidWritten w) (length data)"
  have "length pad \<le> 8187"
    using padding_len_bounds(2) [of "padding_draw uni (vw_draws w) lp (length data)" lp "uuidWritten w" "length data"]
    by (simp flip: pad)
  moreover have "int (length pad) \<le> max (8192 - (if uuidWritten w then 5 else 21) - int (length data)) 0"
    unfolding pad by (auto simp: padding_len_def vision_consts Let_def)
  then have "pad = [] \<or> (if uuidWritten w then 5 else 21) + length data + length pad \<le> 8192"
    by (cases pad) (auto simp: max_def split: if_splits)
  ultimately show ?thesis
    using f assms by (intro exI [of _ pad] Let_def [THEN meta_eq_to_obj_eq, THEN iffD2]) (auto simp: frame_header_def)
qed

lemma vision_frame_bounds_witness:
  "let header = (if uuidWritten (vision_writer_init sample_uuid) then 5 else 21) in
    \<exists>pad. length (fst (vw_padding sample_uni [1, 2, 3] 0 True (vision_writer_init sample_uuid))) =
        header + length [1, 2, 3 :: byte] + length pad \<and>
      drop header (fst (vw_padding sample_uni [1, 2, 3] 0 True (vision_writer_init sample_uuid))) =
        [1, 2, 3] @ pad \<and> length pad \<le> 8187 \<and>
      (length (fst (vw_padding sample_uni [1, 2, 3] 0 True (vision_writer_init sample_uuid))) \<le> 8192 \<or>
       pad = [])"
  by (rule vision_frame_bounds [OF surjective_pairing]) (simp add: vision_writer_init_def sample_uuid_def)

text \<open>A complete TLS application-data record.\<close>

definition app_record :: "bytes \<Rightarrow> bytes" where
  "app_record p = [0x17, 0x03, 0x03, of_nat (length p div 256), of_nat (length p mod 256)] @ p"

definition payload_ok :: "bytes \<Rightarrow> bool" where
  "payload_ok p \<longleftrightarrow> p \<noteq> [] \<and> length p < 65536"

lemma nat_or_bytes:
  assumes "l < 256"
  shows "push_bit 8 h OR l = 256 * h + (l :: nat)"
proof -
  have "take_bit 8 l = l"
    using assms by (simp add: take_bit_nat_eq_self)
  then have small: "bit l n \<Longrightarrow> n < 8" for n
    by (metis bit_take_bit_iff)
  have "push_bit 8 h AND l = 0"
    by (intro bit_eqI) (auto simp: bit_simps dest: small)
  then have "push_bit 8 h OR l = push_bit 8 h + l"
    by (simp add: disjunctive_add_eq_or)
  then show ?thesis
    by (simp add: push_bit_eq_mult)
qed

lemma record_len: "push_bit 8 (unat h) OR unat (l :: byte) = 256 * unat h + unat l"
  by (rule nat_or_bytes [OF unat_byte_less])

lemma record_len_less: "256 * unat (h :: byte) + unat (l :: byte) < 65536"
  using unat_byte_less [of h] unat_byte_less [of l] by simp

lemma complete_record_header:
  "complete_record_loop 5 0 (b1 # b2 # b3 # b4 # b5 # rest) \<longleftrightarrow>
     b1 = 0x17 \<and> b2 = 0x03 \<and> b3 = 0x03 \<and>
     complete_record_loop 0 (256 * unat b4 + unat b5) rest"
  by (simp add: complete_record_loop.simps [of 5] complete_record_loop.simps [of 4]
      complete_record_loop.simps [of 3] complete_record_loop.simps [of 2] complete_record_loop.simps [of "Suc 0"]
      record_len)

lemma complete_record_payload:
  "complete_record_loop 0 n data \<longleftrightarrow>
     0 < n \<and> n \<le> length data \<and> data \<noteq> [] \<and> complete_record_loop 5 0 (drop n data)"
  by (auto simp: complete_record_loop.simps [of 0] split: list.splits)

lemma complete_record_short:
  assumes "length data < 5" and "data \<noteq> []"
  shows "\<not> complete_record_loop 5 0 data"
  using assms
  by (cases data; cases "tl data"; cases "tl (tl data)"; cases "tl (tl (tl data))")
    (auto simp: complete_record_loop.simps)

lemma complete_app_record:
  assumes "payload_ok p"
  shows "complete_record_loop 5 0 (app_record p @ rest) = complete_record_loop 5 0 rest"
  using assms
  by (simp add: app_record_def complete_record_header complete_record_payload payload_ok_def
      unat_of_nat less_mult_imp_div_less)

text \<open>C19: \<open>isCompleteRecord\<close> holds exactly for the concatenations of complete TLS
application-data records with non-empty payloads.\<close>

theorem isCompleteRecord_iff:
  "isCompleteRecord data \<longleftrightarrow> (\<exists>ps. list_all payload_ok ps \<and> data = concat (map app_record ps))"
proof
  assume "isCompleteRecord data"
  then have "complete_record_loop 5 0 data"
    by (simp add: isCompleteRecord_def)
  then show "\<exists>ps. list_all payload_ok ps \<and> data = concat (map app_record ps)"
  proof (induction "length data" arbitrary: data rule: less_induct)
    case less
    show ?case
    proof (cases "data = []")
      case True
      then show ?thesis by (intro exI [of _ "[]"]) simp
    next
      case False
      then have "\<not> length data < 5"
        using complete_record_short less.prems by blast
      then obtain b1 b2 b3 b4 b5 rest where data: "data = b1 # b2 # b3 # b4 # b5 # rest"
        by (auto simp: numeral_eq_Suc not_less Suc_le_length_iff)
      let ?n = "256 * unat b4 + unat b5"
      have h: "b1 = 0x17" "b2 = 0x03" "b3 = 0x03" "0 < ?n" "?n \<le> length rest"
        "complete_record_loop 5 0 (drop ?n rest)"
        using less.prems by (simp_all only: data complete_record_header complete_record_payload)
      have p: "payload_ok (take ?n rest)"
        using h record_len_less [of b4 b5] by (auto simp: payload_ok_def)
      have bytes: "?n div 256 = unat b4" "?n mod 256 = unat b5"
        using unat_byte_less [of b5] by simp_all
      have "length (take ?n rest) = ?n"
        using h by simp
      then have "app_record (take ?n rest) = [b1, b2, b3, b4, b5] @ take ?n rest"
        unfolding app_record_def using h bytes by (simp only: of_nat_unat ucast_id)
      then have split: "data = app_record (take ?n rest) @ drop ?n rest"
        by (simp add: data)
      have "length (drop ?n rest) \<le> length rest"
        by simp
      then have shorter: "length (drop ?n rest) < length data"
        unfolding data by (simp only: list.size)
      obtain ps where "list_all payload_ok ps" "drop ?n rest = concat (map app_record ps)"
        using less.hyps [OF shorter h(6)] by auto
      with p split show ?thesis
        by (intro exI [of _ "take ?n rest # ps"]) simp
    qed
  qed
next
  assume "\<exists>ps. list_all payload_ok ps \<and> data = concat (map app_record ps)"
  then obtain ps where "list_all payload_ok ps" "data = concat (map app_record ps)" by blast
  moreover have "list_all payload_ok ps \<Longrightarrow> complete_record_loop 5 0 (concat (map app_record ps))"
    by (induction ps) (simp_all add: complete_app_record complete_record_loop.simps [of _ _ "[]"])
  ultimately show "isCompleteRecord data"
    by (simp add: isCompleteRecord_def)
qed

text \<open>The writer leaves the padding phase with the DIRECT command, and copies everything
after it unpadded and unencoded, only for data that starts with a TLS application-data record, in a
connection whose context says TLS with a TLS 1.3 cipher the direct mode is allowed for.\<close>

theorem vision_direct_only_xtls:
  assumes "\<not> vw_directCopy w" and "isPadding w" and "vw_process uni d w ctx = (f, w', ctx')"
    and "vw_directCopy w'"
  shows "\<exists>c. ctx' = Some c \<and> isTLS c \<and> enableXtls c \<and> isCompleteRecord d \<and>
    take 3 d = [0x17, 0x03, 0x03] \<and> \<not> isPadding w' \<and>
    f ! (if uuidWritten w then 0 else length (vw_uuid w)) = VISION_CMD_DIRECT"
  using assms
  by (auto simp: vw_process_def Let_def vw_padding_def nth_append split: if_splits prod.splits option.splits)

definition xtls_context :: vision_context where
  "xtls_context = vision_context_init\<lparr>packetsToFilter := 0, isTLS := True, isTLS12orAbove := True,
     enableXtls := True, cipher := 0x1301\<rparr>"

lemma vision_direct_only_xtls_witness:
  "fst (vw_process sample_uni [0x17, 0x03, 0x03, 0, 1, 9] (vision_writer_init sample_uuid)
      (Some xtls_context)) ! 16 = VISION_CMD_DIRECT"
proof -
  obtain f w' ctx' where run: "vw_process sample_uni [0x17, 0x03, 0x03, 0, 1, 9]
      (vision_writer_init sample_uuid) (Some xtls_context) = (f, w', ctx')"
    by (metis prod_cases3)
  have "vw_directCopy (fst (snd (vw_process sample_uni [0x17, 0x03, 0x03, 0, 1, 9]
      (vision_writer_init sample_uuid) (Some xtls_context))))"
    by code_simp
  with run have "vw_directCopy w'" by simp
  from vision_direct_only_xtls [OF _ _ run this] show ?thesis
    using run by (simp add: vision_writer_init_def) blast
qed

text \<open>A first receive of fewer than 21 bytes is taken for unpadded data even when it is the
beginning of a valid frame: it goes to the target as it is, UUID and all, and so does everything
after it.\<close>

theorem vision_short_start_raw:
  assumes "d \<noteq> []" and "length d < 21"
  shows "concat (reader_run (vision_reader_init uuid) ((d, ctx) # cs)) = d @ concat (map fst cs)"
proof -
  have "concat (reader_run r cs) = concat (map fst cs)" if "vr_directCopy r" for r
    using that by (induction cs) (auto simp: vr_process_def)
  then show ?thesis
    using assms by (simp add: vr_process_def vision_reader_init_def vision_consts)
qed

lemma vision_short_start_raw_witness:
  "concat (reader_run (vision_reader_init sample_uuid)
      [(take 20 sample_wire, None), (drop 20 sample_wire, None)]) = sample_wire"
  using vision_short_start_raw [of "take 20 sample_wire" sample_uuid None "[(drop 20 sample_wire, None)]"]
  by (simp add: sample_wire_eq sample_uuid_def)

end
