(* ===== verification/Udp_Relay_Props.thy ===== *)
theory Udp_Relay_Props
  imports Udp_Relay
begin

text \<open>
  The UDP relay loops against the specification \<open>deframe\<close>: each packet of the client's
  byte stream becomes one datagram to the target, however the stream is cut into receives, and
  each datagram of the target becomes one packet; the session keys of the client are injective;
  the client's return path keeps only the packets complete within one receive.
\<close>

section \<open>Client to target\<close>

definition nonempty :: "bytes list \<Rightarrow> bytes list" where
  "nonempty ps = filter (\<lambda>p. p \<noteq> []) ps"

definition whole :: "bytes list \<Rightarrow> int list" where
  "whole ps = map (\<lambda>p. int (length p)) (nonempty ps)"

lemma nonempty_simps [simp]:
  "nonempty [] = []" "nonempty (p # ps) = (if p = [] then nonempty ps else p # nonempty ps)"
  "nonempty (ps @ qs) = nonempty ps @ nonempty qs"
  "whole [] = []" "whole (p # ps) = (if p = [] then whole ps else int (length p) # whole ps)"
  "whole (ps @ qs) = whole ps @ whole qs"
  by (simp_all add: nonempty_def whole_def)

lemma drop_two:
  "length xs - i \<ge> 2 \<Longrightarrow> drop i xs = xs ! i # xs ! (i + 1) # drop (i + 2) xs"
  by (simp add: Cons_nth_drop_Suc)

lemma udp_forward_stop:
  assumes "fst (deframe (drop offset pending)) = []"
  shows "udp_forward tgt pending offset w = Some (Inr (True, offset), w)"
proof (cases "length pending - offset \<ge> 2")
  case True
  have "length pending - offset = 2 + length (drop (offset + 2) pending)"
    using True by simp
  moreover have "length (drop (offset + 2) pending) < unat (be16 (pending ! offset) (pending ! (offset + 1)))"
    using assms drop_two [OF True] by (cases "drop offset pending" rule: deframe_cases) (auto simp: deframe_more)
  ultimately show ?thesis
    by (simp add: udp_forward.simps [of _ pending offset] Let_def del: length_drop)
qed (simp add: udp_forward.simps [of _ pending offset])

text \<open>One packet of the loop: it is sent, unless it is empty, and the loop goes on behind it.\<close>

lemma udp_forward_packet:
  assumes "drop offset pending = h # l # rest" and "n = unat (be16 h l)" and "n \<le> length rest"
    and "tx w fd = whole (take n rest # fs) @ rs"
  obtains w1 where "udp_forward (async_stream fd) pending offset w =
      udp_forward (async_stream fd) pending (offset + (2 + n)) w1"
    and "sends w1 fd = sends w fd @ nonempty [take n rest]" and "rx w1 = rx w" and "tx w1 fd = whole fs @ rs"
proof -
  have two: "length pending - offset = 2 + length rest"
    using arg_cong [OF assms(1), of length] by simp
  then have eqs: "pending ! offset = h" "pending ! (Suc offset) = l" "drop (offset + 2) pending = rest"
    using drop_two [of pending offset] assms(1) by simp_all
  note n = assms(2) [symmetric]
  show thesis
  proof (cases "n = 0")
    case True
    then show thesis
      using that [of w] assms(4) two eqs
      by (simp add: udp_forward.simps [of _ pending offset] Let_def n)
  next
    case False
    let ?w1 = "w\<lparr>tx := (tx w)(fd := whole fs @ rs), sent := (sent w)(fd := sent w fd @ take n rest),
      sends := (sends w)(fd := sends w fd @ [take n rest])\<rparr>"
    have ne: "take n rest \<noteq> []" and ln: "length (take n rest) = n"
      using False assms(3) by auto
    have "tx w fd = int (length (take n rest)) # whole fs @ rs"
      using assms(4) ne by simp
    from writeFull_whole [OF this ne]
    have "async_writeFull fd (take n rest) w = Some (Inr (int n), ?w1)"
      by (simp only: ln)
    then have "udp_forward (async_stream fd) pending offset w = udp_forward (async_stream fd) pending (offset + (2 + n)) ?w1"
      using False two eqs assms(3)
      by (simp add: udp_forward.simps [of _ pending offset] Let_def co_bind_def n)
    then show thesis
      using ne by (intro that [of ?w1]) simp_all
  qed
qed

lemma udp_forward_net:
  assumes "offset \<le> length pending" and "tx w fd = whole (fst (deframe (drop offset pending))) @ rs"
  shows "\<exists>w'. udp_forward (async_stream fd) pending offset w =
      Some (Inr (True, length pending - length (snd (deframe (drop offset pending)))), w') \<and>
    sends w' fd = sends w fd @ nonempty (fst (deframe (drop offset pending))) \<and>
    tx w' fd = rs \<and> rx w' = rx w"
  using assms
proof (induction "length pending - offset" arbitrary: offset w rule: less_induct)
  case less
  let ?bs = "drop offset pending"
  note head = drop_two [of pending offset]
  show ?case
  proof (cases ?bs rule: deframe_cases)
    case stop
    then have "udp_forward (async_stream fd) pending offset w = Some (Inr (True, offset), w)"
      by (intro udp_forward_stop) simp
    then show ?thesis
      using stop(1) less.prems by simp
  next
    case (more h l rest)
    have two: "length pending - offset = 2 + length rest"
      using arg_cong [OF more(1), of length] by simp
    have nth: "drop (offset + 2) pending = rest"
      using head two more(1) by simp
    define n where "n = unat (be16 h l)"
    let ?off = "offset + (2 + n)"
    have nxt: "drop ?off pending = drop n rest"
      using nth by (metis add.assoc add.commute drop_drop)
    have d: "deframe ?bs = (take n rest # fst (deframe (drop ?off pending)), snd (deframe (drop ?off pending)))"
      using more nxt by (simp add: deframe_more n_def)
    have len: "n \<le> length rest"
      using more(2) by (simp add: n_def)
    obtain w1 where step: "udp_forward (async_stream fd) pending offset w =
        udp_forward (async_stream fd) pending ?off w1"
      and w1: "sends w1 fd = sends w fd @ nonempty [take n rest]" "rx w1 = rx w"
        "tx w1 fd = whole (fst (deframe (drop ?off pending))) @ rs"
      using udp_forward_packet [OF more(1) n_def len, of w fd "fst (deframe (drop ?off pending))" rs] less.prems(2) d by auto
    have "length pending - ?off < length pending - offset" and "?off \<le> length pending"
      using two len by linarith+
    from less.hyps [OF this w1(3)] obtain w' where
      "udp_forward (async_stream fd) pending ?off w1 =
        Some (Inr (True, length pending - length (snd (deframe (drop ?off pending)))), w')"
      "sends w' fd = sends w1 fd @ nonempty (fst (deframe (drop ?off pending)))"
      "tx w' fd = rs" "rx w' = rx w1"
      by blast
    with step d w1 show ?thesis
      by auto
  qed
qed

lemma relay_flush:
  assumes "tx w tfd = whole (fst (deframe pending)) @ rs"
  shows "\<exists>w'. relayUdpClientToTarget (async_stream tfd) cl (\<lambda>_. False) pending w =
      relayUdpClientToTarget (async_stream tfd) cl (\<lambda>_. False) (snd (deframe pending)) w' \<and>
    sends w' tfd = sends w tfd @ nonempty (fst (deframe pending)) \<and> tx w' tfd = rs \<and> rx w' = rx w"
proof (cases "fst (deframe pending) = []")
  case True
  then have "snd (deframe pending) = pending"
    by (cases pending rule: deframe_cases) (simp_all add: deframe_more)
  with True assms show ?thesis by auto
next
  case False
  then have "length (snd (deframe pending)) < length pending"
  proof (cases pending rule: deframe_cases)
    case (more h l rest)
    then show ?thesis
      using conjunct1 [OF deframe_suffix [of "drop (unat (be16 h l)) rest"]]
      by (simp add: deframe_more)
  qed simp
  moreover obtain w' where "udp_forward (async_stream tfd) pending 0 w =
      Some (Inr (True, length pending - length (snd (deframe pending))), w')"
    "sends w' tfd = sends w tfd @ nonempty (fst (deframe pending))" "tx w' tfd = rs" "rx w' = rx w"
    using udp_forward_net [of 0 pending w tfd rs] assms by auto
  ultimately show ?thesis
    using deframe_suffix [of pending]
    by (intro exI [of _ w']) (simp add: relayUdpClientToTarget.simps [of _ _ _ pending w] co_bind_def)
qed

lemma relay_wait:
  assumes "deframe q = ([], q)"
  shows "relayUdpClientToTarget (async_stream tfd) (async_stream cfd) (\<lambda>_. False) q w =
    co_bind (async_recv cfd 8192) (\<lambda>rr s.
      if rr_eof rr then Some (Inr True, s)
      else if rr_error rr then Some (Inr False, s)
      else relayUdpClientToTarget (async_stream tfd) (async_stream cfd) (\<lambda>_. False) (q @ rr_data rr) s) w"
proof -
  have "udp_forward (async_stream tfd) q 0 w = Some (Inr (True, 0), w)"
    using assms by (intro udp_forward_stop) simp
  then show ?thesis
    by (simp add: relayUdpClientToTarget.simps [of _ _ _ q w] co_bind_def)
qed

text \<open>C21: The server turns the client's stream into datagrams exactly along the length prefixes,
in order, each with its own send, whatever the segmentation into receives and whatever came with
the handshake; empty packets and a final partial packet send nothing; it ends on EOF (true) or a
read error (false).\<close>

theorem udp_uplink_datagrams:
  assumes "rx w cfd = map (\<lambda>c. (int (length c), c)) cs @ (res, buf) # later" and "res \<le> 0"
    and "[] \<notin> set cs" and "tx w tfd = whole (fst (deframe (pending @ concat cs))) @ rs"
  shows "\<exists>w'. relayUdpClientToTarget (async_stream tfd) (async_stream cfd) (\<lambda>_. False) pending w =
      Some (Inr (res = 0), w') \<and>
    sends w' tfd = sends w tfd @ nonempty (fst (deframe (pending @ concat cs))) \<and> rx w' cfd = later"
  using assms
proof (induction cs arbitrary: pending w)
  case Nil
  obtain w1 where w1: "relayUdpClientToTarget (async_stream tfd) (async_stream cfd) (\<lambda>_. False) pending w =
      relayUdpClientToTarget (async_stream tfd) (async_stream cfd) (\<lambda>_. False) (snd (deframe pending)) w1"
    "sends w1 tfd = sends w tfd @ nonempty (fst (deframe pending))" "rx w1 = rx w"
    using relay_flush [of w tfd pending rs "async_stream cfd"] Nil.prems by auto
  with Nil.prems show ?case
    by (auto simp: relay_wait [OF deframe_rest] async_recv_def co_bind_def rr_defs)
next
  case (Cons c cs)
  then have c: "c \<noteq> []" by auto
  have split: "fst (deframe (pending @ c @ concat cs)) =
      fst (deframe pending) @ fst (deframe ((snd (deframe pending) @ c) @ concat cs))"
    by (simp add: deframe_append [of pending "c @ concat cs"])
  obtain w1 where w1: "relayUdpClientToTarget (async_stream tfd) (async_stream cfd) (\<lambda>_. False) pending w =
      relayUdpClientToTarget (async_stream tfd) (async_stream cfd) (\<lambda>_. False) (snd (deframe pending)) w1"
    "sends w1 tfd = sends w tfd @ nonempty (fst (deframe pending))" "rx w1 = rx w"
    "tx w1 tfd = whole (fst (deframe ((snd (deframe pending) @ c) @ concat cs))) @ rs"
    using relay_flush [of w tfd pending
        "whole (fst (deframe ((snd (deframe pending) @ c) @ concat cs))) @ rs" "async_stream cfd"]
      Cons.prems(4) split by auto
  let ?w2 = "w1\<lparr>rx := (rx w1)(cfd := map (\<lambda>c. (int (length c), c)) cs @ (res, buf) # later)\<rparr>"
  have "relayUdpClientToTarget (async_stream tfd) (async_stream cfd) (\<lambda>_. False) (snd (deframe pending)) w1 =
      relayUdpClientToTarget (async_stream tfd) (async_stream cfd) (\<lambda>_. False) (snd (deframe pending) @ c) ?w2"
    using Cons.prems(1) w1(3) c
    by (simp add: relay_wait [OF deframe_rest] async_recv_def co_bind_def rr_defs recv_complete_def)
  with Cons.IH [of ?w2 "snd (deframe pending) @ c"] Cons.prems w1 split show ?case
    by auto
qed

lemma udp_uplink_datagrams_witness:
  "\<exists>w'. relayUdpClientToTarget (async_stream 5) (async_stream 4) (\<lambda>_. False) [0]
      (net0\<lparr>rx := (\<lambda>_. [(2, [2, 7]), (5, [8, 0, 0, 0, 1]), (1, [9]), (0, [])]), tx := (\<lambda>_. [2, 1])\<rparr>) =
      Some (Inr True, w') \<and> sends w' 5 = [[7, 8], [9]] \<and> rx w' 4 = []"
proof -
  have "deframe [0, 2, 7, 8, 0, 0, 0, 1, 9] = ([[7, 8], [], [9]], [])"
    by code_simp
  then show ?thesis
    using udp_uplink_datagrams [of "net0\<lparr>rx := (\<lambda>_. [(2, [2, 7]), (5, [8, 0, 0, 0, 1]), (1, [9]), (0, [])]),
        tx := (\<lambda>_. [2, 1])\<rparr>" 4 "[[2, 7], [8, 0, 0, 0, 1], [9]]" 0 "[]" "[]" 5 "[0]" "[]"]
    by (simp add: net0_def)
qed

section \<open>Target to client\<close>

lemma deframe_frames:
  "list_all (\<lambda>p. length p < 65536) ps \<Longrightarrow>
     deframe (concat (map udp_frame ps) @ q) = (ps @ fst (deframe q), snd (deframe q))"
  by (induction ps) (simp_all add: deframe_frame)

lemma length_udp_frame [simp]: "length (udp_frame p) = 2 + length p"
  by (simp add: udp_frame_def Let_def)

lemma relay_downlink:
  assumes "rx w tfd = map (\<lambda>p. (int (length p), p)) ps @ (res, buf) # later" and "res \<le> 0"
    and "list_all (\<lambda>p. p \<noteq> [] \<and> length p < 65536) ps"
    and "accept_all (map udp_frame ps) (tx w cfd) = Some rest"
  shows "\<exists>w'. relayUdpTargetToClient (async_stream tfd) (async_stream cfd) (\<lambda>_. False) w =
      Some (Inr (), w') \<and> sent w' cfd = sent w cfd @ concat (map udp_frame ps) \<and> rx w' tfd = later"
  using assms
proof (induction ps arbitrary: w)
  case Nil
  then show ?case
    by (simp add: relayUdpTargetToClient.simps [of _ _ _ w] async_recv_def co_bind_def rr_defs)
next
  case (Cons p ps)
  then obtain rs where acc: "accept (length (udp_frame p)) (tx w cfd) = Some rs"
    "accept_all (map udp_frame ps) rs = Some rest" and p: "p \<noteq> []" "length p < 65536"
    by (auto split: option.splits)
  let ?w = "w\<lparr>rx := (rx w)(tfd := map (\<lambda>p. (int (length p), p)) ps @ (res, buf) # later)\<rparr>"
  from writeFull_accept [of "udp_frame p" ?w cfd rs] acc obtain w' where w':
    "async_writeFull cfd (udp_frame p) ?w = Some (Inr (int (length (udp_frame p))), w')"
    "sent w' cfd = sent w cfd @ udp_frame p" "tx w' cfd = rs" "rx w' = rx ?w"
    by auto
  have "relayUdpTargetToClient (async_stream tfd) (async_stream cfd) (\<lambda>_. False) w =
      relayUdpTargetToClient (async_stream tfd) (async_stream cfd) (\<lambda>_. False) w'"
    using Cons.prems(1) p w'(1)
    by (simp add: relayUdpTargetToClient.simps [of _ _ _ w] async_recv_def recv_complete_def co_bind_def rr_defs)
  with Cons.IH [of w'] Cons.prems w' acc show ?case
    by auto
qed



text \<open>An empty datagram of the target, which a receive reports as zero bytes, ends the
downlink relay: the datagrams behind it are never read.\<close>

theorem udp_downlink_empty_datagram_ends:
  assumes "rx w tfd = (0, buf) # later"
  shows "\<exists>w'. relayUdpTargetToClient (async_stream tfd) client (\<lambda>_. False) w = Some (Inr (), w') \<and>
    rx w' tfd = later \<and> sent w' = sent w"
  using assms
  by (simp add: relayUdpTargetToClient.simps [of _ _ _ w] async_recv_def co_bind_def rr_defs)

lemma udp_downlink_empty_datagram_ends_witness:
  "\<exists>w'. relayUdpTargetToClient (async_stream 5) (async_stream 4) (\<lambda>_. False)
      (net0\<lparr>rx := (\<lambda>_. [(0, []), (2, [7, 8])])\<rparr>) = Some (Inr (), w') \<and> rx w' 5 = [(2, [7, 8])]"
  using udp_downlink_empty_datagram_ends [of "net0\<lparr>rx := (\<lambda>_. [(0, []), (2, [7, 8])])\<rparr>" 5 "[]" "[(2, [7, 8])]"]
  by (simp add: net0_def) blast

section \<open>The client's return path and session keys\<close>

lemma session_frames_deframe: "session_frames data pos = fst (deframe (drop pos data))"
proof (induction data pos rule: session_frames.induct)
  case (1 data pos)
  show ?case
  proof (cases "length data - pos \<ge> 2")
    case False
    then have "drop pos data = [] \<or> (\<exists>x. drop pos data = [x])"
      by (cases "drop pos data"; cases "tl (drop pos data)") (auto dest: arg_cong [of _ _ length])
    with False show ?thesis
      by (auto simp: session_frames.simps [of data pos] deframe.simps)
  next
    case True
    let ?n = "unat (be16 (data ! pos) (data ! (pos + 1)))"
    let ?rest = "drop (pos + 2) data"
    have len: "length data = pos + 2 + length ?rest" and le: "pos + 2 \<le> length data"
      using True by simp_all
    show ?thesis
    proof (cases "?n \<le> length ?rest")
      case False
      then have "fst (deframe (drop pos data)) = []"
        unfolding drop_two [OF True] by (subst deframe.simps) (simp add: Let_def)
      moreover have "pos + 2 + ?n > length data"
        using False len by linarith
      ultimately show ?thesis
        by (simp add: session_frames.simps [of data pos] Let_def)
    next
      case fits: True
      have next_pos: "drop ?n ?rest = drop (pos + (2 + ?n)) data"
        by (simp add: add_ac)
      have "fst (deframe (drop pos data)) = take ?n ?rest # fst (deframe (drop (pos + (2 + ?n)) data))"
        unfolding drop_two [OF True] deframe_more [OF fits] next_pos by simp
      moreover have fit: "\<not> pos + 2 + ?n > length data"
        using fits len by linarith
      moreover have "session_frames data pos = take ?n ?rest # session_frames data (pos + (2 + ?n))"
        using fit le by (subst session_frames.simps) (simp add: Let_def)
      ultimately show ?thesis
        using "1.IH" [OF le refl] by simp
    qed
  qed
qed

text \<open>When every receive ends at a packet boundary, the return path of the client delivers
exactly the packets of the server's stream, in order.\<close>

theorem session_packets_aligned:
  assumes "\<forall>c \<in> set cs. snd (deframe c) = []"
  shows "concat (map (\<lambda>c. session_frames c 0) cs) = fst (deframe (concat cs))"
  using assms
  by (induction cs) (simp_all add: session_frames_deframe deframe_append deframe.simps [of "[]"])

lemma session_packets_aligned_witness:
  "concat (map (\<lambda>c. session_frames c 0) [[0, 1, 7, 0, 2, 8, 9], [0, 1, 5]]) = [[7], [8, 9], [5]]"
proof -
  have "fst (deframe (concat [[0, 1, 7, 0, 2, 8, 9], [0, 1, 5]])) = [[7], [8, 9], [5]]"
    "snd (deframe [0, 1, 7, 0, 2, 8, 9]) = []" "snd (deframe [0, 1, 5]) = []"
    by code_simp+
  then show ?thesis by (subst session_packets_aligned) auto
qed

text \<open>A packet cut by a receive boundary is lost on the client's return path: the first part
yields nothing and is forgotten, and the next receive is read as if it began with a length.\<close>

theorem session_packet_split_lost:
  assumes "length p < 65536" and "k < 2 + length p" and "cs = [take k (udp_frame p), drop k (udp_frame p) @ more_bytes]"
  shows "concat (map (\<lambda>c. session_frames c 0) cs) = fst (deframe (drop k (udp_frame p) @ more_bytes))"
proof -
  have "fst (deframe (take k (udp_frame p))) = []"
  proof (cases "take k (udp_frame p)" rule: deframe_cases)
    case (more h l rest)
    have "length (take k (udp_frame p)) = length rest + 2"
      by (simp add: more(1))
    then have "length rest + 2 = k"
      using assms(2) by simp
    moreover have "unat (be16 h l) = length p"
      using more(1) assms(1) by (auto simp: udp_frame_def Let_def take_Cons' unat_of_nat16 split: if_splits)
    ultimately show ?thesis
      using more(2) assms(2) by simp
  qed simp
  then show ?thesis
    by (simp add: assms(3) session_frames_deframe)
qed

lemma session_packet_split_lost_witness:
  "concat (map (\<lambda>c. session_frames c 0) [[0, 3, 0], [1, 9, 0, 1, 5]]) = [] \<and>
   fst (deframe (concat [[0, 3, 0], [1, 9, 0, 1, 5]])) = [[0, 1, 9], [5]]"
proof -
  have "udp_frame [0, 1, 9] = [0, 3, 0, 1, 9]" "fst (deframe [1, 9, 0, 1, 5]) = []"
    "fst (deframe [0, 3, 0, 1, 9, 0, 1, 5]) = [[0, 1, 9], [5]]"
    by code_simp+
  with session_packet_split_lost [of "[0, 1, 9]" 3 _ "[0, 1, 5]", OF _ _ refl] show ?thesis by simp
qed

lemma dotted_quad_inject:
  assumes "length a = 4" "length b = 4" and "dotted_quad a = dotted_quad b"
  shows "a = b"
proof -
  have "dotted_quad ip = dec_nat (unat (ip ! 0)) @ CHR ''.'' # (dec_nat (unat (ip ! 1)) @ CHR ''.'' #
      (dec_nat (unat (ip ! 2)) @ CHR ''.'' # dec_nat (unat (ip ! 3))))" for ip
    by (simp add: dotted_quad_def)
  with assms(3) have "\<forall>i \<in> {0, 1, 2, 3}. unat (a ! i) = unat (b ! i)"
    by (auto dest!: split_first)
  then show ?thesis
    using assms(1,2) by (intro nth_equalityI) (auto simp: word_unat_eq_iff less_Suc_eq numeral_eq_Suc)
qed

text \<open>Different targets have different sessions: the session key determines the address and
the port, for well-formed addresses and an \<open>inet_ntop\<close> that prints different IPv6 addresses
differently.\<close>

theorem makeKey_inject:
  assumes "makeKey ntop6 a p = makeKey ntop6 b q" and "address_ok a" and "address_ok b"
    and "\<forall>x. length x = 16 \<longrightarrow> ntop6 x \<noteq> None"
    and "\<forall>x y. length x = 16 \<and> length y = 16 \<and> ntop6 x = ntop6 y \<longrightarrow> x = y"
  shows "a = b \<and> p = q"
proof -
  have "dec_nat (unat (socks_atyp a)) @ CHR ''|'' # (address_toString ntop6 a @ CHR '':'' # dec_nat (unat p)) =
      dec_nat (unat (socks_atyp b)) @ CHR ''|'' # (address_toString ntop6 b @ CHR '':'' # dec_nat (unat q))"
    using assms(1) by (simp add: makeKey_def)
  from split_first [OF this] have atyp: "socks_atyp a = socks_atyp b"
    and rest: "address_toString ntop6 a @ CHR '':'' # dec_nat (unat p) =
      address_toString ntop6 b @ CHR '':'' # dec_nat (unat q)"
    by (simp_all add: word_unat_eq_iff)
  from split_last [OF rest] have addr: "address_toString ntop6 a = address_toString ntop6 b" and "p = q"
    by (simp_all add: word_unat_eq_iff)
  moreover have "a = b"
    using atyp addr assms(2-5)
    by (cases a; cases b) (auto dest: dotted_quad_inject split: option.splits)
  ultimately show ?thesis by simp
qed

text \<open>An injective printer for the witness.\<close>

definition sample_ntop6 :: "bytes \<Rightarrow> string option" where
  "sample_ntop6 ip = Some (bytes_string ip)"

lemma makeKey_inject_witness:
  "makeKey sample_ntop6 (Domain ''a:1'') 2 \<noteq> makeKey sample_ntop6 (Domain ''a'') 12"
proof
  assume "makeKey sample_ntop6 (Domain ''a:1'') 2 = makeKey sample_ntop6 (Domain ''a'') 12"
  from makeKey_inject [OF this] show False
    by (simp add: sample_ntop6_def) (metis string_bytes_string)
qed

end
