(* ===== verification/Config_Props.thy ===== *)
theory Config_Props
  imports Config "HOL-Library.Sublist"
begin

text \<open>
  The configuration file written by \<open>writeServerConfig\<close> is read back unchanged by
  \<open>loadServerConfig\<close>; the JSON descent always terminates; numbers outside the port range wrap;
  \<open>ensureParentDir\<close> never creates the directory itself.
\<close>

section \<open>Parsing the written text\<close>

named_theorems json_eval \<open>evaluation of the JSON descent on text with known structure\<close>

lemma skipWs_Cons [json_eval]: "skipWs (c # r) = (if isspace c then skipWs r else c # r)"
  by (simp add: skipWs_def)

lemma jkey_quoted: "jsonEscape k = k \<Longrightarrow> jkey k = quoted k"
  by (simp add: jkey_def quoted_def)

lemma skipWs_jkey [json_eval]: "skipWs (jkey k @ rest) = jkey k @ rest"
  by (simp add: jkey_def skipWs_def isspace_def)

lemma isspace_chars [json_eval]:
  "isspace (CHR '' '')" "isspace (CHR 0x0A)" "\<not> isspace (CHR '','')" "\<not> isspace (CHR '':'')"
  "\<not> isspace (CHR ''}'')" "\<not> isspace (CHR '']'')" "\<not> isspace (CHR ''{'')" "\<not> isspace (CHR ''['')"
  "\<not> isspace (CHR ''t'')" "\<not> isspace (CHR ''f'')"
  by (simp_all add: isspace_def)

lemma jconsume_jkey [json_eval]: "jconsume (CHR ''}'') (jkey k @ rest) = None"
  by (simp add: jconsume_def jkey_def)

lemma jconsume_Cons [json_eval]: "jconsume c (x # r) = (if x = c then Some r else None)"
  by (simp add: jconsume_def)

text \<open>What happens behind a field's value, and behind an element.\<close>

fun object_next :: "(string \<Rightarrow> int) \<Rightarrow> (string \<times> json) list \<Rightarrow> string \<Rightarrow> json presult \<Rightarrow> json presult" where
  "object_next num kvs k (POk v r) =
     (case jconsume (CHR ''}'') (skipWs r) of
        Some r' \<Rightarrow> POk (JObject (kvs @ [(k, v)])) r'
      | None \<Rightarrow>
          (case jconsume (CHR '','') (skipWs r) of
             None \<Rightarrow> PFail | Some r' \<Rightarrow> jobject num (kvs @ [(k, v)]) r'))"
| "object_next num kvs k PFail = PFail"
| "object_next num kvs k NoFuel = NoFuel"

lemma jobject_space [json_eval]: "isspace c \<Longrightarrow> jobject num kvs (c # r) = jobject num kvs r"
  by (metis jobject_skipWs skipWs_Cons)

lemma jvalue_NoFuel [simp]: "jvalue num s \<noteq> NoFuel"
  by (simp add: jvalue_def jp_fuel)

lemma jobject_field [json_eval]:
  assumes "jsonEscape k = k" and "jvalue num (skipWs X) = POk v r"
  shows "jobject num kvs (jkey k @ CHR '':'' # CHR '' '' # X) = object_next num kvs k (POk v r)"
proof -
  have "parseString (skipWs (jkey k @ CHR '':'' # CHR '' '' # X)) = Some (k, CHR '':'' # CHR '' '' # X)"
    using parseString_quoted [of k] assms(1) by (simp add: jkey_quoted)
  from jobject_step [OF this, of "CHR '' '' # X" num v r kvs] assms(2) show ?thesis
    by (simp add: json_eval)
qed

lemma object_next_quoted [json_eval]:
  "jsonEscape k = k \<Longrightarrow> jobject num kvs (jkey k @ CHR '':'' # CHR '' '' # quoted s @ rest) =
     object_next num kvs k (POk (JString s) rest)"
  by (rule jobject_field) (simp_all add: jvalue_quoted)

lemma object_next_bool [json_eval]:
  "jsonEscape k = k \<Longrightarrow> jobject num kvs (jkey k @ CHR '':'' # CHR '' '' # bool_text b @ rest) =
     object_next num kvs k (POk (JBool b) rest)"
  using jvalue_bool [of num rest]
  by (intro jobject_field) (auto simp: bool_text_def json_eval)

lemma object_next_number [json_eval]:
  "jsonEscape k = k \<Longrightarrow> strtod_decimal num \<Longrightarrow> \<bar>i\<bar> < 10 ^ 15 \<Longrightarrow> d = CHR '','' \<or> d = CHR 0x0A \<Longrightarrow>
     jobject num kvs (jkey k @ CHR '':'' # CHR '' '' # dec_int i @ d # rest) =
     object_next num kvs k (POk (JNumber i) (d # rest))"
  by (rule jobject_field) (simp_all add: jvalue_number)

lemma uint16_bound [json_eval]: "uint (p :: 16 word) < 1000000000000000"
  using uint_bounded [of p] by simp

definition user_json :: "user_config \<Rightarrow> json" where
  "user_json u = JObject [(''uuid'', JString (uc_uuid u)), (''name'', JString (uc_name u))]"

lemma jvalue_user:
  "jvalue num (CHR ''{'' # jkey ''uuid'' @ '': '' @ quoted (uc_uuid u) @ '', '' @ jkey ''name'' @ '': '' @
     quoted (uc_name u) @ CHR ''}'' # rest) = POk (user_json u) rest"
  by (simp add: jvalue_object json_eval user_json_def)

text \<open>The users array, from behind its opening bracket.\<close>

lemma jarray_space [json_eval]: "isspace c \<Longrightarrow> jarray num vs (c # r) = jarray num vs r"
  by (metis jarray_skipWs skipWs_Cons)

lemma jarray_users:
  assumes "us \<noteq> []"
  shows "jarray num vs (users_text us @ '' '' @ '' '' @ CHR '']'' # rest) =
    POk (JArray (vs @ map user_json us)) rest"
  using assms
proof (induction us arbitrary: vs)
  case (Cons u us)
  let ?rest = "(if us \<noteq> [] then '','' else []) @ nl @ users_text us @ '' '' @ '' '' @ CHR '']'' # rest"
  have "jvalue num (skipWs (users_text (u # us) @ '' '' @ '' '' @ CHR '']'' # rest)) = POk (user_json u) ?rest"
    using jvalue_user [of num u ?rest] by (simp add: json_eval)
  from jarray_step [OF this, of vs] show ?case
    using Cons.IH [of "vs @ [user_json u]"]
    by (cases "us = []") (simp_all add: json_eval)
qed simp

lemma jvalue_users [json_eval]:
  "jvalue num (CHR ''['' # CHR 0x0A # users_text us @ CHR '' '' # CHR '' '' # CHR '']'' # rest) =
     POk (JArray (map user_json us)) rest"
proof (cases us)
  case Nil
  then show ?thesis
    by (simp add: jvalue_array json_eval)
next
  case (Cons u us')
  have "jconsume (CHR '']'') (skipWs (users_text us @ CHR '' '' # CHR '' '' # CHR '']'' # rest)) = None"
    by (simp add: Cons json_eval)
  moreover have "jarray num [] (users_text us @ CHR '' '' # CHR '' '' # CHR '']'' # rest) =
      POk (JArray (map user_json us)) rest"
    using jarray_users [of us num "[]" rest] by (simp add: Cons)
  ultimately show ?thesis
    by (simp add: jvalue_array json_eval jarray_skipWs)
qed

definition tls_json :: "tls_config \<Rightarrow> json" where
  "tls_json t = JObject [(''enabled'', JBool (tc_enabled t)), (''port'', JNumber (uint (tc_port t))),
     (''cert_file'', JString (certFile t)), (''key_file'', JString (keyFile t)),
     (''cert_dir'', JString (certDir t)), (''cert_days'', JNumber (certDays t))]"

definition server_json :: "server_config \<Rightarrow> json" where
  "server_json c = JObject [(''port'', JNumber (uint (sc_port c))), (''host'', JString (sc_host c)),
     (''log_level'', JString (sc_logLevel c)), (''workers'', JNumber (sc_workers c)),
     (''remark'', JString (sc_remark c)), (''tls'', tls_json (sc_tls c)),
     (''users'', JArray (map user_json (sc_users c)))]"

lemma jvalue_tls:
  assumes "strtod_decimal num" and "\<bar>certDays t\<bar> < 1000000000000000"
  shows "jvalue num (CHR ''{'' # CHR 0x0A # tls_text t @ CHR '' '' # CHR '' '' # CHR ''}'' # rest) =
    POk (tls_json t) rest"
  using assms by (simp add: jvalue_object json_eval tls_text_def tls_json_def)

lemma server_text_parses:
  assumes "strtod_decimal num" and "\<bar>sc_workers c\<bar> < 10 ^ 15" and "\<bar>certDays (sc_tls c)\<bar> < 10 ^ 15"
  shows "json_parse num (server_config_text c) = Some (server_json c)"
proof -
  have tls: "jobject num kvs (jkey ''tls'' @ CHR '':'' # CHR '' '' # CHR ''{'' # CHR 0x0A #
      tls_text (sc_tls c) @ CHR '' '' # CHR '' '' # CHR ''}'' # rest) =
      object_next num kvs ''tls'' (POk (tls_json (sc_tls c)) rest)" for kvs rest
    using assms by (intro jobject_field) (simp_all add: jvalue_tls json_eval)
  have users: "jobject num kvs (jkey ''users'' @ CHR '':'' # CHR '' '' # CHR ''['' # CHR 0x0A #
      users_text (sc_users c) @ CHR '' '' # CHR '' '' # CHR '']'' # rest) =
      object_next num kvs ''users'' (POk (JArray (map user_json (sc_users c))) rest)" for kvs rest
    by (intro jobject_field) (simp_all add: json_eval)
  have "skipWs [CHR 0x0A] = []"
    by (simp add: json_eval skipWs_def)
  then show ?thesis
    using assms
    by (simp add: json_parse_jvalue server_config_text_def jvalue_object json_eval tls users server_json_def)
qed

section \<open>Properties\<close>

text \<open>What a configuration must satisfy to survive the file: the numbers fit their C++ types and
every user has an identifier; the certificate digest is a runtime field that is not stored.\<close>

definition config_ok :: "server_config \<Rightarrow> bool" where
  "config_ok c \<longleftrightarrow> - (2 ^ 31) \<le> sc_workers c \<and> sc_workers c < 2 ^ 31 \<and>
     - (2 ^ 31) \<le> certDays (sc_tls c) \<and> certDays (sc_tls c) < 2 ^ 31 \<and>
     list_all (\<lambda>u. uc_uuid u \<noteq> []) (sc_users c) \<and> certSha256 (sc_tls c) = []"

lemma to_int32_id: "- (2 ^ 31) \<le> i \<Longrightarrow> i < 2 ^ 31 \<Longrightarrow> to_int32 i = i"
  unfolding to_int32_def by (simp add: signed_of_int signed_take_bit_int_eq_self)

lemma read_users_json: "list_all (\<lambda>u. uc_uuid u \<noteq> []) us \<Longrightarrow> concat (map (read_user \<circ> user_json) us) = us"
  by (induction us) (simp_all add: read_user_def user_json_def get_string_def Let_def)

lemma read_server_json:
  assumes "config_ok c"
  shows "read_server (server_json c) server_config_init = c"
  using assms
  by (simp add: config_ok_def read_server_def server_json_def get_number_def get_string_def
      get_bool_def Let_def read_tls_def tls_json_def to_int32_id read_users_json
      server_config_init_def tls_config_init_def)

text \<open>C23: Loading the file that \<open>writeServerConfig\<close> wrote gives the configuration back, field by
field and user by user, whatever characters its strings contain, whenever the file could be written
and \<open>strtod\<close> reads decimal integers as documented.\<close>

theorem config_roundtrip:
  assumes "strtod_decimal num" and "config_ok c"
    and "writeServerConfig writable flushed path c fs = (True, err, fs')"
  shows "loadServerConfig num writable flushed newUuid path server_config_init fs' =
    ((True, c, False, []), fs')"
proof -
  have stored: "fs_files fs' path = Some (server_config_text c)"
    using assms(3) by (auto simp: writeServerConfig_def ensureParentDir_def Let_def split: if_splits)
  have "json_parse num (server_config_text c) = Some (server_json c)"
    using assms(1,2) by (intro server_text_parses) (auto simp: config_ok_def abs_less_iff)
  moreover have "isObject (server_json c)"
    by (simp add: server_json_def)
  ultimately show ?thesis
    by (simp add: loadServerConfig_def stored read_server_json [OF assms(2)])
qed

text \<open>A \<open>strtod\<close> for the witness: an optional minus and the leading digits.\<close>

definition sample_strtod :: "string \<Rightarrow> int" where
  "sample_strtod s = (case s of
     c # r \<Rightarrow> if c = CHR ''-'' then - int (undec (takeWhile is_digit r))
              else int (undec (takeWhile is_digit s))
   | [] \<Rightarrow> 0)"

lemma takeWhile_dec_nat:
  "rest = [] \<or> \<not> is_digit (hd rest) \<Longrightarrow> takeWhile is_digit (dec_nat n @ rest) = dec_nat n"
  by (subst takeWhile_append2) (auto dest: dec_nat_digits simp: takeWhile_eq_Nil_iff)

lemma sample_strtod_decimal: "strtod_decimal sample_strtod"
proof -
  have "sample_strtod (dec_int i @ rest) = i"
    if "rest = [] \<or> hd rest \<in> {CHR '','', CHR 0x0A}" for i rest
  proof -
    have nd: "rest = [] \<or> \<not> is_digit (hd rest)"
      using that by (auto simp: is_digit_def)
    show ?thesis
    proof (cases "i < 0")
      case True
      then show ?thesis
        using takeWhile_dec_nat [OF nd, of "nat (- i)"] by (simp add: sample_strtod_def dec_int_def)
    next
      case False
      obtain c r where c: "dec_nat (nat i) = c # r" "is_digit c" by (rule dec_nat_Cons)
      then have "c \<noteq> CHR ''-''"
        by (auto simp: is_digit_def)
      with False c takeWhile_dec_nat [OF nd, of "nat i"] undec_dec_nat [of "nat i"] show ?thesis
        by (simp add: sample_strtod_def dec_int_def)
    qed
  qed
  then show ?thesis by (simp add: strtod_decimal_def)
qed

definition sample_config :: server_config where
  "sample_config = server_config_init\<lparr>sc_host := ''a'' @ [CHR 0x22, CHR 0x5C] @ ''b'', sc_workers := -3,
     sc_users := [\<lparr>uc_uuid = ''u1'', uc_name = ''x''\<rparr>, \<lparr>uc_uuid = ''u2'', uc_name = []\<rparr>]\<rparr>"

lemma config_roundtrip_witness:
  "\<exists>fs'. writeServerConfig (\<lambda>_ _. True) (\<lambda>_ _. True) ''c.json'' sample_config
      \<lparr>fs_files = (\<lambda>_. None), fs_mkdirs = []\<rparr> = (True, [], fs') \<and>
    loadServerConfig sample_strtod (\<lambda>_ _. True) (\<lambda>_ _. True) [] ''c.json'' server_config_init fs' =
      ((True, sample_config, False, []), fs')"
proof -
  obtain fs' where w: "writeServerConfig (\<lambda>_ _. True) (\<lambda>_ _. True) ''c.json'' sample_config
      \<lparr>fs_files = (\<lambda>_. None), fs_mkdirs = []\<rparr> = (True, [], fs')"
    by (auto simp: writeServerConfig_def ensureParentDir_def Let_def)
  from config_roundtrip [OF sample_strtod_decimal _ this] w show ?thesis
    by (simp add: config_ok_def sample_config_def server_config_init_def tls_config_init_def)
qed

text \<open>C24: The recursive descent of \<open>Json::parse\<close> ends on every text, valid or not: the descent
consumes at least one character per two levels, so the fuel of the model never runs out and any
larger amount gives the same document.\<close>

theorem json_parse_terminates:
  "jp_value num (2 * length doc + 1) (skipWs doc) \<noteq> NoFuel \<and>
   jp_value num (2 * length doc + 1 + extra) (skipWs doc) = jp_value num (2 * length doc + 1) (skipWs doc)"
proof -
  have nf: "jp_value num (2 * length doc + 1) (skipWs doc) \<noteq> NoFuel"
    using skipWs_length [of doc] by (intro jp_fuel(1)) simp
  with jp_more_fuel(1) [OF this, of "2 * length doc + 1 + extra"] show ?thesis
    by simp
qed

section \<open>ensureParentDir\<close>

lemma mkdir_step_prefix:
  assumes "\<forall>d \<in> set made. strict_prefix d dir" and "strict_prefix cur dir"
    and "cur = [] \<or> last cur = CHR ''/''" and "i < length dir" and "last dir \<noteq> CHR ''/''"
    and "mkdir_step dir (made, cur) i = (made', cur')"
  shows "(\<forall>d \<in> set made'. strict_prefix d dir) \<and> strict_prefix cur' dir \<and>
    (cur' = [] \<or> last cur' = CHR ''/'')"
proof (cases "dir ! i = CHR ''/''")
  case True
  then have "i \<noteq> length dir - 1"
    using assms(4,5) True last_conv_nth [of dir] by (cases "dir = []") auto
  then have i: "Suc i < length dir"
    using assms(4) by simp
  then have "strict_prefix (take (i + 1) dir) dir"
    by (metis Suc_eq_plus1 le_less_linear length_take min.absorb4 not_less_iff_gr_or_eq order.strict_iff_order
        prefix_order.le_imp_less_or_eq take_is_prefix)
  moreover have "last (take (i + 1) dir) = CHR ''/''"
    using i True by (simp add: take_Suc_conv_app_nth)
  ultimately show ?thesis
    using assms(1,2,6) True by (auto simp: mkdir_step_def split: if_splits)
next
  case False
  with assms show ?thesis
    by (simp add: mkdir_step_def)
qed

lemma mkdir_fold_prefix:
  assumes "n \<le> length dir" and "last dir \<noteq> CHR ''/''" and "dir \<noteq> []"
    and "foldl (mkdir_step dir) ([], []) [0..<n] = (made, cur)"
  shows "(\<forall>d \<in> set made. strict_prefix d dir) \<and> strict_prefix cur dir \<and>
    (cur = [] \<or> last cur = CHR ''/'')"
  using assms(1,4)
proof (induction n arbitrary: made cur)
  case 0
  then show ?case using assms(3) by (auto simp: strict_prefix_def)
next
  case (Suc n)
  obtain made0 cur0 where "foldl (mkdir_step dir) ([], []) [0..<n] = (made0, cur0)"
    by fastforce
  with Suc.IH [OF _ this] Suc.prems assms(2) show ?case
    by (intro mkdir_step_prefix [of made0 dir cur0 n made cur]) simp_all
qed

lemma last_slash_split:
  assumes "CHR ''/'' \<notin> set f"
  shows "last_slash (dir @ CHR ''/'' # f) = Some (length dir)"
proof -
  have "takeWhile (\<lambda>c. c \<noteq> CHR ''/'') (rev (dir @ CHR ''/'' # f)) = rev f"
    using assms by (subst rev_append) (auto simp: takeWhile_append2 takeWhile_tail)
  then show ?thesis
    by (simp add: last_slash_def)
qed

text \<open>\<open>ensureParentDir\<close> creates ancestors of the directory only: for a path
\<open>dir/f\<close>, every \<open>mkdir\<close> it issues is for a strict prefix of \<open>dir\<close>, so a parent directory that does
not exist is never created and writing the file fails; for a \<open>dir\<close> of one component it issues none.\<close>

theorem ensureParentDir_never_creates_parent:
  assumes "CHR ''/'' \<notin> set f" and "dir \<noteq> []" and "last dir \<noteq> CHR ''/''"
    and "ensureParentDir (dir @ CHR ''/'' # f) fs = (ok, fs')"
  shows "ok \<and> (\<exists>calls. fs_mkdirs fs' = fs_mkdirs fs @ calls \<and>
    (\<forall>d \<in> set calls. strict_prefix d dir) \<and> (CHR ''/'' \<notin> set dir \<longrightarrow> calls = []))"
proof -
  obtain made cur where fold: "foldl (mkdir_step dir) ([], []) [0..<length dir] = (made, cur)"
    by fastforce
  note inv = mkdir_fold_prefix [OF order_refl assms(3,2) fold]
  have calls: "mkdir_calls (dir @ CHR ''/'' # f) =
      (if length cur > 1 then made @ [take (length cur - 1) cur] else made)"
    using inv assms(2) by (auto simp: mkdir_calls_def last_slash_split [OF assms(1)] fold Let_def)
  have "strict_prefix (take (length cur - 1) cur) dir"
    using inv by (meson prefix_order.le_less_trans take_is_prefix)
  then have "\<forall>d \<in> set (mkdir_calls (dir @ CHR ''/'' # f)). strict_prefix d dir"
    using inv by (simp add: calls)
  moreover have "mkdir_calls (dir @ CHR ''/'' # f) = []" if "CHR ''/'' \<notin> set dir"
  proof -
    have "foldl (mkdir_step dir) ([], []) [0..<n] = ([], [])" if "n \<le> length dir" for n
      using that by (induction n) (use \<open>CHR ''/'' \<notin> set dir\<close> in \<open>auto simp: mkdir_step_def in_set_conv_nth\<close>)
    from this [OF order_refl] fold calls show ?thesis
      by simp
  qed
  ultimately show ?thesis
    using assms(4) by (auto simp: ensureParentDir_def)
qed

lemma ensureParentDir_never_creates_parent_witness:
  "\<exists>calls. mkdir_calls ''/etc/vless/c.json'' = calls \<and> (\<forall>d \<in> set calls. strict_prefix d ''/etc/vless'')"
  using ensureParentDir_never_creates_parent [of "''c.json''" "''/etc/vless''"
      "\<lparr>fs_files = (\<lambda>_. None), fs_mkdirs = []\<rparr>"]
  by (simp add: ensureParentDir_def)

end
