(* ===== verification/Uring_Ops.thy ===== *)
theory Uring_Ops
  imports Streams
begin

text \<open>
  The bridge from io_uring completions to coroutines (include/coro/uring_awaitable.h,
  src/net/io_uring.cpp): \<open>UringOp\<close>, the table \<open>PendingUringOps\<close>, the completion callbacks,
  \<open>abortOp\<close> and the awaitables.

  Operation objects live in coroutine frames, so the model has a memory: \<open>op_mem\<close> maps the
  addresses of the operation objects that exist to their contents. A function that reads or writes
  an object that no longer exists has the result \<open>None\<close>, undefined behaviour. Coroutine handles
  are numbers; resuming one is recorded in \<open>resumed\<close>, and what the coroutine does next are
  later events. In each of the sources' functions the resumption is the last access to the object.
\<close>

section \<open>Operations\<close>

datatype complete_fn = RecvComplete | WriteComplete | AcceptComplete

record uring_op =
  onComplete :: "complete_fn option"
  op_handle :: "nat option"
  op_fd :: int
  op_result :: int
  op_buf :: bytes
  op_data :: bytes

definition op_init :: uring_op where
  "op_init = \<lparr>onComplete = None, op_handle = None, op_fd = -1, op_result = 0, op_buf = [], op_data = []\<rparr>"

datatype sqe = PrepRecv int nat | PrepSend int bytes | PrepConnect int bytes | PrepAccept int
  | PrepShutdown int int | PrepRecvMsg int nat | PrepSendMsg int bytes bytes

text \<open>
  The ring of one worker thread: whether it exists, its size, the entries prepared but not yet
  submitted, and those the kernel works on, each with its \<open>user_data\<close>.
\<close>

record uring =
  op_mem :: "nat \<Rightarrow> uring_op option"
  byFd :: "int \<Rightarrow> nat set option"
  frame_done :: "nat set"
  resumed :: "nat list"
  ring_open :: bool
  sq_entries :: nat
  sq :: "(nat \<times> sqe) list"
  inflight :: "(nat \<times> sqe) list"

definition IoUring :: "nat \<Rightarrow> uring" where
  "IoUring entries = \<lparr>op_mem = (\<lambda>_. None), byFd = (\<lambda>_. None), frame_done = {}, resumed = [],
     ring_open = True, sq_entries = entries, sq = [], inflight = []\<rparr>"

text \<open>The constructor; \<open>ok\<close> is whether \<open>io_uring_queue_init_params\<close> succeeds.\<close>

definition IoUring_create :: "bool \<Rightarrow> nat \<Rightarrow> exn + uring" where
  "IoUring_create ok entries =
     (if ok then Inr (IoUring entries) else Inl (RuntimeError ''io_uring_queue_init_params failed''))"

definition put_op :: "nat \<Rightarrow> uring_op \<Rightarrow> uring \<Rightarrow> uring" where
  "put_op a v s = s\<lparr>op_mem := (op_mem s)(a := Some v)\<rparr>"

section \<open>PendingUringOps\<close>

definition pending_add :: "nat \<Rightarrow> int \<Rightarrow> uring \<Rightarrow> uring" where
  "pending_add a fd s =
     (if fd < 0 then s
      else s\<lparr>byFd := (byFd s)(fd \<mapsto> insert a (case byFd s fd of None \<Rightarrow> {} | Some ops \<Rightarrow> ops))\<rparr>)"

definition pending_remove :: "nat \<Rightarrow> int \<Rightarrow> uring \<Rightarrow> uring" where
  "pending_remove a fd s =
     (if fd < 0 then s
      else case byFd s fd of
        None \<Rightarrow> s
      | Some ops \<Rightarrow>
          s\<lparr>byFd := (byFd s)(fd := if ops - {a} = {} then None else Some (ops - {a}))\<rparr>)"

definition cancelFd :: "int \<Rightarrow> uring \<Rightarrow> uring option" where
  "cancelFd fd s =
     (if fd < 0 then Some s
      else case byFd s fd of
        None \<Rightarrow> Some s
      | Some ops \<Rightarrow>
          (if \<exists>a \<in> ops. op_mem s a = None then None
           else Some (s\<lparr>op_mem := (\<lambda>a. if a \<in> ops
                   then map_option (\<lambda>v. v\<lparr>onComplete := None, op_handle := None\<rparr>) (op_mem s a)
                   else op_mem s a),
                 byFd := (byFd s)(fd := None)\<rparr>)))"

section \<open>Completion\<close>

text \<open>\<open>if (h && !h.done()) h.resume()\<close>.\<close>

definition wake :: "nat option \<Rightarrow> uring \<Rightarrow> uring" where
  "wake h s =
     (case h of
        None \<Rightarrow> s
      | Some h \<Rightarrow> if h \<in> frame_done s then s else s\<lparr>resumed := resumed s @ [h]\<rparr>)"

definition abortOp :: "nat \<Rightarrow> int \<Rightarrow> uring \<Rightarrow> uring option" where
  "abortOp a err s =
     (case op_mem s a of
        None \<Rightarrow> None
      | Some v \<Rightarrow>
          (let s = pending_remove a (op_fd v) s;
               s = put_op a (v\<lparr>op_result := err, onComplete := None\<rparr>) s
           in Some (wake (op_handle v) s)))"

definition RecvOp_complete :: "nat \<Rightarrow> uring_op \<Rightarrow> int \<Rightarrow> uring \<Rightarrow> uring" where
  "RecvOp_complete a v res s =
     (let v = v\<lparr>op_result := res\<rparr>;
          v = (if res > 0 then v\<lparr>op_data := take (nat res) (op_buf v)\<rparr> else v);
          s = pending_remove a (op_fd v) s;
          s = put_op a (v\<lparr>onComplete := None\<rparr>) s
      in wake (op_handle v) s)"

definition WriteOp_complete :: "nat \<Rightarrow> uring_op \<Rightarrow> int \<Rightarrow> uring \<Rightarrow> uring" where
  "WriteOp_complete a v res s =
     (let s = pending_remove a (op_fd v) s;
          s = put_op a (v\<lparr>op_result := res, onComplete := None\<rparr>) s
      in wake (op_handle v) s)"

definition AcceptOp_complete :: "nat \<Rightarrow> uring_op \<Rightarrow> int \<Rightarrow> uring \<Rightarrow> uring" where
  "AcceptOp_complete a v res s =
     (let s = pending_remove a (op_fd v) s;
          s = put_op a (v\<lparr>op_result := res, onComplete := None\<rparr>) s
      in wake (op_handle v) s)"

definition completeFromCqe :: "nat \<Rightarrow> int \<Rightarrow> uring \<Rightarrow> uring option" where
  "completeFromCqe userData res s =
     (if userData = 0 then Some s
      else case op_mem s userData of
        None \<Rightarrow> None
      | Some v \<Rightarrow>
          (case onComplete v of
             None \<Rightarrow> Some s
           | Some RecvComplete \<Rightarrow> Some (RecvOp_complete userData v res s)
           | Some WriteComplete \<Rightarrow> Some (WriteOp_complete userData v res s)
           | Some AcceptComplete \<Rightarrow> Some (AcceptOp_complete userData v res s)))"

section \<open>Awaitables\<close>

definition get_sqe :: "nat \<Rightarrow> sqe \<Rightarrow> uring \<Rightarrow> uring option" where
  "get_sqe a prep s =
     (if \<not> ring_open s \<or> sq_entries s \<le> length (sq s) then None
      else Some (s\<lparr>sq := sq s @ [(a, prep)]\<rparr>))"

text \<open>What the seven \<open>await_suspend\<close> have in common; \<open>v\<close> is the freshly constructed object.\<close>

definition suspend_op :: "nat \<Rightarrow> uring_op \<Rightarrow> complete_fn \<Rightarrow> int \<Rightarrow> sqe \<Rightarrow> nat \<Rightarrow> uring \<Rightarrow> uring option" where
  "suspend_op a v fn fd prep h s =
     (let s = put_op a (v\<lparr>op_fd := fd, op_handle := Some h, onComplete := Some fn\<rparr>) s;
          s = pending_add a fd s
      in case get_sqe a prep s of
           None \<Rightarrow> abortOp a (-1) s
         | Some s \<Rightarrow> Some s)"

definition AsyncRecv :: "int \<Rightarrow> nat \<Rightarrow> nat \<Rightarrow> nat \<Rightarrow> uring \<Rightarrow> uring option" where
  "AsyncRecv fd bufSize a h =
     suspend_op a (op_init\<lparr>op_buf := replicate bufSize 0\<rparr>) RecvComplete fd (PrepRecv fd bufSize) h"

definition AsyncSend :: "int \<Rightarrow> bytes \<Rightarrow> nat \<Rightarrow> nat \<Rightarrow> uring \<Rightarrow> uring option" where
  "AsyncSend fd data a h = suspend_op a op_init WriteComplete fd (PrepSend fd data) h"

definition AsyncConnect :: "int \<Rightarrow> bytes \<Rightarrow> nat \<Rightarrow> nat \<Rightarrow> uring \<Rightarrow> uring option" where
  "AsyncConnect fd addr a h = suspend_op a op_init WriteComplete fd (PrepConnect fd addr) h"

definition AsyncAccept :: "int \<Rightarrow> nat \<Rightarrow> nat \<Rightarrow> uring \<Rightarrow> uring option" where
  "AsyncAccept listenFd a h = suspend_op a op_init AcceptComplete listenFd (PrepAccept listenFd) h"

definition AsyncShutdown :: "int \<Rightarrow> int \<Rightarrow> nat \<Rightarrow> nat \<Rightarrow> uring \<Rightarrow> uring option" where
  "AsyncShutdown fd how a h = suspend_op a op_init WriteComplete fd (PrepShutdown fd how) h"

definition AsyncRecvFrom :: "int \<Rightarrow> nat \<Rightarrow> nat \<Rightarrow> nat \<Rightarrow> uring \<Rightarrow> uring option" where
  "AsyncRecvFrom fd bufSize a h =
     suspend_op a (op_init\<lparr>op_buf := replicate bufSize 0\<rparr>) RecvComplete fd (PrepRecvMsg fd bufSize) h"

definition AsyncSendTo :: "int \<Rightarrow> bytes \<Rightarrow> bytes \<Rightarrow> nat \<Rightarrow> nat \<Rightarrow> uring \<Rightarrow> uring option" where
  "AsyncSendTo fd data addr a h = suspend_op a op_init WriteComplete fd (PrepSendMsg fd data addr) h"

definition recv_resume :: "uring_op \<Rightarrow> recv_result" where
  "recv_resume v = \<lparr>rr_data = op_data v, rr_result = op_result v\<rparr>"

text \<open>\<open>await_resume\<close> of \<open>AsyncSend\<close>, \<open>AsyncConnect\<close>, \<open>AsyncAccept\<close>, \<open>AsyncShutdown\<close> and \<open>AsyncSendTo\<close>.\<close>

definition write_resume :: "uring_op \<Rightarrow> int" where
  "write_resume v = op_result v"

text \<open>\<open>AsyncRecvFrom\<close>: \<open>srcAddr\<close> and \<open>srcAddrLen\<close> are what the kernel left in the message header.\<close>

record AsyncRecvFromResult =
  rf_rr :: recv_result
  rf_srcAddr :: bytes
  rf_srcAddrLen :: nat

definition recvfrom_resume :: "bytes \<Rightarrow> nat \<Rightarrow> uring_op \<Rightarrow> AsyncRecvFromResult" where
  "recvfrom_resume srcAddr srcAddrLen v =
     \<lparr>rf_rr = \<lparr>rr_data = op_data v, rr_result = op_result v\<rparr>, rf_srcAddr = srcAddr, rf_srcAddrLen = srcAddrLen\<rparr>"

section \<open>Submission and the events of a worker thread\<close>

definition submitAndWait :: "uring \<Rightarrow> uring" where
  "submitAndWait s = (if ring_open s then s\<lparr>sq := [], inflight := inflight s @ sq s\<rparr> else s)"

datatype awaitable = ARecv int nat | ASend int bytes | AConnect int bytes | AAccept int
  | AShutdown int int | ARecvFrom int nat | ASendTo int bytes bytes

fun await :: "awaitable \<Rightarrow> nat \<Rightarrow> nat \<Rightarrow> uring \<Rightarrow> uring option" where
  "await (ARecv fd n) = AsyncRecv fd n"
| "await (ASend fd data) = AsyncSend fd data"
| "await (AConnect fd addr) = AsyncConnect fd addr"
| "await (AAccept fd) = AsyncAccept fd"
| "await (AShutdown fd how) = AsyncShutdown fd how"
| "await (ARecvFrom fd n) = AsyncRecvFrom fd n"
| "await (ASendTo fd data addr) = AsyncSendTo fd data addr"

text \<open>
  The events: a coroutine \<open>h\<close> awaits with its operation object at \<open>a\<close>; the loop submits; the kernel
  completes the operation of \<open>user_data\<close> \<open>a\<close> after filling its buffer, and \<open>processCompletions\<close> dispatches
  it; \<open>cancelFd\<close>; a frame ends, and the operation object of a frame is destroyed.
\<close>

datatype ur_event = EvAwait awaitable nat nat | EvSubmit | EvCqe nat int bytes | EvCancel int
  | EvFinish nat | EvDestroy nat

definition drop_entry :: "nat \<Rightarrow> (nat \<times> sqe) list \<Rightarrow> (nat \<times> sqe) list" where
  "drop_entry a es = filter (\<lambda>e. fst e \<noteq> a) es"

text \<open>The kernel fills the buffer it was given, wherever that memory now belongs.\<close>

definition fill_buf :: "nat \<Rightarrow> bytes \<Rightarrow> uring \<Rightarrow> uring" where
  "fill_buf a buf s =
     (case op_mem s a of None \<Rightarrow> s | Some v \<Rightarrow> put_op a (v\<lparr>op_buf := buf\<rparr>) s)"

fun ur_apply :: "ur_event \<Rightarrow> uring \<Rightarrow> uring option" where
  "ur_apply (EvAwait aw a h) s = await aw a h s"
| "ur_apply EvSubmit s = Some (submitAndWait s)"
| "ur_apply (EvCqe a res buf) s =
     completeFromCqe a res (fill_buf a buf (s\<lparr>inflight := drop_entry a (inflight s)\<rparr>))"
| "ur_apply (EvCancel fd) s = cancelFd fd s"
| "ur_apply (EvFinish h) s = Some (s\<lparr>frame_done := insert h (frame_done s)\<rparr>)"
| "ur_apply (EvDestroy a) s = Some (s\<lparr>op_mem := (op_mem s)(a := None)\<rparr>)"

fun ur_run :: "ur_event list \<Rightarrow> uring \<Rightarrow> uring option" where
  "ur_run [] s = Some s"
| "ur_run (e # es) s = (case ur_apply e s of None \<Rightarrow> None | Some s' \<Rightarrow> ur_run es s')"

text \<open>Addresses the kernel still knows, handles that wait.\<close>

definition queued :: "uring \<Rightarrow> nat set" where
  "queued s = fst ` set (sq s) \<union> fst ` set (inflight s)"

definition waits :: "uring \<Rightarrow> nat \<Rightarrow> nat \<Rightarrow> bool" where
  "waits s a h \<longleftrightarrow> (\<exists>v. op_mem s a = Some v \<and> onComplete v \<noteq> None \<and> op_handle v = Some h)"

text \<open>
  What the callers must respect. An operation object is a fresh part of the frame of a coroutine
  that runs (not ended, not waiting elsewhere); a completion is for an operation the kernel works
  on; and an operation object is destroyed only when the kernel no longer knows its address.
\<close>

fun ur_allowed :: "ur_event \<Rightarrow> uring \<Rightarrow> bool" where
  "ur_allowed (EvAwait aw a h) s \<longleftrightarrow> a \<noteq> 0 \<and> op_mem s a = None \<and> h \<notin> frame_done s \<and> (\<forall>b. \<not> waits s b h)"
| "ur_allowed EvSubmit s \<longleftrightarrow> True"
| "ur_allowed (EvCqe a res buf) s \<longleftrightarrow> a \<in> fst ` set (inflight s)"
| "ur_allowed (EvCancel fd) s \<longleftrightarrow> True"
| "ur_allowed (EvFinish h) s \<longleftrightarrow> (\<forall>a. \<not> waits s a h)"
| "ur_allowed (EvDestroy a) s \<longleftrightarrow> a \<notin> queued s"

text \<open>The waits that an event cancels, and the reachable states; the third argument counts, for
every handle, how often its wait was cancelled.\<close>

definition cancels :: "ur_event \<Rightarrow> uring \<Rightarrow> nat \<Rightarrow> bool" where
  "cancels e s h \<longleftrightarrow> (\<exists>fd a v. e = EvCancel fd \<and> 0 \<le> fd \<and> op_mem s a = Some v \<and>
     onComplete v \<noteq> None \<and> op_fd v = fd \<and> op_handle v = Some h)"

inductive ur_reach :: "nat \<Rightarrow> ur_event list \<Rightarrow> (nat \<Rightarrow> nat) \<Rightarrow> uring \<Rightarrow> bool" for entries :: nat where
  ur_reach_init: "ur_reach entries [] (\<lambda>_. 0) (IoUring entries)"
| ur_reach_step: "ur_reach entries es lost s \<Longrightarrow> ur_allowed e s \<Longrightarrow> ur_apply e s = Some s' \<Longrightarrow>
    ur_reach entries (es @ [e]) (\<lambda>h. lost h + (if cancels e s h then 1 else 0)) s'"

inductive_cases ur_reachE: "ur_reach entries es lost s"

end
