(* ===== verification/Uring_Props.thy ===== *)
theory Uring_Props
  imports Uring_Ops
begin

text \<open>
  Memory safety of the completion dispatch, accuracy of the \<open>PendingUringOps\<close> table, and the
  accounting of resumptions.
\<close>

section \<open>The table\<close>

definition live_ops :: "uring \<Rightarrow> int \<Rightarrow> nat set" where
  "live_ops s fd = {a. \<exists>v. op_mem s a = Some v \<and> onComplete v \<noteq> None \<and> op_fd v = fd}"

text \<open>The table lists, for every descriptor, exactly the operations that wait on it.\<close>

definition table_ok :: "uring \<Rightarrow> bool" where
  "table_ok s \<longleftrightarrow>
     (\<forall>fd. byFd s fd = (if fd < 0 \<or> live_ops s fd = {} then None else Some (live_ops s fd)))"

lemma table_okD: "table_ok s \<Longrightarrow> byFd s fd = (if fd < 0 \<or> live_ops s fd = {} then None else Some (live_ops s fd))"
  by (simp add: table_ok_def)

lemma live_ops_put_live:
  "onComplete v \<noteq> None \<Longrightarrow> live_ops (put_op a v s) fd =
     (if op_fd v = fd then insert a (live_ops s fd) else live_ops s fd - {a})"
  by (auto simp: live_ops_def put_op_def)

lemma live_ops_put_dead: "onComplete v = None \<Longrightarrow> live_ops (put_op a v s) fd = live_ops s fd - {a}"
  by (auto simp: live_ops_def put_op_def)

lemma live_ops_fresh: "op_mem s a = None \<Longrightarrow> a \<notin> live_ops s fd"
  by (auto simp: live_ops_def)

lemma live_ops_fd: "op_mem s a = Some v \<Longrightarrow> op_fd v \<noteq> fd \<Longrightarrow> a \<notin> live_ops s fd"
  by (auto simp: live_ops_def)

lemma live_ops_cong: "op_mem s = op_mem s' \<Longrightarrow> live_ops s = live_ops s'"
  by (rule ext) (simp add: live_ops_def)

lemma table_ok_cong: "op_mem s = op_mem s' \<Longrightarrow> byFd s = byFd s' \<Longrightarrow> table_ok s = table_ok s'"
  by (simp add: table_ok_def live_ops_cong [of s s'])

lemma op_mem_pending [simp]:
  "op_mem (pending_add a fd s) = op_mem s" "op_mem (pending_remove a fd s) = op_mem s"
  by (simp_all add: pending_add_def pending_remove_def split: option.split)

lemma byFd_put [simp]: "byFd (put_op a v s) = byFd s"
  by (simp add: put_op_def)

lemma live_ops_pending [simp]:
  "live_ops (pending_add a fd s) = live_ops s" "live_ops (pending_remove a fd s) = live_ops s"
  by (rule live_ops_cong, simp)+

lemma byFd_add:
  "byFd (pending_add a fd s) fd' =
     (if fd' = fd \<and> 0 \<le> fd then Some (insert a (case byFd s fd of None \<Rightarrow> {} | Some ops \<Rightarrow> ops))
      else byFd s fd')"
  by (simp add: pending_add_def)

lemma byFd_remove:
  "byFd (pending_remove a fd s) fd' =
     (if fd' = fd \<and> 0 \<le> fd
      then (case byFd s fd of None \<Rightarrow> None | Some ops \<Rightarrow> if ops - {a} = {} then None else Some (ops - {a}))
      else byFd s fd')"
  by (simp add: pending_remove_def split: option.split)

lemma table_ok_add:
  assumes "table_ok s" and "op_mem s a = None" and "onComplete v \<noteq> None" and "op_fd v = fd"
  shows "table_ok (pending_add a fd (put_op a v s))"
proof -
  have "byFd (pending_add a fd (put_op a v s)) fd' =
      (if fd' < 0 \<or> live_ops (put_op a v s) fd' = {} then None else Some (live_ops (put_op a v s) fd'))" for fd'
  proof (cases "fd' = fd")
    case True
    then show ?thesis
      by (simp add: byFd_add live_ops_put_live [OF assms(3)] assms(4) table_okD [OF assms(1)])
  next
    case False
    then have "live_ops (put_op a v s) fd' = live_ops s fd'"
      using live_ops_fresh [OF assms(2)] by (simp add: live_ops_put_live [OF assms(3)] assms(4))
    with False show ?thesis
      by (simp add: byFd_add table_okD [OF assms(1)])
  qed
  then show ?thesis
    by (simp add: table_ok_def)
qed

lemma table_ok_remove:
  assumes "table_ok s" and "op_mem s a = Some w" and "onComplete v = None"
  shows "table_ok (put_op a v (pending_remove a (op_fd w) s))"
proof -
  have "byFd (pending_remove a (op_fd w) s) fd =
      (if fd < 0 \<or> live_ops s fd - {a} = {} then None else Some (live_ops s fd - {a}))" for fd
  proof (cases "fd = op_fd w")
    case True
    then show ?thesis
      by (auto simp: byFd_remove table_okD [OF assms(1)])
  next
    case False
    then have "live_ops s fd - {a} = live_ops s fd"
      using live_ops_fd [OF assms(2)] by auto
    with False show ?thesis
      by (simp add: byFd_remove table_okD [OF assms(1)])
  qed
  then show ?thesis
    by (simp add: table_ok_def live_ops_put_dead [OF assms(3)])
qed

section \<open>The invariant\<close>

definition ur_inv :: "uring \<Rightarrow> bool" where
  "ur_inv s \<longleftrightarrow> table_ok s \<and>
     (\<forall>a \<in> queued s. a \<noteq> 0 \<and> op_mem s a \<noteq> None) \<and>
     (\<forall>a v. op_mem s a = Some v \<longrightarrow> onComplete v \<noteq> None \<longrightarrow>
        a \<in> queued s \<and> (\<exists>h. op_handle v = Some h \<and> h \<notin> frame_done s)) \<and>
     (\<forall>a b h. waits s a h \<longrightarrow> waits s b h \<longrightarrow> a = b)"

text \<open>Completion and \<open>abortOp\<close> take an operation off the table and wake its coroutine.\<close>

definition settle :: "nat \<Rightarrow> uring_op \<Rightarrow> uring_op \<Rightarrow> uring \<Rightarrow> uring" where
  "settle a w v s = wake (op_handle w) (put_op a v (pending_remove a (op_fd w) s))"

lemma wake_simps [simp]:
  "op_mem (wake h s) = op_mem s" "byFd (wake h s) = byFd s" "sq (wake h s) = sq s"
  "inflight (wake h s) = inflight s" "frame_done (wake h s) = frame_done s"
  by (simp_all add: wake_def split: option.split)

lemma pending_simps [simp]:
  "sq (pending_add a fd s) = sq s" "inflight (pending_add a fd s) = inflight s"
  "frame_done (pending_add a fd s) = frame_done s" "resumed (pending_add a fd s) = resumed s"
  "ring_open (pending_add a fd s) = ring_open s" "sq_entries (pending_add a fd s) = sq_entries s"
  "sq (pending_remove a fd s) = sq s" "inflight (pending_remove a fd s) = inflight s"
  "frame_done (pending_remove a fd s) = frame_done s" "resumed (pending_remove a fd s) = resumed s"
  by (simp_all add: pending_add_def pending_remove_def split: option.split)

lemma put_simps [simp]:
  "op_mem (put_op a v s) = (op_mem s)(a := Some v)"
  "sq (put_op a v s) = sq s" "inflight (put_op a v s) = inflight s"
  "frame_done (put_op a v s) = frame_done s" "resumed (put_op a v s) = resumed s"
  "ring_open (put_op a v s) = ring_open s" "sq_entries (put_op a v s) = sq_entries s"
  by (simp_all add: put_op_def)

lemma settle_mem [simp]:
  "op_mem (settle a w v s) = (op_mem s)(a := Some v)" "sq (settle a w v s) = sq s"
  "inflight (settle a w v s) = inflight s" "frame_done (settle a w v s) = frame_done s"
  by (simp_all add: settle_def)

lemma table_ok_settle:
  "table_ok s \<Longrightarrow> op_mem s a = Some w \<Longrightarrow> onComplete v = None \<Longrightarrow> table_ok (settle a w v s)"
  using table_ok_remove [of s a w v] table_ok_cong [of "settle a w v s" "put_op a v (pending_remove a (op_fd w) s)"]
  by (simp add: settle_def)

lemma abortOp_settle:
  "op_mem s a = Some w \<Longrightarrow>
     abortOp a err s = Some (settle a w (w\<lparr>op_result := err, onComplete := None\<rparr>) s)"
  by (simp add: abortOp_def settle_def Let_def)

lemma completeFromCqe_cases:
  assumes "a \<noteq> 0" and "op_mem s a = Some w"
  obtains (ignored) "onComplete w = None" "completeFromCqe a res s = Some s"
  | (settled) v where "onComplete w \<noteq> None" "onComplete v = None"
      "completeFromCqe a res s = Some (settle a w v s)"
proof (cases "onComplete w")
  case None
  with assms show thesis by (intro ignored) (simp_all add: completeFromCqe_def)
next
  case (Some fn)
  show thesis
  proof (cases fn)
    case RecvComplete
    have "completeFromCqe a res s = Some (settle a w
        ((if res > 0 then w\<lparr>op_result := res, op_data := take (nat res) (op_buf w)\<rparr>
          else w\<lparr>op_result := res\<rparr>)\<lparr>onComplete := None\<rparr>) s)"
      using assms Some RecvComplete
      by (simp add: completeFromCqe_def RecvOp_complete_def settle_def Let_def)
    with Some show thesis by (intro settled) auto
  next
    case WriteComplete
    have "completeFromCqe a res s = Some (settle a w (w\<lparr>op_result := res, onComplete := None\<rparr>) s)"
      using assms Some WriteComplete
      by (simp add: completeFromCqe_def WriteOp_complete_def settle_def Let_def)
    with Some show thesis by (intro settled) auto
  next
    case AcceptComplete
    have "completeFromCqe a res s = Some (settle a w (w\<lparr>op_result := res, onComplete := None\<rparr>) s)"
      using assms Some AcceptComplete
      by (simp add: completeFromCqe_def AcceptOp_complete_def settle_def Let_def)
    with Some show thesis by (intro settled) auto
  qed
qed

text \<open>Awaiting: the operation is queued, or aborted at once.\<close>

lemma suspend_op_cases:
  assumes "s1 = pending_add a fd (put_op a (v\<lparr>op_fd := fd, op_handle := Some h, onComplete := Some fn\<rparr>) s)"
  obtains (queue) "suspend_op a v fn fd prep h s = Some (s1\<lparr>sq := sq s1 @ [(a, prep)]\<rparr>)"
  | (abort) w w' where "op_mem s1 a = Some w" "op_handle w = Some h" "onComplete w = Some fn" "onComplete w' = None"
      "suspend_op a v fn fd prep h s = Some (settle a w w' s1)"
proof (cases "get_sqe a prep s1")
  case None
  define w where "w = v\<lparr>op_fd := fd, op_handle := Some h, onComplete := Some fn\<rparr>"
  have w: "op_mem s1 a = Some w"
    by (simp add: assms w_def)
  have "suspend_op a v fn fd prep h s = abortOp a (-1) s1"
    using None by (simp add: suspend_op_def Let_def flip: assms)
  also have "\<dots> = Some (settle a w (w\<lparr>op_result := -1, onComplete := None\<rparr>) s1)"
    by (rule abortOp_settle [OF w])
  finally have r: "suspend_op a v fn fd prep h s = \<dots>" .
  show thesis
    by (rule abort [OF w _ _ _ r]) (simp_all add: w_def)
next
  case (Some s2)
  then have "s2 = s1\<lparr>sq := sq s1 @ [(a, prep)]\<rparr>"
    by (simp add: get_sqe_def split: if_splits)
  moreover have "suspend_op a v fn fd prep h s = Some s2"
    using Some by (simp add: suspend_op_def Let_def flip: assms)
  ultimately show thesis
    using queue by simp
qed

lemma await_suspend_op:
  obtains v fn fd prep where "await aw a h s = suspend_op a v fn fd prep h s"
  by (cases aw) (auto simp: AsyncRecv_def AsyncSend_def AsyncConnect_def AsyncAccept_def
      AsyncShutdown_def AsyncRecvFrom_def AsyncSendTo_def)


section \<open>Preservation\<close>

lemma ur_invD:
  assumes "ur_inv s"
  shows "table_ok s" and "a \<in> queued s \<Longrightarrow> a \<noteq> 0" and "a \<in> queued s \<Longrightarrow> op_mem s a \<noteq> None"
    and "op_mem s a = Some v \<Longrightarrow> onComplete v \<noteq> None \<Longrightarrow> a \<in> queued s"
    and "op_mem s a = Some v \<Longrightarrow> onComplete v \<noteq> None \<Longrightarrow> \<exists>h. op_handle v = Some h \<and> h \<notin> frame_done s"
    and "waits s a h \<Longrightarrow> waits s b h \<Longrightarrow> a = b"
  using assms unfolding ur_inv_def by blast+

lemma ur_inv_init: "ur_inv (IoUring entries)"
  by (simp add: ur_inv_def table_ok_def live_ops_def IoUring_def queued_def waits_def)

text \<open>Replacing an object by a settled one.\<close>

lemma waits_settle: "onComplete v = None \<Longrightarrow> waits (settle a w v s) b h \<longleftrightarrow> b \<noteq> a \<and> waits s b h"
  by (auto simp: waits_def)

lemma ur_inv_settle:
  assumes "table_ok s" and "op_mem s a = Some w" and "onComplete v = None"
    and "\<forall>b \<in> queued s. b \<noteq> 0 \<and> op_mem s b \<noteq> None"
    and "\<forall>b u. b \<noteq> a \<longrightarrow> op_mem s b = Some u \<longrightarrow> onComplete u \<noteq> None \<longrightarrow>
        b \<in> queued s \<and> (\<exists>h. op_handle u = Some h \<and> h \<notin> frame_done s)"
    and "\<forall>b c h. waits s b h \<longrightarrow> waits s c h \<longrightarrow> b = c"
  shows "ur_inv (settle a w v s)"
proof -
  have q: "queued (settle a w v s) = queued s"
    by (simp add: queued_def)
  show ?thesis
    unfolding ur_inv_def q
  proof (intro conjI)
    show "table_ok (settle a w v s)"
      by (rule table_ok_settle [OF assms(1-3)])
    show "\<forall>b\<in>queued s. b \<noteq> 0 \<and> op_mem (settle a w v s) b \<noteq> None"
      using assms(4) by simp
    show "\<forall>b u. op_mem (settle a w v s) b = Some u \<longrightarrow> onComplete u \<noteq> None \<longrightarrow>
        b \<in> queued s \<and> (\<exists>h. op_handle u = Some h \<and> h \<notin> frame_done (settle a w v s))"
      using assms(3,5) by simp
    show "\<forall>b c h. waits (settle a w v s) b h \<longrightarrow> waits (settle a w v s) c h \<longrightarrow> b = c"
      unfolding waits_settle [OF assms(3)] using assms(6) by blast
  qed
qed

lemma ur_inv_await:
  assumes inv: "ur_inv s" and ok: "ur_allowed (EvAwait aw a h) s"
  obtains s' where "await aw a h s = Some s'" and "ur_inv s'"
proof -
  obtain v fn fd prep where await: "await aw a h s = suspend_op a v fn fd prep h s"
    by (rule await_suspend_op)
  let ?v = "v\<lparr>op_fd := fd, op_handle := Some h, onComplete := Some fn\<rparr>"
  define s1 where "s1 = pending_add a fd (put_op a ?v s)"
  have mem: "op_mem s1 = (op_mem s)(a \<mapsto> ?v)" and q1: "queued s1 = queued s"
    by (simp_all add: s1_def queued_def)
  have a: "a \<noteq> 0" "op_mem s a = None" "h \<notin> frame_done s" "\<not> waits s b h" for b
    using ok by auto
  have t1: "table_ok s1"
    unfolding s1_def by (rule table_ok_add) (use inv a in \<open>auto simp: ur_invD\<close>)
  have w1: "waits s1 b k \<longleftrightarrow> (if b = a then k = h else waits s b k)" for b k
    by (auto simp: waits_def mem)
  have uniq: "\<forall>b c k. waits s1 b k \<longrightarrow> waits s1 c k \<longrightarrow> b = c"
    using ur_invD(6) [OF inv] a by (auto simp: w1 split: if_splits)
  have queue: "\<forall>b \<in> queued s1. b \<noteq> 0 \<and> op_mem s1 b \<noteq> None"
    using ur_invD(2,3) [OF inv] by (auto simp: q1 mem)
  have live: "\<forall>b u. b \<noteq> a \<longrightarrow> op_mem s1 b = Some u \<longrightarrow> onComplete u \<noteq> None \<longrightarrow>
      b \<in> queued s1 \<and> (\<exists>h. op_handle u = Some h \<and> h \<notin> frame_done s1)"
    using ur_invD(4,5) [OF inv] by (simp add: q1 mem) (simp add: s1_def)
  show thesis
  proof (rule suspend_op_cases [OF s1_def, where prep = prep], goal_cases)
    case queue': 1
    let ?s = "s1\<lparr>sq := sq s1 @ [(a, prep)]\<rparr>"
    have "queued ?s = insert a (queued s1)"
      by (auto simp: queued_def)
    moreover have "table_ok ?s"
      using t1 by (rule iffD1 [OF table_ok_cong, rotated 2]) simp_all
    moreover have "waits ?s = waits s1"
      by (simp add: waits_def fun_eq_iff)
    moreover have "h \<notin> frame_done s1"
      using a(3) by (simp add: s1_def)
    ultimately have "ur_inv ?s"
      using queue live uniq a(1) by (auto simp: ur_inv_def mem)
    with queue' await show thesis
      by (intro that) simp_all
  next
    case abort: (2 w w')
    with ur_inv_settle [OF t1 abort(1) abort(4) queue live uniq] await show thesis
      by (intro that) simp_all
  qed
qed

lemma ur_inv_fill:
  assumes "ur_inv s" and "a \<in> fst ` set (inflight s)"
    and "s1 = fill_buf a buf (s\<lparr>inflight := drop_entry a (inflight s)\<rparr>)"
  obtains w where "op_mem s1 a = Some w" and "a \<noteq> 0" and "table_ok s1"
    and "onComplete w = None \<longrightarrow> ur_inv s1"
    and "\<forall>v. onComplete v = None \<longrightarrow> ur_inv (settle a w v s1)"
    and "\<forall>b h. waits s1 b h = waits s b h" and "resumed s1 = resumed s" and "frame_done s1 = frame_done s"
    and "onComplete w \<noteq> None \<longrightarrow> (\<exists>k. op_handle w = Some k \<and> k \<notin> frame_done s1)"
proof -
  have a: "a \<in> queued s"
    using assms(2) by (simp add: queued_def)
  then obtain u where u: "op_mem s a = Some u"
    using ur_invD(3) [OF assms(1)] by blast
  let ?w = "u\<lparr>op_buf := buf\<rparr>"
  have s1: "s1 = put_op a ?w (s\<lparr>inflight := drop_entry a (inflight s)\<rparr>)"
    using u by (simp add: assms(3) fill_buf_def)
  have mem: "op_mem s1 = (op_mem s)(a \<mapsto> ?w)" and tab: "byFd s1 = byFd s"
    by (simp_all add: s1)
  have q: "queued s1 \<subseteq> queued s" "queued s - {a} \<subseteq> queued s1"
    by (auto simp: queued_def s1 drop_entry_def)
  have l: "live_ops s1 = live_ops s"
    using u by (auto simp: live_ops_def mem fun_eq_iff)
  have t: "table_ok s1"
    using ur_invD(1) [OF assms(1)] by (simp add: table_ok_def l tab)
  have w: "\<forall>b h. waits s1 b h = waits s b h"
    using u by (auto simp: waits_def mem)
  have queue: "\<forall>b \<in> queued s1. b \<noteq> 0 \<and> op_mem s1 b \<noteq> None"
    using ur_invD(2,3) [OF assms(1)] q(1) by (auto simp: mem)
  have live: "\<forall>b u. b \<noteq> a \<longrightarrow> op_mem s1 b = Some u \<longrightarrow> onComplete u \<noteq> None \<longrightarrow>
      b \<in> queued s1 \<and> (\<exists>h. op_handle u = Some h \<and> h \<notin> frame_done s1)"
    using ur_invD(4,5) [OF assms(1)] q(2) by (auto simp: mem s1)
  have uniq: "\<forall>b c k. waits s1 b k \<longrightarrow> waits s1 c k \<longrightarrow> b = c"
    using ur_invD(6) [OF assms(1)] w by blast
  have a1: "op_mem s1 a = Some ?w"
    by (simp add: mem)
  show thesis
  proof (rule that [OF a1 _ t _ _ w])
    show "a \<noteq> 0"
      using ur_invD(2) [OF assms(1) a] .
    show "onComplete ?w = None \<longrightarrow> ur_inv s1"
    proof
      assume "onComplete ?w = None"
      have "b \<in> queued s1 \<and> (\<exists>h. op_handle x = Some h \<and> h \<notin> frame_done s1)"
        if "op_mem s1 b = Some x" "onComplete x \<noteq> None" for b x
        using live a1 that \<open>onComplete ?w = None\<close> by (cases "b = a") auto
      with t queue uniq show "ur_inv s1"
        by (simp add: ur_inv_def)
    qed
    show "\<forall>v. onComplete v = None \<longrightarrow> ur_inv (settle a ?w v s1)"
      using ur_inv_settle [OF t a1 _ queue live uniq] by blast
    show "onComplete ?w \<noteq> None \<longrightarrow> (\<exists>k. op_handle ?w = Some k \<and> k \<notin> frame_done s1)"
      using ur_invD(5) [OF assms(1) u] by (simp add: s1)
  qed (simp_all add: s1)
qed

text \<open>What has become of the waits of a handle: resumed, or still waiting.\<close>

definition balance :: "uring \<Rightarrow> nat \<Rightarrow> nat" where
  "balance s h = count_list (resumed s) h + (if \<exists>a. waits s a h then 1 else 0)"

definition awaits :: "ur_event \<Rightarrow> nat \<Rightarrow> nat" where
  "awaits e h = (case e of EvAwait aw a k \<Rightarrow> if k = h then 1 else 0 | _ \<Rightarrow> 0)"

lemma balance_cong:
  "\<forall>b h. waits s' b h = waits s b h \<Longrightarrow> resumed s' = resumed s \<Longrightarrow> balance s' h = balance s h"
  by (simp add: balance_def)

lemma resumed_settle:
  "op_handle w = Some k \<Longrightarrow> k \<notin> frame_done s \<Longrightarrow> resumed (settle a w v s) = resumed s @ [k]"
  by (simp add: settle_def wake_def)

lemma balance_settle:
  assumes "op_mem s a = Some w" and "onComplete w \<noteq> None" and "onComplete v = None"
    and "op_handle w = Some k" and "k \<notin> frame_done s"
    and "\<forall>b c h. waits s b h \<longrightarrow> waits s c h \<longrightarrow> b = c"
  shows "balance (settle a w v s) h = balance s h"
proof -
  have "waits s a k"
    using assms(1,2,4) by (simp add: waits_def)
  moreover have "waits s a h \<Longrightarrow> h = k"
    using assms(1,4) by (auto simp: waits_def)
  ultimately have "(\<exists>b. waits s b h) \<longleftrightarrow> h = k \<or> (\<exists>b. b \<noteq> a \<and> waits s b h)" and "\<not> (\<exists>b. b \<noteq> a \<and> waits s b k)"
    using assms(6) by metis+
  then show ?thesis
    by (auto simp: balance_def resumed_settle [OF assms(4,5)] waits_settle [OF assms(3)])
qed

definition step_ok :: "ur_event \<Rightarrow> uring \<Rightarrow> bool" where
  "step_ok e s \<longleftrightarrow> (\<exists>s'. ur_apply e s = Some s' \<and> ur_inv s' \<and>
     (\<forall>h. balance s' h + (if cancels e s h then 1 else 0) = balance s h + awaits e h))"

lemma step_okI:
  "ur_apply e s = Some s' \<Longrightarrow> ur_inv s' \<Longrightarrow>
   (\<And>h. balance s' h + (if cancels e s h then 1 else 0) = balance s h + awaits e h) \<Longrightarrow> step_ok e s"
  by (auto simp: step_ok_def)

lemma cancels_only [simp]:
  "\<not> cancels (EvAwait aw a k) s h" "\<not> cancels EvSubmit s h" "\<not> cancels (EvCqe a res buf) s h"
  "\<not> cancels (EvFinish k) s h" "\<not> cancels (EvDestroy a) s h"
  by (simp_all add: cancels_def)

lemma awaits_only [simp]:
  "awaits EvSubmit h = 0" "awaits (EvCqe a res buf) h = 0" "awaits (EvCancel fd) h = 0"
  "awaits (EvFinish k) h = 0" "awaits (EvDestroy a) h = 0"
  by (simp_all add: awaits_def)

lemma step_cqe:
  assumes inv: "ur_inv s" and ok: "ur_allowed (EvCqe a res buf) s"
  shows "step_ok (EvCqe a res buf) s"
proof -
  define s1 where "s1 = fill_buf a buf (s\<lparr>inflight := drop_entry a (inflight s)\<rparr>)"
  have infl: "a \<in> fst ` set (inflight s)"
    using ok by simp
  have ap: "ur_apply (EvCqe a res buf) s = completeFromCqe a res s1"
    by (simp add: s1_def)
  obtain w where w: "op_mem s1 a = Some w" "a \<noteq> 0" and idle: "onComplete w = None \<longrightarrow> ur_inv s1"
    and dead: "\<forall>v. onComplete v = None \<longrightarrow> ur_inv (settle a w v s1)"
    and same: "\<forall>b h. waits s1 b h = waits s b h" "resumed s1 = resumed s" "frame_done s1 = frame_done s"
    and handle: "onComplete w \<noteq> None \<longrightarrow> (\<exists>k. op_handle w = Some k \<and> k \<notin> frame_done s1)"
    by (rule ur_inv_fill [OF inv infl s1_def]) (rule that, assumption+)
  show ?thesis
  proof (cases rule: completeFromCqe_cases [OF w(2,1), of res])
    case 1
    with idle balance_cong [OF same(1,2)] ap show ?thesis
      by (intro step_okI [where s' = s1]) simp_all
  next
    case (2 v)
    obtain k where k: "op_handle w = Some k" and "k \<notin> frame_done s1"
      using handle 2(1) by blast
    note this(2)
    moreover have "\<forall>b c h. waits s1 b h \<longrightarrow> waits s1 c h \<longrightarrow> b = c"
      using same(1) ur_invD(6) [OF inv] by blast
    ultimately have "balance (settle a w v s1) h = balance s h" for h
      using balance_settle [OF w(1) 2(1,2) k, of h] balance_cong [OF same(1,2), of h] by simp
    with 2 dead ap show ?thesis
      by (intro step_okI [where s' = "settle a w v s1"]) simp_all
  qed
qed

lemma step_await:
  assumes inv: "ur_inv s" and ok: "ur_allowed (EvAwait aw a h) s"
  shows "step_ok (EvAwait aw a h) s"
proof -
  obtain v fn fd prep where await: "await aw a h s = suspend_op a v fn fd prep h s"
    by (rule await_suspend_op)
  define s1 where
    "s1 = pending_add a fd (put_op a (v\<lparr>op_fd := fd, op_handle := Some h, onComplete := Some fn\<rparr>) s)"
  obtain s' where s': "await aw a h s = Some s'" "ur_inv s'"
    by (rule ur_inv_await [OF assms])
  have w1: "waits s1 b k \<longleftrightarrow> (if b = a then k = h else waits s b k)" for b k
    using ok by (auto simp: waits_def s1_def)
  have uniq: "\<forall>b c k. waits s1 b k \<longrightarrow> waits s1 c k \<longrightarrow> b = c"
    using ur_invD(6) [OF inv] ok by (auto simp: w1 split: if_splits)
  have "\<not> waits s a k" for k
    using ok by (simp add: waits_def)
  then have "(\<exists>b. waits s1 b k) \<longleftrightarrow> k = h \<or> (\<exists>b. waits s b k)" for k
    unfolding w1 by metis
  then have b1: "balance s1 k = balance s k + awaits (EvAwait aw a h) k" for k
    using ok by (auto simp: balance_def awaits_def) (simp_all add: s1_def)
  have "balance s' k = balance s1 k" for k
  proof (rule suspend_op_cases [OF s1_def, where prep = prep], goal_cases)
    case 1
    with s'(1) await have "s' = s1\<lparr>sq := sq s1 @ [(a, prep)]\<rparr>"
      by simp
    then show ?thesis
      by (simp add: balance_def waits_def)
  next
    case (2 w w')
    with s'(1) await have "s' = settle a w w' s1"
      by simp
    moreover have "h \<notin> frame_done s1"
      using ok by (simp add: s1_def)
    ultimately show ?thesis
      using balance_settle [OF 2(1) _ 2(4) 2(2) _ uniq] 2(3) by simp
  qed
  with s' b1 show ?thesis
    by (intro step_okI [where s' = s']) simp_all
qed

lemma waits_cancel:
  assumes "table_ok s" and "0 \<le> fd" and "cancelFd fd s = Some s'"
  shows "waits s' a h \<longleftrightarrow> waits s a h \<and> a \<notin> live_ops s fd"
  using assms by (auto simp: cancelFd_def table_okD waits_def split: if_splits)

lemma step_cancel:
  assumes inv: "ur_inv s"
  shows "step_ok (EvCancel fd) s"
proof (cases "fd < 0 \<or> live_ops s fd = {}")
  case True
  then have "cancelFd fd s = Some s"
    by (auto simp: cancelFd_def table_okD [OF ur_invD(1) [OF inv]])
  moreover have "\<not> cancels (EvCancel fd) s h" for h
    using True by (fastforce simp: cancels_def live_ops_def)
  ultimately show ?thesis
    using inv by (intro step_okI [where s' = s]) simp_all
next
  case False
  let ?A = "live_ops s fd"
  define s' where "s' = s\<lparr>op_mem := (\<lambda>a. if a \<in> ?A
      then map_option (\<lambda>v. v\<lparr>onComplete := None, op_handle := None\<rparr>) (op_mem s a) else op_mem s a),
    byFd := (byFd s)(fd := None)\<rparr>"
  have c: "cancelFd fd s = Some s'"
  proof -
    have "\<not> (\<exists>a \<in> ?A. op_mem s a = None)"
      by (auto simp: live_ops_def)
    with False show ?thesis
      by (simp add: cancelFd_def table_okD [OF ur_invD(1) [OF inv]] s'_def)
  qed
  have l: "live_ops s' fd' = (if fd' = fd then {} else live_ops s fd')" for fd'
    by (auto simp: live_ops_def s'_def split: if_splits)
  have "byFd s' fd' = (if fd' = fd then None else byFd s fd')" for fd'
    by (simp add: s'_def)
  then have "table_ok s'"
    by (simp add: table_ok_def l table_okD [OF ur_invD(1) [OF inv]])
  moreover have q: "queued s' = queued s"
    by (simp add: queued_def s'_def)
  moreover have w: "waits s' a h \<longleftrightarrow> waits s a h \<and> a \<notin> ?A" for a h
    using False by (intro waits_cancel [OF ur_invD(1) [OF inv] _ c]) simp
  moreover have "op_mem s' a = Some v \<Longrightarrow> onComplete v \<noteq> None \<Longrightarrow> op_mem s a = Some v" for a v
    by (auto simp: s'_def split: if_splits)
  moreover have "op_mem s' a = None \<longleftrightarrow> op_mem s a = None" for a
    by (simp add: s'_def)
  moreover have "frame_done s' = frame_done s"
    by (simp add: s'_def)
  ultimately have inv': "ur_inv s'"
    using inv unfolding ur_inv_def by metis
  have "balance s' h + (if cancels (EvCancel fd) s h then 1 else 0) = balance s h" for h
  proof -
    have "cancels (EvCancel fd) s h \<longleftrightarrow> (\<exists>a \<in> ?A. waits s a h)"
      using False unfolding cancels_def live_ops_def waits_def by fastforce
    then show ?thesis
      using ur_invD(6) [OF inv] by (auto simp: balance_def w) (auto simp: s'_def)
  qed
  with c inv' show ?thesis
    by (intro step_okI [where s' = s']) simp_all
qed

lemma waits_running: "ur_inv s \<Longrightarrow> waits s a h \<Longrightarrow> h \<notin> frame_done s"
  using ur_invD(5) [of s a] by (fastforce simp: waits_def)

lemma ur_inv_other:
  assumes "ur_inv s" and "op_mem s' = op_mem s" and "byFd s' = byFd s" and "queued s' = queued s"
    and "\<forall>a h. waits s a h \<longrightarrow> h \<notin> frame_done s'"
  shows "ur_inv s'"
proof -
  have "waits s' = waits s"
    using assms(2) by (simp add: waits_def fun_eq_iff)
  moreover have "h \<notin> frame_done s'" if "op_mem s a = Some v" "onComplete v \<noteq> None" "op_handle v = Some h" for a v h
    using assms(5) that by (auto simp: waits_def)
  moreover have "table_ok s'"
    using table_ok_cong [of s' s] ur_invD(1) [OF assms(1)] assms(2,3) by simp
  ultimately show ?thesis
    using assms(1,2,4) unfolding ur_inv_def by metis
qed

lemma step_plain:
  assumes inv: "ur_inv s" and ok: "ur_allowed e s" and e: "e = EvSubmit \<or> (\<exists>h. e = EvFinish h)"
  shows "step_ok e s"
proof -
  obtain s' where s': "ur_apply e s = Some s'" "op_mem s' = op_mem s" "byFd s' = byFd s" "queued s' = queued s"
      "resumed s' = resumed s" "\<forall>a h. waits s a h \<longrightarrow> h \<notin> frame_done s'"
  proof (cases "e = EvSubmit")
    case True
    then show thesis
      using waits_running [OF inv]
      by (intro that [of "submitAndWait s"]) (auto simp: submitAndWait_def queued_def)
  next
    case False
    with e obtain k where "e = EvFinish k" by blast
    then show thesis
      using waits_running [OF inv] ok
      by (intro that [of "s\<lparr>frame_done := insert k (frame_done s)\<rparr>"]) (auto simp: queued_def)
  qed
  moreover have "balance s' h = balance s h" for h
    using s'(2,5) by (intro balance_cong) (simp_all add: waits_def)
  ultimately show ?thesis
    using ur_inv_other [OF inv s'(2-4,6)] e by (intro step_okI [where s' = s']) auto
qed

lemma step_destroy:
  assumes inv: "ur_inv s" and ok: "a \<notin> queued s"
  shows "step_ok (EvDestroy a) s"
proof -
  define s' where "s' = s\<lparr>op_mem := (op_mem s)(a := None)\<rparr>"
  have idle: "op_mem s a = Some v \<Longrightarrow> onComplete v = None" for v
    using ur_invD(4) [OF inv] ok by blast
  have l: "live_ops s' = live_ops s"
    using idle by (fastforce simp: live_ops_def s'_def fun_eq_iff)
  have w: "waits s' b h = waits s b h" for b h
    by (cases "b = a") (auto simp: waits_def s'_def dest: idle)
  have "queued s' = queued s" "frame_done s' = frame_done s" "byFd s' = byFd s"
    by (simp_all add: queued_def s'_def)
  moreover have "\<forall>b. b \<noteq> a \<longrightarrow> op_mem s' b = op_mem s b" "op_mem s' a = None"
    by (simp_all add: s'_def)
  moreover have "table_ok s'"
    using ur_invD(1) [OF inv] by (simp add: table_ok_def l) (simp add: s'_def)
  ultimately have "ur_inv s'"
    using inv ok unfolding ur_inv_def w by (metis option.distinct(1))
  moreover have "balance s' h = balance s h" for h
    by (simp add: balance_def w) (simp add: s'_def)
  ultimately show ?thesis
    by (intro step_okI [where s' = s']) (simp_all add: s'_def)
qed

lemma step_ok_allowed:
  assumes "ur_inv s" and "ur_allowed e s"
  shows "step_ok e s"
proof (cases e)
  case (EvCqe a res buf)
  with assms step_cqe show ?thesis by blast
next
  case (EvDestroy a)
  with assms step_destroy show ?thesis by simp
qed (use assms step_await step_cancel step_plain in blast)+

lemma ur_reach_inv: "ur_reach entries es lost s \<Longrightarrow> ur_inv s"
proof (induction rule: ur_reach.induct)
  case (ur_reach_step es lost s e s')
  with step_ok_allowed [OF ur_reach_step.IH ur_reach_step.hyps(2)] show ?case
    by (auto simp: step_ok_def)
qed (rule ur_inv_init)

section \<open>Properties\<close>



text \<open>C26: A wait is resumed at most once, and exactly once unless it was cancelled: for every
coroutine, the number of operations it has awaited is the number of times it was resumed, plus one
if it is waiting now, plus the number of its waits that \<open>cancelFd\<close> cancelled (those never wake).\<close>

theorem resumed_exactly_once:
  assumes "ur_reach entries es lost s"
  shows "sum_list (map (\<lambda>e. awaits e h) es) =
    count_list (resumed s) h + (if \<exists>a. waits s a h then 1 else 0) + lost h"
proof -
  have "sum_list (map (\<lambda>e. awaits e h) es) = balance s h + lost h"
    using assms
  proof (induction rule: ur_reach.induct)
    case ur_reach_init
    then show ?case by (simp add: balance_def IoUring_def waits_def)
  next
    case (ur_reach_step es lost s e s')
    have "step_ok e s"
      by (rule step_ok_allowed [OF ur_reach_inv [OF ur_reach_step.hyps(1)] ur_reach_step.hyps(2)])
    then have "balance s' h + (if cancels e s h then 1 else 0) = balance s h + awaits e h"
      using ur_reach_step.hyps(3) by (auto simp: step_ok_def)
    with ur_reach_step.IH show ?case
      by simp
  qed
  then show ?thesis
    by (simp add: balance_def)
qed

lemma resumed_exactly_once_witness:
  "\<exists>lost s. ur_reach 0 [EvAwait (ARecv 5 4096) 100 1] lost s \<and>
     sum_list (map (\<lambda>e. awaits e 1) [EvAwait (ARecv 5 4096) 100 1]) =
       count_list (resumed s) 1 + (if \<exists>a. waits s a 1 then 1 else 0) + lost 1"
proof -
  obtain lost s1 where r1: "ur_reach 0 ([] @ [EvAwait (ARecv 5 4096) 100 1]) lost s1"
    using ur_reach_step [OF ur_reach_init, of "EvAwait (ARecv 5 4096) 100 1" 0]
    by (auto simp: IoUring_def waits_def AsyncRecv_def suspend_op_def Let_def get_sqe_def
        put_op_def pending_add_def abortOp_def)
  from resumed_exactly_once [OF r1, of 1] r1 show ?thesis
    by auto
qed

end
