(* ===== verification/Ring.thy ===== *)
theory Ring
  imports Uring_Ops
begin

text \<open>
  The class \<open>IoUring\<close> (src/net/io_uring.cpp): who owns an initialised ring when its owners are
  moved and assigned, and the loop over the completion queue. The other theories have one ring per
  thread and take its completions one by one.
\<close>

section \<open>The owner of a ring\<close>

text \<open>
  \<open>ro_ring\<close> maps the objects that exist to their \<open>ring_\<close>; rings are numbered in the order of their
  initialisation, and \<open>ro_exited\<close> lists the calls of \<open>io_uring_queue_exit\<close>.
\<close>

record ring_objects =
  ro_ring :: "nat \<Rightarrow> nat option option"
  ro_next :: nat
  ro_exited :: "nat list"

definition ring_objects_init :: ring_objects where
  "ring_objects_init = \<lparr>ro_ring = (\<lambda>_. None), ro_next = 0, ro_exited = []\<rparr>"

text \<open>The constructor; \<open>ok\<close> is whether \<open>io_uring_queue_init_params\<close> succeeds. The exception leaves no object.\<close>

definition ring_create :: "bool \<Rightarrow> nat \<Rightarrow> ring_objects \<Rightarrow> (exn + unit) \<times> ring_objects" where
  "ring_create ok i s =
     (if ok then (Inr (), s\<lparr>ro_ring := (ro_ring s)(i \<mapsto> Some (ro_next s)), ro_next := ro_next s + 1\<rparr>)
      else (Inl (RuntimeError ''io_uring_queue_init_params failed''), s))"

definition ring_exit :: "nat option \<Rightarrow> ring_objects \<Rightarrow> ring_objects" where
  "ring_exit r s = (case r of None \<Rightarrow> s | Some r \<Rightarrow> s\<lparr>ro_exited := ro_exited s @ [r]\<rparr>)"

definition ring_of :: "nat \<Rightarrow> ring_objects \<Rightarrow> nat option" where
  "ring_of i s = Option.bind (ro_ring s i) id"

definition ring_destroy :: "nat \<Rightarrow> ring_objects \<Rightarrow> ring_objects" where
  "ring_destroy i s = (ring_exit (ring_of i s) s)\<lparr>ro_ring := (ro_ring s)(i := None)\<rparr>"

definition ring_move :: "nat \<Rightarrow> nat \<Rightarrow> ring_objects \<Rightarrow> ring_objects" where
  "ring_move this other s = s\<lparr>ro_ring := (ro_ring s)(this \<mapsto> ring_of other s, other \<mapsto> None)\<rparr>"

definition ring_assign :: "nat \<Rightarrow> nat \<Rightarrow> ring_objects \<Rightarrow> ring_objects" where
  "ring_assign this other s =
     (if this \<noteq> other
      then (ring_exit (ring_of this s) s)\<lparr>ro_ring := (ro_ring s)(this \<mapsto> ring_of other s, other \<mapsto> None)\<rparr>
      else s)"

text \<open>What a program can do with ring objects.\<close>

inductive ring_step :: "ring_objects \<Rightarrow> ring_objects \<Rightarrow> bool" where
  create: "ro_ring s i = None \<Longrightarrow> ring_step s (snd (ring_create ok i s))"
| move: "ro_ring s this = None \<Longrightarrow> ro_ring s other \<noteq> None \<Longrightarrow> ring_step s (ring_move this other s)"
| assign: "ro_ring s this \<noteq> None \<Longrightarrow> ro_ring s other \<noteq> None \<Longrightarrow> ring_step s (ring_assign this other s)"
| destroy: "ro_ring s i \<noteq> None \<Longrightarrow> ring_step s (ring_destroy i s)"

text \<open>Every ring ever initialised is owned by exactly one object or was exited exactly once.\<close>

definition rings_owned :: "ring_objects \<Rightarrow> bool" where
  "rings_owned s \<longleftrightarrow>
     (\<forall>i j r. ring_of i s = Some r \<longrightarrow> ring_of j s = Some r \<longrightarrow> i = j) \<and> distinct (ro_exited s) \<and>
     (\<forall>r. r < ro_next s \<longleftrightarrow> r \<in> set (ro_exited s) \<or> (\<exists>i. ring_of i s = Some r)) \<and>
     (\<forall>i. \<forall>r \<in> set (ro_exited s). ring_of i s \<noteq> Some r)"

lemma rings_ownedI:
  assumes "\<And>i j r. ring_of i s = Some r \<Longrightarrow> ring_of j s = Some r \<Longrightarrow> i = j" and "distinct (ro_exited s)"
    and "\<And>r. r < ro_next s \<longleftrightarrow> r \<in> set (ro_exited s) \<or> (\<exists>i. ring_of i s = Some r)"
    and "\<And>i r. r \<in> set (ro_exited s) \<Longrightarrow> ring_of i s \<noteq> Some r"
  shows "rings_owned s"
  using assms unfolding rings_owned_def by blast

lemma ring_exit_simps [simp]:
  "ro_ring (ring_exit r s) = ro_ring s" "ro_next (ring_exit r s) = ro_next s"
  "ro_exited (ring_exit r s) = ro_exited s @ (case r of None \<Rightarrow> [] | Some r \<Rightarrow> [r])"
  by (simp_all add: ring_exit_def split: option.split)

text \<open>The three operations on existing objects: \<open>i\<close> gives up its ring, or passes it to \<open>j\<close>.\<close>

lemma rings_owned_release:
  assumes "rings_owned s" and v: "v = None \<or> v = Some None"
  shows "rings_owned ((ring_exit (ring_of i s) s)\<lparr>ro_ring := (ro_ring s)(i := v)\<rparr>)"
proof (rule rings_ownedI; (elim exE)?)
  let ?s = "(ring_exit (ring_of i s) s)\<lparr>ro_ring := (ro_ring s)(i := v)\<rparr>"
  have of: "ring_of j ?s = (if j = i then None else ring_of j s)" for j
    using v by (auto simp: ring_of_def)
  show "j = k" if "ring_of j ?s = Some r" "ring_of k ?s = Some r" for j k r
    using that assms unfolding of rings_owned_def by (auto split: if_splits)
  show "distinct (ro_exited ?s)"
    using assms by (auto simp: rings_owned_def split: option.split)
  show "r < ro_next ?s \<longleftrightarrow> r \<in> set (ro_exited ?s) \<or> (\<exists>j. ring_of j ?s = Some r)" for r
  proof -
    have "(\<exists>j. ring_of j s = Some r) \<longleftrightarrow> ring_of i s = Some r \<or> (\<exists>j. j \<noteq> i \<and> ring_of j s = Some r)"
      by metis
    then have "(\<exists>j. ring_of j s = Some r) \<longleftrightarrow> ring_of i s = Some r \<or> (\<exists>j. ring_of j ?s = Some r)"
      by (auto simp: of split: if_splits)
    with assms(1) show ?thesis
      by (cases "ring_of i s") (auto simp: rings_owned_def)
  qed
  show "ring_of j ?s \<noteq> Some r" if "r \<in> set (ro_exited ?s)" for j r
    using that assms unfolding of rings_owned_def by (cases "ring_of i s") auto
qed

lemma rings_owned_transfer:
  assumes "rings_owned s" and "ring_of i s = None" and "i \<noteq> j"
  shows "rings_owned (s\<lparr>ro_ring := (ro_ring s)(i \<mapsto> ring_of j s, j \<mapsto> None)\<rparr>)"
proof (rule rings_ownedI)
  let ?s = "s\<lparr>ro_ring := (ro_ring s)(i \<mapsto> ring_of j s, j \<mapsto> None)\<rparr>"
  have of: "ring_of k ?s = (if k = i then ring_of j s else if k = j then None else ring_of k s)" for k
    using assms(3) by (auto simp: ring_of_def)
  show "k = l" if "ring_of k ?s = Some r" "ring_of l ?s = Some r" for k l r
    using that assms(1) unfolding of rings_owned_def by (auto split: if_splits)
  show "distinct (ro_exited ?s)"
    using assms(1) by (simp add: rings_owned_def)
  have "(\<exists>k. ring_of k ?s = Some r) \<longleftrightarrow> (\<exists>k. ring_of k s = Some r)" for r
    unfolding of using assms(2) by (metis option.distinct(1))
  then show "r < ro_next ?s \<longleftrightarrow> r \<in> set (ro_exited ?s) \<or> (\<exists>k. ring_of k ?s = Some r)" for r
    using assms(1) by (simp add: rings_owned_def)
  show "ring_of k ?s \<noteq> Some r" if "r \<in> set (ro_exited ?s)" for k r
    using that assms(1) unfolding of by (simp add: rings_owned_def)
qed

lemma rings_owned_create:
  assumes "rings_owned s" and "ring_of i s = None"
  shows "rings_owned (snd (ring_create True i s))"
proof (rule rings_ownedI)
  let ?s = "snd (ring_create True i s)"
  have of: "ring_of k ?s = (if k = i then Some (ro_next s) else ring_of k s)" for k
    by (simp add: ring_create_def ring_of_def)
  have fresh: "ring_of k s \<noteq> Some (ro_next s)" "ro_next s \<notin> set (ro_exited s)" for k
    using assms(1) unfolding rings_owned_def by blast+
  show "k = l" if "ring_of k ?s = Some r" "ring_of l ?s = Some r" for k l r
    using that assms(1) fresh unfolding of rings_owned_def by (auto split: if_splits)
  show "distinct (ro_exited ?s)"
    using assms(1) by (simp add: rings_owned_def ring_create_def)
  have "(\<exists>k. ring_of k ?s = Some r) \<longleftrightarrow> r = ro_next s \<or> (\<exists>k. ring_of k s = Some r)" for r
    unfolding of using assms(2) by (metis option.distinct(1) option.inject)
  then show "r < ro_next ?s \<longleftrightarrow> r \<in> set (ro_exited ?s) \<or> (\<exists>k. ring_of k ?s = Some r)" for r
    using assms(1) by (simp add: rings_owned_def ring_create_def less_Suc_eq) blast
  show "ring_of k ?s \<noteq> Some r" if "r \<in> set (ro_exited ?s)" for k r
    using that assms(1) fresh unfolding of rings_owned_def by (auto simp: ring_create_def)
qed

lemma rings_owned_step: "ring_step s s' \<Longrightarrow> rings_owned s \<Longrightarrow> rings_owned s'"
proof (induction rule: ring_step.induct)
  case (create s i ok)
  then show ?case
    using rings_owned_create [of s i] by (cases ok) (simp_all add: ring_of_def ring_create_def)
next
  case (move s this other)
  then show ?case
    unfolding ring_move_def by (intro rings_owned_transfer) (auto simp: ring_of_def)
next
  case (assign s this other)
  show ?case
  proof (cases "this = other")
    case False
    let ?s = "(ring_exit (ring_of this s) s)\<lparr>ro_ring := (ro_ring s)(this := Some None)\<rparr>"
    have "rings_owned ?s"
      by (rule rings_owned_release [OF assign(3)]) simp
    then have "rings_owned (?s\<lparr>ro_ring := (ro_ring ?s)(this \<mapsto> ring_of other ?s, other \<mapsto> None)\<rparr>)"
      by (rule rings_owned_transfer) (use False in \<open>simp_all add: ring_of_def\<close>)
    then show ?thesis
      using False by (simp add: ring_assign_def ring_of_def)
  qed (use assign in \<open>simp add: ring_assign_def\<close>)
next
  case (destroy s i)
  then show ?case
    unfolding ring_destroy_def by (intro rings_owned_release) simp_all
qed

text \<open>
  Whatever a program does with ring objects, moves and self-assignments included, no ring is exited
  twice or used by two objects, and when all objects are gone every ring has been exited, once.
\<close>

lemma ring_ownership:
  assumes "ring_step\<^sup>*\<^sup>* ring_objects_init s"
  shows "rings_owned s \<and>
    ((\<forall>i. ro_ring s i = None) \<longrightarrow> distinct (ro_exited s) \<and> set (ro_exited s) = {..<ro_next s})"
proof -
  have "rings_owned s"
    using assms
  proof (induction rule: rtranclp_induct)
    case base
    then show ?case by (simp add: rings_owned_def ring_objects_init_def ring_of_def)
  qed (auto intro: rings_owned_step)
  then show ?thesis
    by (auto simp: rings_owned_def ring_of_def)
qed

section \<open>The completion queue\<close>

text \<open>
  \<open>io_uring_for_each_cqe\<close>: the queue is read from its head; the tail is read anew in every turn, so
  completions that are posted while a callback runs are processed as well. Entries stay in the queue
  until \<open>io_uring_cq_advance\<close>. The callback gives its new state and what was posted meanwhile.
\<close>

type_synonym cqe = "int \<times> 32 word \<times> nat"

partial_function (option) for_each_cqe ::
  "(cqe \<Rightarrow> 'a \<Rightarrow> 'a \<times> cqe list) \<Rightarrow> nat \<Rightarrow> cqe list \<Rightarrow> 'a \<Rightarrow> (nat \<times> cqe list \<times> 'a) option" where
  "for_each_cqe callback count cq s =
     (if count < length cq
      then (case callback (cq ! count) s of (s, posted) \<Rightarrow> for_each_cqe callback (count + 1) (cq @ posted) s)
      else Some (count, cq, s))"

definition processCompletions ::
  "bool \<Rightarrow> (cqe \<Rightarrow> 'a \<Rightarrow> 'a \<times> cqe list) \<Rightarrow> cqe list \<Rightarrow> 'a \<Rightarrow> (cqe list \<times> 'a) option" where
  "processCompletions has_ring callback cq s =
     (if \<not> has_ring then Some (cq, s)
      else case for_each_cqe callback 0 cq s of
        None \<Rightarrow> None
      | Some (count, cq, s) \<Rightarrow> Some (drop count cq, s))"

text \<open>Reference: take completions from the front of a queue until it is empty, at most \<open>n\<close>.\<close>

fun consume :: "nat \<Rightarrow> (cqe \<Rightarrow> 'a \<Rightarrow> 'a \<times> cqe list) \<Rightarrow> cqe list \<Rightarrow> 'a \<Rightarrow> 'a option" where
  "consume n callback [] s = Some s"
| "consume 0 callback (c # cq) s = None"
| "consume (Suc n) callback (c # cq) s =
     (case callback c s of (s, posted) \<Rightarrow> consume n callback (cq @ posted) s)"

lemma for_each_cqe_consume:
  "consume n callback cq s = Some s' \<Longrightarrow>
    \<exists>all. for_each_cqe callback (length old) (old @ cq) s = Some (length all, all, s')"
proof (induction n callback cq s arbitrary: old rule: consume.induct)
  case (1 n callback s)
  then show ?case by (subst for_each_cqe.simps) simp
next
  case (3 n callback c cq s)
  obtain t posted where cb: "callback c s = (t, posted)"
    by fastforce
  with 3(2) have "consume n callback (cq @ posted) t = Some s'"
    by simp
  from 3(1) [OF cb [symmetric] this, of "old @ [c]"]
  show ?case
    by (subst for_each_cqe.simps) (simp add: cb)
qed simp

text \<open>
  Every completion, also of those posted meanwhile, is handed to the callback exactly once and in
  order, and the queue is empty afterwards, provided the posting ends.
\<close>

lemma processCompletions_consume:
  assumes "consume n callback cq s = Some s'"
  shows "processCompletions True callback cq s = Some ([], s')"
  using for_each_cqe_consume [OF assms, of "[]"] by (auto simp: processCompletions_def)

lemma consume_quiet:
  "(\<And>c s. snd (callback c s) = []) \<Longrightarrow>
    consume (length cq) callback cq s = Some (fold (\<lambda>c s. fst (callback c s)) cq s)"
proof (induction cq arbitrary: s)
  case (Cons c cq)
  then show ?case by (cases "callback c s") (metis append_Nil2 consume.simps(3) fold_simps(2) fst_conv length_Cons prod.case snd_conv)
qed simp

text \<open>The callback of \<open>EventLoop::run\<close> hands a batch of completions to \<open>completeFromCqe\<close>, in the order of the queue;
what the coroutines do that it resumes are the steps \<open>next\<close>.\<close>

definition loop_callback :: "(nat \<Rightarrow> uring \<Rightarrow> uring option) \<Rightarrow> cqe \<Rightarrow> uring option \<Rightarrow> uring option \<times> cqe list" where
  "loop_callback next c s =
     (case c of (result, flags, userData) \<Rightarrow>
        (Option.bind (Option.bind s (completeFromCqe userData result)) (next userData), []))"

lemma loop_dispatches_batch:
  "processCompletions True (loop_callback next) cq s =
    Some ([], fold (\<lambda>(result, flags, userData) s.
      Option.bind (Option.bind s (completeFromCqe userData result)) (next userData)) cq s)"
proof -
  have "consume (length cq) (loop_callback next) cq s = Some (fold (\<lambda>c s. fst (loop_callback next c s)) cq s)"
    by (rule consume_quiet) (simp add: loop_callback_def split: prod.split)
  moreover have "(\<lambda>c s. fst (loop_callback next c s)) = (\<lambda>(result, flags, userData) s.
      Option.bind (Option.bind s (completeFromCqe userData result)) (next userData))"
    by (intro ext) (simp add: loop_callback_def split: prod.split)
  ultimately show ?thesis
    using processCompletions_consume by fastforce
qed

end
