(* ===== verification/Server_Vision.thy ===== *)
theory Server_Vision
  imports Server_Props Vision_Props
begin

text \<open>
  A session with the Vision flow on the server: what the client's Vision frames become on the way to
  the target, whatever the receives, and what the target's data becomes on the way back. The TLS
  state that both directions share is arbitrary at each call.
\<close>

lemma vision_fields [simp]:
  "vc_net (s\<lparr>visionWriter := vw\<rparr>) = vc_net s" "vc_net (s\<lparr>visionReader := vr\<rparr>) = vc_net s"
  "vc_net (s\<lparr>visionCtx := ctx\<rparr>) = vc_net s"
  "visionWriter (set_net w s) = visionWriter s" "visionReader (set_net w s) = visionReader s"
  "visionCtx (set_net w s) = visionCtx s"
  by (simp_all add: vc_net_def set_net_def)

section \<open>Target to client\<close>

lemma vision_pad_process:
  "vision_pad E data s =
     (case vw_process (se_uni E) data (visionWriter s) (visionCtx s) of
        (out, w, ctx) \<Rightarrow> (out, s\<lparr>visionWriter := w, visionCtx := ctx\<rparr>))"
  by (simp add: vision_pad_def vw_process_def [of _ _ "visionWriter s"])

lemma vw_process_nonempty:
  assumes "d \<noteq> []" and "writer_ok w" and "vw_process uni d w ctx = (f, w', ctx')"
  shows "f \<noteq> [] \<and> writer_ok w'"
proof (cases "isPadding w")
  case True
  show ?thesis
    by (rule vw_process_frame [OF assms(1) True assms(2,3)]) (use assms(1) in auto)
next
  case False
  then show ?thesis
    using vw_process_raw [OF False assms(3)] assms(1) by (simp add: writer_ok_def)
qed

lemma writer_run_direct: "vw_directCopy w \<Longrightarrow> length ctxs = length ds \<Longrightarrow> writer_run uni w (zip ds ctxs) = ds"
proof (induction ds arbitrary: ctxs)
  case (Cons d ds)
  then show ?case by (cases ctxs) (simp_all add: vw_process_def)
qed simp

text \<open>One receive of the relay: the frame is written, then the raw copy takes over or the relay goes on.\<close>

lemma relay_down_vision_step:
  assumes "se_tls E = None" and "\<not> vc_closed s" and "rx (vc_net s) tfd = chunk d # later" and "d \<noteq> []"
    and "vw_process (se_uni E) d (visionWriter s) (visionCtx s) = (f, vw, ctx)" and "f \<noteq> []"
    and "accept (length f) (tx (vc_net s) (clientFd s)) = Some rs"
  obtains s2 where "relay_down_vision E tfd s =
      (if vw_directCopy vw
       then copy_stream (on_net_ops (async_stream (clientFd s))) (on_net_ops (async_stream tfd)) vc_closed s2
       else relay_down_vision E tfd s2)"
    and "\<not> vc_closed s2" and "visionWriter s2 = vw" and "clientFd s2 = clientFd s" and "rx (vc_net s2) tfd = later"
    and "tx (vc_net s2) (clientFd s) = rs" and "sent (vc_net s2) (clientFd s) = sent (vc_net s) (clientFd s) @ f"
proof -
  let ?c = "clientFd s" and ?w1 = "with_rx tfd later (vc_net s)"
  have recv: "on_net (async_recv tfd 8192) s = Some (Inr \<lparr>rr_data = d, rr_result = int (length d)\<rparr>, set_net ?w1 s)"
    using assms(3,4) by (intro on_net_eval) (auto simp: async_recv_def recv_complete_def with_rx_def chunk_def [of d])
  from writeFull_accept [of f ?w1 ?c rs] assms(7) obtain w2 where w2:
    "async_writeFull ?c f ?w1 = Some (Inr (int (length f)), w2)" "sent w2 ?c = sent (vc_net s) ?c @ f"
    "tx w2 ?c = rs" "rx w2 = rx ?w1"
    by auto
  define s2 where "s2 = set_net w2 (s\<lparr>visionWriter := vw, visionCtx := ctx\<rparr>)"
  have commute: "(set_net ?w1 s)\<lparr>visionWriter := vw, visionCtx := ctx\<rparr> = set_net ?w1 (s\<lparr>visionWriter := vw, visionCtx := ctx\<rparr>)"
    by (cases s) (simp add: set_net_def)
  have "relay_down_vision E tfd s =
      (if vw_directCopy vw then copy_stream (on_net_ops (async_stream ?c)) (on_net_ops (async_stream tfd)) vc_closed s2
       else relay_down_vision E tfd s2)"
    using recv assms(1,2,4,5,6) w2(1)
    by (simp add: relay_down_vision.simps [of E tfd s] co_bind_def [of "on_net (async_recv _ _)"] rr_defs vision_pad_process commute
        clientStream_def client_ops_def co_bind_def [of "on_net (async_writeFull _ _)"] on_net_eval s2_def)
  with w2 assms(2) that [of s2] show ?thesis
    by (simp add: s2_def)
qed

text \<open>A kernel that takes whatever frames the writer makes of a sequence of reads takes the first and then the others.\<close>

lemma takes_frames:
  assumes "\<forall>ctxs. length ctxs = length (d # ds) \<longrightarrow> accept_all (writer_run uni w (zip (d # ds) ctxs)) rs \<noteq> None"
    and "vw_process uni d w ctx = (f, vw, ctx')"
  obtains rest where "accept (length f) rs = Some rest"
    and "\<forall>ctxs. length ctxs = length ds \<longrightarrow> accept_all (writer_run uni vw (zip ds ctxs)) rest \<noteq> None"
proof -
  have all: "accept_all (f # writer_run uni vw (zip ds ctxs)) rs \<noteq> None" if "length ctxs = length ds" for ctxs
    using assms(1) [rule_format, of "ctx # ctxs"] that assms(2) by simp
  from all [of "replicate (length ds) None"] obtain rest where rest: "accept (length f) rs = Some rest"
    by (auto split: option.splits)
  with all show ?thesis
    by (intro that [OF rest]) auto
qed

lemma relay_down_vision_run:
  assumes "se_tls E = None" and "\<not> vc_closed s" and "writer_ok (visionWriter s)"
    and "rx (vc_net s) tfd = map chunk ds @ [(res, buf)]" and "res \<le> 0" and "[] \<notin> set ds"
    and "\<forall>ctxs. length ctxs = length ds \<longrightarrow>
      accept_all (writer_run (se_uni E) (visionWriter s) (zip ds ctxs)) (tx (vc_net s) (clientFd s)) \<noteq> None"
  shows "\<exists>ctxs s'. length ctxs = length ds \<and> relay_down_vision E tfd s = Some (Inr (res = 0), s') \<and>
    sent (vc_net s') (clientFd s) =
      sent (vc_net s) (clientFd s) @ concat (writer_run (se_uni E) (visionWriter s) (zip ds ctxs)) \<and>
    wr_shut (vc_net s') (clientFd s)"
  using assms(2-4,6,7)
proof (induction ds arbitrary: s)
  case Nil
  then have "on_net (async_recv tfd 8192) s = Some (Inr \<lparr>rr_data = [], rr_result = res\<rparr>, set_net (with_rx tfd [] (vc_net s)) s)"
    using assms(5) by (intro on_net_eval) (simp add: async_recv_def recv_complete_def with_rx_def)
  then show ?case
    using Nil assms(1,5)
    by (auto simp: relay_down_vision.simps [of E tfd s] co_bind_def clientStream_def client_ops_def rr_defs
        on_net_def embed_def async_shutdown_def)
next
  case (Cons d ds)
  let ?c = "clientFd s"
  obtain f vw ctx where proc: "vw_process (se_uni E) d (visionWriter s) (visionCtx s) = (f, vw, ctx)"
    by (metis prod_cases3)
  have f: "f \<noteq> []" "writer_ok vw"
    using vw_process_nonempty [OF _ Cons.prems(2) proc] Cons.prems(4) by auto
  have run: "writer_run (se_uni E) (visionWriter s) (zip (d # ds) (visionCtx s # ctxs)) =
      f # writer_run (se_uni E) vw (zip ds ctxs)" for ctxs
    by (simp add: proc)
  obtain rs where rs: "accept (length f) (tx (vc_net s) ?c) = Some rs"
    "\<forall>ctxs. length ctxs = length ds \<longrightarrow> accept_all (writer_run (se_uni E) vw (zip ds ctxs)) rs \<noteq> None"
    by (rule takes_frames [OF Cons.prems(5) proc])
  obtain s2 where step: "relay_down_vision E tfd s =
      (if vw_directCopy vw then copy_stream (on_net_ops (async_stream ?c)) (on_net_ops (async_stream tfd)) vc_closed s2
       else relay_down_vision E tfd s2)"
    and s2: "\<not> vc_closed s2" "visionWriter s2 = vw" "clientFd s2 = ?c" "rx (vc_net s2) tfd = map chunk ds @ [(res, buf)]"
    and w2: "tx (vc_net s2) ?c = rs" "sent (vc_net s2) ?c = sent (vc_net s) ?c @ f"
    using relay_down_vision_step [OF assms(1) Cons.prems(1) _ _ proc f(1) rs(1)] Cons.prems(3,4) by auto
  have ds: "[] \<notin> set ds"
    using Cons.prems(4) by simp
  show ?case
  proof (cases "vw_directCopy vw")
    case True
    have direct: "writer_run (se_uni E) vw (zip ds (replicate (length ds) None)) = ds"
      using writer_run_direct [OF True] by simp
    have "accept_all (writer_run (se_uni E) vw (zip ds (replicate (length ds) None))) rs \<noteq> None"
      using rs(2) by simp
    then obtain rest where "accept_all ds (tx (vc_net s2) ?c) = Some rest"
      using w2(1) direct by auto
    from copy_in_connection [OF s2(1,4) assms(5) ds this] obtain s' where
      "copy_stream (on_net_ops (async_stream ?c)) (on_net_ops (async_stream tfd)) vc_closed s2 = Some (Inr (res = 0), s')"
      "sent (vc_net s') ?c = sent (vc_net s2) ?c @ concat ds" "wr_shut (vc_net s') ?c"
      by blast
    with step True s2 w2 run [of "replicate (length ds) None"] direct show ?thesis
      by (intro exI [of _ "visionCtx s # replicate (length ds) None"] exI [of _ s']) simp
  next
    case False
    from Cons.IH [of s2] s2 ds f(2) rs(2) w2(1) obtain ctxs s' where "length ctxs = length ds"
      "relay_down_vision E tfd s2 = Some (Inr (res = 0), s')"
      "sent (vc_net s') ?c = sent (vc_net s2) ?c @ concat (writer_run (se_uni E) vw (zip ds ctxs))" "wr_shut (vc_net s') ?c"
      by auto
    with step False w2 run [of ctxs] show ?thesis
      by (intro exI [of _ "visionCtx s # ctxs"] exI [of _ s']) simp
  qed
qed

section \<open>Client to target\<close>

lemma vision_unpad_process:
  "vision_unpad data s =
     (case vr_process data (visionReader s) (visionCtx s) of
        (out, r, ctx) \<Rightarrow> (out, s\<lparr>visionReader := r, visionCtx := ctx\<rparr>))"
  by (simp add: vision_unpad_def vr_process_def [of _ "visionReader s"])

lemma reader_run_direct: "vr_directCopy r \<Longrightarrow> length ctxs = length cs \<Longrightarrow> reader_run r (zip cs ctxs) = cs"
proof (induction cs arbitrary: ctxs)
  case (Cons c cs)
  then show ?case by (cases ctxs) (simp_all add: vr_process_def)
qed simp

text \<open>The kernel takes any pieces of what the reader makes of the chunks.\<close>

definition takes :: "vision_reader \<Rightarrow> bytes list \<Rightarrow> int list \<Rightarrow> bool" where
  "takes r cs rs \<longleftrightarrow> (\<forall>ctxs. length ctxs = length cs \<longrightarrow> accept_all (reader_run r (zip cs ctxs)) rs \<noteq> None)"

lemma takes_Cons:
  assumes "takes r (c # cs) rs" and "vr_process c r ctx = (out, r', ctx')"
  obtains rs' where "accept (length out) rs = Some rs'" and "takes r' cs rs'"
proof -
  have run: "reader_run r (zip (c # cs) (ctx # ctxs)) = out # reader_run r' (zip cs ctxs)" for ctxs
    using assms(2) by simp
  have all: "accept_all (out # reader_run r' (zip cs ctxs)) rs \<noteq> None" if "length ctxs = length cs" for ctxs
    using assms(1) that run [of ctxs] unfolding takes_def by (metis length_Cons)
  from all [of "replicate (length cs) None"] obtain rs' where rs': "accept (length out) rs = Some rs'"
    by (auto split: option.splits)
  have "takes r' cs rs'"
    using all rs' unfolding takes_def by simp
  with rs' show thesis by (rule that)
qed

lemma takes_direct: "vr_directCopy r \<Longrightarrow> takes r cs rs \<Longrightarrow> \<exists>rest. accept_all cs rs = Some rest"
  using reader_run_direct [of r "replicate (length cs) None" cs] unfolding takes_def
  by (metis length_replicate not_Some_eq)

text \<open>Writing what was unpadded, if anything was.\<close>

lemma write_unpadded:
  assumes "accept (length out) (tx (vc_net s) fd) = Some rs"
  obtains w n where "(if out \<noteq> [] then on_net (async_writeFull fd out) else co_return 1) s = Some (Inr n, set_net w s)"
    and "0 < n" and "sent w fd = sent (vc_net s) fd @ out" and "tx w fd = rs" and "rx w = rx (vc_net s)"
proof (cases "out = []")
  case True
  have "set_net (vc_net s) s = s"
    by (simp add: vc_net_def set_net_def)
  with True assms show thesis
    by (intro that [of 1 "vc_net s"]) (simp_all add: co_return_def)
next
  case False
  from writeFull_accept [OF assms] obtain w where w: "async_writeFull fd out (vc_net s) = Some (Inr (int (length out)), w)"
    "sent w fd = sent (vc_net s) fd @ out" "tx w fd = rs" "rx w = rx (vc_net s)"
    by auto
  with False on_net_eval [of "async_writeFull fd out" s] show thesis
    by (intro that [of "int (length out)" w]) simp_all
qed

lemma relay_up_vision_step:
  assumes "se_tls E = None" and "\<not> vc_closed s" and "rx (vc_net s) (clientFd s) = chunk c # later" and "c \<noteq> []"
    and "vr_process c (visionReader s) (visionCtx s) = (out, r, ctx)"
    and "accept (length out) (tx (vc_net s) (targetFd s)) = Some rs"
  obtains s2 where "relay_up_vision E s =
      (if vr_directCopy r
       then copy_stream (on_net_ops (async_stream (targetFd s))) (on_net_ops (async_stream (clientFd s))) vc_closed s2
       else relay_up_vision E s2)"
    and "\<not> vc_closed s2" and "visionReader s2 = r" and "clientFd s2 = clientFd s" and "targetFd s2 = targetFd s"
    and "rx (vc_net s2) (clientFd s) = later" and "tx (vc_net s2) (targetFd s) = rs"
    and "sent (vc_net s2) (targetFd s) = sent (vc_net s) (targetFd s) @ out"
proof -
  let ?t = "targetFd s" and ?w1 = "with_rx (clientFd s) later (vc_net s)"
  let ?s1 = "set_net ?w1 (s\<lparr>visionReader := r, visionCtx := ctx\<rparr>)"
  have recv: "on_net (async_recv (clientFd s) 8192) s = Some (Inr \<lparr>rr_data = c, rr_result = int (length c)\<rparr>, set_net ?w1 s)"
    using assms(3,4) by (intro on_net_eval) (auto simp: async_recv_def recv_complete_def with_rx_def chunk_def [of c])
  have "accept (length out) (tx (vc_net ?s1) ?t) = Some rs"
    using assms(6) by simp
  from write_unpadded [OF this] obtain w2 n where
    w2: "(if out \<noteq> [] then on_net (async_writeFull ?t out) else co_return 1) ?s1 = Some (Inr n, set_net w2 ?s1)"
    "0 < n" "sent w2 ?t = sent (vc_net ?s1) ?t @ out" "tx w2 ?t = rs" "rx w2 = rx (vc_net ?s1)"
    by blast
  define s2 where "s2 = set_net w2 (s\<lparr>visionReader := r, visionCtx := ctx\<rparr>)"
  have s2: "\<not> vc_closed s2" "visionReader s2 = r" "clientFd s2 = clientFd s" "targetFd s2 = ?t" "vc_net s2 = w2"
    using assms(2) by (simp_all add: s2_def)
  have commute: "(set_net ?w1 s)\<lparr>visionReader := r, visionCtx := ctx\<rparr> = ?s1"
    by (cases s) (simp add: set_net_def)
  have s2_eq: "set_net w2 ?s1 = s2"
    by (simp add: s2_def)
  have "relay_up_vision E s =
      (if vr_directCopy r then copy_stream (on_net_ops (async_stream ?t)) (on_net_ops (async_stream (clientFd s))) vc_closed s2
       else relay_up_vision E s2)"
  proof (cases "out = []")
    case True
    then have "n = 1" "?s1 = s2"
      using w2(1) s2_eq by (simp_all add: co_return_def)
    with True recv assms(1,2,4,5) s2(2-4) show ?thesis
      by (simp add: relay_up_vision.simps [of E s] co_bind_def [of "on_net (async_recv _ _)"] rr_defs vision_unpad_process commute
          clientStream_def targetStream_def client_ops_def)
  next
    case False
    then have "on_net (async_writeFull ?t out) ?s1 = Some (Inr n, s2)"
      using w2(1) unfolding s2_eq by simp
    with False recv assms(1,2,4,5) w2(2) s2(2-4) show ?thesis
      by (simp add: relay_up_vision.simps [of E s] co_bind_def [of "on_net (async_recv _ _)"] rr_defs vision_unpad_process commute
          clientStream_def targetStream_def client_ops_def co_bind_def [of "on_net (async_writeFull _ _)"])
  qed
  with w2 s2 that [of s2] show ?thesis
    by simp
qed

lemma relay_up_vision_run:
  assumes "se_tls E = None" and "\<not> vc_closed s"
    and "rx (vc_net s) (clientFd s) = map chunk cs @ [(res, buf)]" and "res \<le> 0" and "[] \<notin> set cs"
    and "takes (visionReader s) cs (tx (vc_net s) (targetFd s))"
  shows "\<exists>ctxs s'. length ctxs = length cs \<and> relay_up_vision E s = Some (Inr (res = 0), s') \<and>
    sent (vc_net s') (targetFd s) = sent (vc_net s) (targetFd s) @ concat (reader_run (visionReader s) (zip cs ctxs)) \<and>
    wr_shut (vc_net s') (targetFd s)"
  using assms(2,3,5,6)
proof (induction cs arbitrary: s)
  case Nil
  then have "on_net (async_recv (clientFd s) 8192) s =
      Some (Inr \<lparr>rr_data = [], rr_result = res\<rparr>, set_net (with_rx (clientFd s) [] (vc_net s)) s)"
    using assms(4) by (intro on_net_eval) (simp add: async_recv_def recv_complete_def with_rx_def)
  then show ?case
    using Nil assms(1,4)
    by (auto simp: relay_up_vision.simps [of E s] co_bind_def clientStream_def targetStream_def client_ops_def rr_defs
        on_net_def embed_def async_shutdown_def)
next
  case (Cons c cs)
  let ?t = "targetFd s"
  obtain out r ctx where proc: "vr_process c (visionReader s) (visionCtx s) = (out, r, ctx)"
    by (metis prod_cases3)
  have run: "reader_run (visionReader s) (zip (c # cs) (visionCtx s # ctxs)) = out # reader_run r (zip cs ctxs)" for ctxs
    by (simp add: proc)
  obtain rs where rs: "accept (length out) (tx (vc_net s) ?t) = Some rs" "takes r cs rs"
    by (rule takes_Cons [OF Cons.prems(4) proc])
  obtain s2 where step: "relay_up_vision E s =
      (if vr_directCopy r then copy_stream (on_net_ops (async_stream ?t)) (on_net_ops (async_stream (clientFd s))) vc_closed s2
       else relay_up_vision E s2)"
    and s2: "\<not> vc_closed s2" "visionReader s2 = r" "clientFd s2 = clientFd s" "targetFd s2 = ?t"
      "rx (vc_net s2) (clientFd s) = map chunk cs @ [(res, buf)]"
    and w2: "tx (vc_net s2) ?t = rs" "sent (vc_net s2) ?t = sent (vc_net s) ?t @ out"
    using relay_up_vision_step [OF assms(1) Cons.prems(1) _ _ proc rs(1)] Cons.prems(2,3) by auto
  have cs: "[] \<notin> set cs"
    using Cons.prems(3) by simp
  show ?case
  proof (cases "vr_directCopy r")
    case True
    obtain rest where "accept_all cs (tx (vc_net s2) ?t) = Some rest"
      using takes_direct [OF True rs(2)] w2(1) by auto
    from copy_in_connection [OF s2(1,5) assms(4) cs this] obtain s' where
      "copy_stream (on_net_ops (async_stream ?t)) (on_net_ops (async_stream (clientFd s))) vc_closed s2 = Some (Inr (res = 0), s')"
      "sent (vc_net s') ?t = sent (vc_net s2) ?t @ concat cs" "wr_shut (vc_net s') ?t"
      by blast
    with step True s2 w2 run [of "replicate (length cs) None"] reader_run_direct [OF True, of "replicate (length cs) None" cs]
    show ?thesis
      by (intro exI [of _ "visionCtx s # replicate (length cs) None"] exI [of _ s']) simp
  next
    case False
    from Cons.IH [of s2] s2 cs rs(2) w2(1) obtain ctxs s' where "length ctxs = length cs"
      "relay_up_vision E s2 = Some (Inr (res = 0), s')"
      "sent (vc_net s') ?t = sent (vc_net s2) ?t @ concat (reader_run r (zip cs ctxs))" "wr_shut (vc_net s') ?t"
      by auto
    with step False w2 run [of ctxs] show ?thesis
      by (intro exI [of _ "visionCtx s # ctxs"] exI [of _ s']) simp
  qed
qed

text \<open>From an established target: what was left over from the handshake, then the relay.\<close>

lemma forward_and_relay_vision:
  assumes "se_tls E = None" and "\<not> useEncryption s" and "useVision s" and "\<not> vc_closed s"
    and "rx (vc_net s) (clientFd s) = map chunk cs @ [(res, buf)]" and "res \<le> 0" and "[] \<notin> set cs"
    and "chunks = (if handshakeRemaining s = [] then cs else handshakeRemaining s # cs)"
    and "takes (visionReader s) chunks (tx (vc_net s) (targetFd s))"
  shows "\<exists>ctxs s'. length ctxs = length chunks \<and>
    co_bind (forwardHandshakeRemaining E) (\<lambda>ok. if \<not> ok then co_return False else relayClientToTarget E) s =
      Some (Inr (res = 0), s') \<and>
    sent (vc_net s') (targetFd s) = sent (vc_net s) (targetFd s) @ concat (reader_run (visionReader s) (zip chunks ctxs)) \<and>
    wr_shut (vc_net s') (targetFd s)"
proof (cases "handshakeRemaining s = []")
  case True
  then have "forwardHandshakeRemaining E s = Some (Inr True, s)"
    by (simp add: forwardHandshakeRemaining_def)
  with relay_up_vision_run [OF assms(1,4,5-7)] True assms(2,3,8,9) show ?thesis
    by (auto simp: co_bind_def relayClientToTarget_def)
next
  case False
  let ?rem = "handshakeRemaining s" and ?t = "targetFd s"
  obtain out r ctx where proc: "vr_process ?rem (visionReader s) (visionCtx s) = (out, r, ctx)"
    by (metis prod_cases3)
  have chunks: "chunks = ?rem # cs"
    using False assms(8) by simp
  obtain rs where rs: "accept (length out) (tx (vc_net s) ?t) = Some rs" "takes r cs rs"
    by (rule takes_Cons [OF assms(9) [unfolded chunks] proc])
  let ?s1 = "s\<lparr>visionReader := r, visionCtx := ctx\<rparr>"
  have "accept (length out) (tx (vc_net ?s1) ?t) = Some rs"
    using rs(1) by simp
  from write_unpadded [OF this] obtain w n where
    w: "(if out \<noteq> [] then on_net (async_writeFull ?t out) else co_return 1) ?s1 = Some (Inr n, set_net w ?s1)"
    "0 < n" "sent w ?t = sent (vc_net ?s1) ?t @ out" "tx w ?t = rs" "rx w = rx (vc_net ?s1)"
    by blast
  define s2 where "s2 = (set_net w ?s1)\<lparr>handshakeRemaining := []\<rparr>"
  have fwd: "forwardHandshakeRemaining E s = Some (Inr True, s2)"
  proof (cases "out = []")
    case True
    then have "set_net w ?s1 = ?s1"
      using w(1) by (simp add: co_return_def)
    with True False proc assms(2,3) show ?thesis
      by (simp add: forwardHandshakeRemaining_def Let_def s2_def)
  next
    case False
    then have "on_net (async_writeFull ?t out) ?s1 = Some (Inr n, set_net w ?s1)"
      using w(1) by simp
    with False \<open>?rem \<noteq> []\<close> proc assms(2,3) w(2) show ?thesis
      by (simp add: forwardHandshakeRemaining_def Let_def s2_def co_bind_def targetStream_def)
  qed
  have s2: "\<not> vc_closed s2" "clientFd s2 = clientFd s" "targetFd s2 = ?t" "visionReader s2 = r" "vc_net s2 = w"
    "\<not> useEncryption s2" "useVision s2"
    using assms(2-4) by (simp_all add: s2_def)
  have rx2: "rx (vc_net s2) (clientFd s2) = map chunk cs @ [(res, buf)]" "takes (visionReader s2) cs (tx (vc_net s2) (targetFd s2))"
    using w(4,5) assms(5) rs(2) s2 by simp_all
  from relay_up_vision_run [OF assms(1) s2(1) rx2(1) assms(6,7) rx2(2)] s2 obtain ctxs s' where
    s': "length ctxs = length cs" "relay_up_vision E s2 = Some (Inr (res = 0), s')"
    "sent (vc_net s') ?t = sent w ?t @ concat (reader_run r (zip cs ctxs))" "wr_shut (vc_net s') ?t"
    by auto
  with fwd s2 w(3) chunks proc show ?thesis
    by (intro exI [of _ "visionCtx s # ctxs"] exI [of _ s']) (simp add: co_bind_def relayClientToTarget_def)
qed

section \<open>Properties\<close>


definition sample_vision_state :: "int list \<Rightarrow> int list \<Rightarrow> vconn" where
  "sample_vision_state cs ts = (VlessConnection 5 (sample_evp 0) (net0\<lparr>
     rx := (\<lambda>fd. if fd = 5 then [chunk (drop 22 sample_wire), (0, [])] else [chunk [1, 2, 3], (0, [])]),
     tx := (\<lambda>fd. if fd = 5 then cs else ts)\<rparr>))\<lparr>handshakeRemaining := take 22 sample_wire\<rparr>"


text \<open>C6: A TCP session with the Vision flow, target to client: whatever the target sends in receives below 64 KB,
and whatever the other direction does to the TLS state meanwhile, the client is sent bytes that a Vision
reader with the user's UUID turns back into exactly the target's bytes, in whatever pieces they arrive
there as long as the first holds 21 bytes; then it is sent the end of the stream, and the direction is
marked as done.\<close>

theorem server_pads_vision:
  assumes "se_tls E = None" and "vc_command s = TCP" and "useVision s" and "\<not> useEncryption s" and "\<not> vc_closed s"
    and "visionWriter s = vision_writer_init uuid" and "length uuid = 16"
    and "rx (vc_net s) tfd = map chunk ds @ [(res, buf)]" and "res \<le> 0"
    and "ds \<noteq> []" and "\<forall>d \<in> set ds. d \<noteq> [] \<and> length d < 65536"
    and "\<forall>ctxs. length ctxs = length ds \<longrightarrow>
      accept_all (writer_run (se_uni E) (vision_writer_init uuid) (zip ds ctxs)) (tx (vc_net s) (clientFd s)) \<noteq> None"
  shows "\<exists>s' wire. targetTask E tfd s = Some (Inr (), s') \<and> targetReadDone s' \<and>
    sent (vc_net s') (clientFd s) = sent (vc_net s) (clientFd s) @ wire \<and> wr_shut (vc_net s') (clientFd s) \<and>
    (\<forall>cs. concat (map fst cs) = wire \<longrightarrow> cs \<noteq> [] \<longrightarrow> 21 \<le> length (fst (hd cs)) \<longrightarrow>
       concat (reader_run (vision_reader_init uuid) cs) = concat ds)"
proof -
  have "writer_ok (visionWriter s)" "[] \<notin> set ds"
    using assms(6,11) by (auto simp: writer_ok_def vision_writer_init_def)
  from relay_down_vision_run [OF assms(1,5) this(1) assms(8,9) this(2)] assms(6,12) obtain ctxs s1 where
    s1: "length ctxs = length ds" "relay_down_vision E tfd s = Some (Inr (res = 0), s1)"
    "sent (vc_net s1) (clientFd s) =
      sent (vc_net s) (clientFd s) @ concat (writer_run (se_uni E) (vision_writer_init uuid) (zip ds ctxs))"
    "wr_shut (vc_net s1) (clientFd s)"
    by auto
  have run: "targetTask E tfd s = Some (Inr (), targetTask_end s1)"
    using s1(2) assms(2-4) by (simp add: targetTask_def target_relay_def)
  have ending: "targetReadDone (targetTask_end s1)" "vc_net (targetTask_end s1) = vc_net s1"
    by (simp_all add: targetTask_end_def vc_logs_def vc_net_def Let_def)
  have zip: "map fst (zip ds ctxs) = ds" "zip ds ctxs \<noteq> []" "\<forall>(d, ctx) \<in> set (zip ds ctxs). d \<noteq> [] \<and> length d < 65536"
    using s1(1) assms(10,11) by (auto dest: set_zip_leftD)
  have "concat (reader_run (vision_reader_init uuid) cs) = concat ds"
    if "concat (map fst cs) = concat (writer_run (se_uni E) (vision_writer_init uuid) (zip ds ctxs))" "cs \<noteq> []"
      "21 \<le> length (fst (hd cs))" for cs
    using reader_undoes_writer [OF assms(7) zip(2,3) that] zip(1) by simp
  with run ending s1 show ?thesis
    by (intro exI [of _ "targetTask_end s1"] exI [of _ "concat (writer_run (se_uni E) (vision_writer_init uuid) (zip ds ctxs))"]) simp
qed

lemma sample_frame_accepted:
  assumes "length ctxs = 1"
  shows "accept_all (writer_run uni (vision_writer_init sample_uuid) (zip [[1, 2, 3]] ctxs)) (replicate 9000 1) \<noteq> None"
proof -
  obtain ctx where ctxs: "ctxs = [ctx]"
    using assms by (cases ctxs) simp_all
  obtain f w' ctx' where run: "vw_process uni [1, 2, 3] (vision_writer_init sample_uuid) ctx = (f, w', ctx')"
    by (metis prod_cases3)
  have "length f \<le> 9000"
    by (rule vw_process_frame [OF _ _ _ run]) (simp_all add: vision_writer_init_def writer_ok_def frame_header_def)
  then show ?thesis
    using accept_all_ones [of "[f]" 9000] ctxs run by simp
qed

lemma server_pads_vision_witness:
  "\<exists>s' wire. targetTask sample_env 9 ((sample_vision_state (replicate 9000 1) [])\<lparr>useVision := True,
      visionWriter := vision_writer_init sample_uuid\<rparr>) = Some (Inr (), s') \<and> sent (vc_net s') 5 = wire \<and>
    (\<forall>cs. concat (map fst cs) = wire \<longrightarrow> cs \<noteq> [] \<longrightarrow> 21 \<le> length (fst (hd cs)) \<longrightarrow>
       concat (reader_run (vision_reader_init sample_uuid) cs) = [1, 2, 3])"
proof -
  let ?s = "(sample_vision_state (replicate 9000 1) [])\<lparr>useVision := True, visionWriter := vision_writer_init sample_uuid\<rparr>"
  have s: "rx (vc_net ?s) 9 = map chunk [[1, 2, 3]] @ [(0, [])]" "tx (vc_net ?s) 5 = replicate 9000 1" "clientFd ?s = 5"
    "sent (vc_net ?s) 5 = []" "vc_command ?s = TCP" "\<not> useEncryption ?s" "\<not> vc_closed ?s" "useVision ?s"
    "visionWriter ?s = vision_writer_init sample_uuid"
    by (simp_all add: sample_vision_state_def VlessConnection_def vc_net_def ubs_init_def net0_def)
  show ?thesis
    using server_pads_vision [of sample_env ?s sample_uuid 9 "[[1, 2, 3]]" 0 "[]"] s sample_frame_accepted
    by (auto simp: sample_env_def)
qed

end
