(* ===== verification/Tls_Stream.thy ===== *)
theory Tls_Stream
  imports Sys_Interface
begin

text \<open>
  \<open>TlsStream\<close> (include/net/tls_stream.h, src/net/tls_stream.cpp): TLS as a stream over another stream,
  with OpenSSL between two memory BIOs.

  OpenSSL is a parameter: \<open>ssl_engine\<close> holds the calls the class makes on an \<open>SSL\<close> object, whose state
  is of type \<open>'e\<close>. \<open>ssl_ret\<close> is the result of a call together with what \<open>SSL_get_error\<close> says of it.
\<close>

section \<open>OpenSSL as a parameter\<close>

datatype 'a ssl_ret = SslDone 'a | SslWantRead | SslWantWrite | SslZeroReturn | SslFailed

record 'e ssl_engine =
  ssl_handshake :: "bool \<Rightarrow> 'e \<Rightarrow> unit ssl_ret \<times> 'e"
  ssl_read :: "nat \<Rightarrow> 'e \<Rightarrow> bytes ssl_ret \<times> 'e"
  ssl_write :: "bytes \<Rightarrow> 'e \<Rightarrow> nat ssl_ret \<times> 'e"
  ssl_shutdown :: "'e \<Rightarrow> 'e"
  rbio_write :: "bytes \<Rightarrow> 'e \<Rightarrow> int \<times> 'e"
  wbio_pending :: "'e \<Rightarrow> nat"
  wbio_read :: "nat \<Rightarrow> 'e \<Rightarrow> bytes \<times> 'e"

text \<open>The object: the \<open>SSL\<close> pointer, \<open>None\<close> when \<open>SSL_new\<close> failed, and the inner stream's state.\<close>

record ('s, 'e) tls =
  tls_ssl :: "'e option"
  tls_inner :: 's

definition on_inner :: "('s, 'a) co \<Rightarrow> (('s, 'e) tls, 'a) co" where
  "on_inner = embed tls_inner (\<lambda>s t. t\<lparr>tls_inner := s\<rparr>)"

interpretation tls_part: part "tls_inner :: ('s, 'e) tls \<Rightarrow> 's" "\<lambda>s t. t\<lparr>tls_inner := s\<rparr>"
  by unfold_locales simp_all

section \<open>Moving ciphertext\<close>

text \<open>\<open>BIO_read\<close> that gives no bytes ends the loop.\<close>

partial_function (option) flushWriteBio ::
    "'e ssl_engine \<Rightarrow> 's stream_ops \<Rightarrow> ('s, 'e) tls \<Rightarrow> ((exn + bool) \<times> ('s, 'e) tls) option" where
  "flushWriteBio G inner t =
     (let e = the (tls_ssl t) in
      if wbio_pending G e > 0 then
        (case wbio_read G 16384 e of (buf, e') \<Rightarrow>
           (let t = t\<lparr>tls_ssl := Some e'\<rparr> in
            if buf = [] then Some (Inr True, t)
            else co_bind (on_inner (st_writeFull inner buf)) (\<lambda>sent t.
              if sent \<noteq> int (length buf) then Some (Inr False, t) else flushWriteBio G inner t) t))
      else Some (Inr True, t))"

definition fillReadBio :: "'e ssl_engine \<Rightarrow> 's stream_ops \<Rightarrow> (('s, 'e) tls, bool) co" where
  "fillReadBio G inner =
     co_bind (on_inner (st_read inner 8192)) (\<lambda>rr t.
       if rr_eof rr \<or> rr_error rr then Some (Inr False, t)
       else (case rbio_write G (rr_data rr) (the (tls_ssl t)) of (n, e) \<Rightarrow>
         Some (Inr (n > 0), t\<lparr>tls_ssl := Some e\<rparr>)))"

text \<open>After \<open>WANT_READ\<close>: flush, then feed. Which of the two failed matters to \<open>read\<close>.\<close>

datatype pump = PumpOk | FlushFailed | FillFailed

definition pump :: "'e ssl_engine \<Rightarrow> 's stream_ops \<Rightarrow> (('s, 'e) tls, pump) co" where
  "pump G inner =
     co_bind (flushWriteBio G inner) (\<lambda>ok. if \<not> ok then co_return FlushFailed
     else co_bind (fillReadBio G inner) (\<lambda>ok. co_return (if ok then PumpOk else FillFailed)))"

section \<open>Handshake, read, write, shutdown\<close>

partial_function (option) tls_handshake_loop ::
    "'e ssl_engine \<Rightarrow> 's stream_ops \<Rightarrow> bool \<Rightarrow> ('s, 'e) tls \<Rightarrow> ((exn + bool) \<times> ('s, 'e) tls) option" where
  "tls_handshake_loop G inner isServer t =
     (case ssl_handshake G isServer (the (tls_ssl t)) of (ret, e) \<Rightarrow>
        (let t = t\<lparr>tls_ssl := Some e\<rparr> in
         case ret of
           SslDone _ \<Rightarrow> co_bind (flushWriteBio G inner) (\<lambda>_. co_return True) t
         | SslWantRead \<Rightarrow> co_bind (pump G inner) (\<lambda>p t.
             if p = PumpOk then tls_handshake_loop G inner isServer t else Some (Inr False, t)) t
         | SslWantWrite \<Rightarrow> co_bind (flushWriteBio G inner) (\<lambda>ok t.
             if ok then tls_handshake_loop G inner isServer t else Some (Inr False, t)) t
         | _ \<Rightarrow> Some (Inr False, t)))"

definition tls_handshake ::
    "'e ssl_engine \<Rightarrow> 's stream_ops \<Rightarrow> bool \<Rightarrow> (('s, 'e) tls, bool) co" where
  "tls_handshake G inner isServer t =
     (if tls_ssl t = None then Some (Inr False, t) else tls_handshake_loop G inner isServer t)"

definition rr_of :: "bytes \<Rightarrow> int \<Rightarrow> recv_result" where
  "rr_of data res = \<lparr>rr_data = data, rr_result = res\<rparr>"

partial_function (option) tls_read_loop ::
    "'e ssl_engine \<Rightarrow> 's stream_ops \<Rightarrow> nat \<Rightarrow> ('s, 'e) tls \<Rightarrow> ((exn + recv_result) \<times> ('s, 'e) tls) option" where
  "tls_read_loop G inner maxBytes t =
     (case ssl_read G maxBytes (the (tls_ssl t)) of (ret, e) \<Rightarrow>
        (let t = t\<lparr>tls_ssl := Some e\<rparr> in
         case ret of
           SslDone out \<Rightarrow> Some (Inr (rr_of out (int (length out))), t)
         | SslWantRead \<Rightarrow> co_bind (pump G inner) (\<lambda>p t.
             case p of
               PumpOk \<Rightarrow> tls_read_loop G inner maxBytes t
             | FlushFailed \<Rightarrow> Some (Inr (rr_of [] (-1)), t)
             | FillFailed \<Rightarrow> Some (Inr (rr_of [] 0), t)) t
         | SslWantWrite \<Rightarrow> co_bind (flushWriteBio G inner) (\<lambda>ok t.
             if ok then tls_read_loop G inner maxBytes t else Some (Inr (rr_of [] (-1)), t)) t
         | SslZeroReturn \<Rightarrow> Some (Inr (rr_of [] 0), t)
         | SslFailed \<Rightarrow> Some (Inr (rr_of [] (-1)), t)))"

definition tls_read :: "'e ssl_engine \<Rightarrow> 's stream_ops \<Rightarrow> nat \<Rightarrow> (('s, 'e) tls, recv_result) co" where
  "tls_read G inner maxBytes t =
     (if tls_ssl t = None then Some (Inr (rr_of [] (-1)), t) else tls_read_loop G inner maxBytes t)"

definition partial_count :: "nat \<Rightarrow> int" where
  "partial_count offset = (if offset > 0 then int offset else -1)"

partial_function (option) tls_write_from ::
    "'e ssl_engine \<Rightarrow> 's stream_ops \<Rightarrow> bytes \<Rightarrow> nat \<Rightarrow> ('s, 'e) tls \<Rightarrow> ((exn + int) \<times> ('s, 'e) tls) option" where
  "tls_write_from G inner data offset t =
     (if offset < length data then
        (case ssl_write G (drop offset data) (the (tls_ssl t)) of (ret, e) \<Rightarrow>
           (let t = t\<lparr>tls_ssl := Some e\<rparr> in
            case ret of
              SslDone n \<Rightarrow> co_bind (flushWriteBio G inner) (\<lambda>ok t.
                if ok then tls_write_from G inner data (offset + n) t
                else Some (Inr (partial_count (offset + n)), t)) t
            | SslWantRead \<Rightarrow> co_bind (pump G inner) (\<lambda>p t.
                if p = PumpOk then tls_write_from G inner data offset t
                else Some (Inr (partial_count offset), t)) t
            | SslWantWrite \<Rightarrow> co_bind (flushWriteBio G inner) (\<lambda>ok t.
                if ok then tls_write_from G inner data offset t
                else Some (Inr (partial_count offset), t)) t
            | _ \<Rightarrow> Some (Inr (partial_count offset), t)))
      else Some (Inr (int (length data)), t))"

definition tls_writeFull :: "'e ssl_engine \<Rightarrow> 's stream_ops \<Rightarrow> bytes \<Rightarrow> (('s, 'e) tls, int) co" where
  "tls_writeFull G inner data t =
     (if tls_ssl t = None then Some (Inr (-1), t) else tls_write_from G inner data 0 t)"

definition tls_shutdownWrite :: "'e ssl_engine \<Rightarrow> 's stream_ops \<Rightarrow> (('s, 'e) tls, int) co" where
  "tls_shutdownWrite G inner t =
     (case tls_ssl t of
        None \<Rightarrow> on_inner (st_shutdownWrite inner) t
      | Some e \<Rightarrow> co_bind (flushWriteBio G inner) (\<lambda>_. on_inner (st_shutdownWrite inner))
          (t\<lparr>tls_ssl := Some (ssl_shutdown G e)\<rparr>))"

definition tls_stream_ops :: "'e ssl_engine \<Rightarrow> 's stream_ops \<Rightarrow> ('s, 'e) tls stream_ops" where
  "tls_stream_ops G inner = \<lparr>st_read = tls_read G inner, st_writeFull = tls_writeFull G inner,
     st_shutdownWrite = tls_shutdownWrite G inner\<rparr>"

end
