(* ===== verification/Tls_Props.thy ===== *)
theory Tls_Props
  imports Tls_Stream Streams_Props
begin

text \<open>
  \<open>TlsStream\<close> keeps the promise of a stream when OpenSSL keeps that of a record layer after its
  handshake (\<open>receives\<close>, \<open>seals\<close>): what one side writes, the other side reads, however the ciphertext
  is cut on its way and whatever the sizes in which OpenSSL takes and gives the data.
\<close>

section \<open>What OpenSSL promises\<close>

text \<open>
  \<open>plain e\<close> is the decrypted data not read yet, \<open>opens e c\<close> the data that further ciphertext \<open>c\<close> will
  give, \<open>wire e\<close> the ciphertext in the write BIO; \<open>I\<close> holds of an established connection with
  nothing to send.
\<close>

definition read_ok :: "('e \<Rightarrow> bytes) \<Rightarrow> ('e \<Rightarrow> bytes \<Rightarrow> bytes) \<Rightarrow> 'e \<Rightarrow> bytes ssl_ret \<Rightarrow> 'e \<Rightarrow> bool" where
  "read_ok plain opens e r e' \<longleftrightarrow>
     (case r of
        SslDone out \<Rightarrow> out \<noteq> [] \<and> plain e = out @ plain e'
      | SslWantRead \<Rightarrow> plain e = [] \<and> plain e' = []
      | SslZeroReturn \<Rightarrow> plain e = [] \<and> (\<forall>c. opens e c = [])
      | _ \<Rightarrow> False)"

definition receives ::
    "'e ssl_engine \<Rightarrow> ('e \<Rightarrow> bytes) \<Rightarrow> ('e \<Rightarrow> bytes \<Rightarrow> bytes) \<Rightarrow> ('e \<Rightarrow> bool) \<Rightarrow> bool" where
  "receives G plain opens I \<longleftrightarrow>
     (\<forall>e. I e \<longrightarrow> wbio_pending G e = 0 \<and> opens e [] = []) \<and>
     (\<forall>e n r e'. I e \<and> 0 < n \<and> ssl_read G n e = (r, e') \<longrightarrow>
        I e' \<and> opens e' = opens e \<and> read_ok plain opens e r e') \<and>
     (\<forall>e c k e'. I e \<and> c \<noteq> [] \<and> rbio_write G c e = (k, e') \<longrightarrow>
        0 < k \<and> I e' \<and> plain e' = plain e @ opens e c \<and> (\<forall>d. opens e (c @ d) = opens e c @ opens e' d))"

lemma receives_idle:
  "receives G plain opens I \<Longrightarrow> I e \<Longrightarrow> wbio_pending G e = 0"
  "receives G plain opens I \<Longrightarrow> I e \<Longrightarrow> opens e [] = []"
  unfolding receives_def by blast+

lemma receives_read:
  assumes "receives G plain opens I" and "I e" and "0 < n" and "ssl_read G n e = (r, e')"
  shows "I e'" and "opens e' = opens e" and "read_ok plain opens e r e'"
  using assms unfolding receives_def by blast+

lemma receives_feed:
  assumes "receives G plain opens I" and "I e" and "c \<noteq> []" and "rbio_write G c e = (k, e')"
  shows "0 < k" and "I e'" and "plain e' = plain e @ opens e c" and "opens e (c @ d) = opens e c @ opens e' d"
  using assms unfolding receives_def by blast+

text \<open>\<open>P e f\<close>: the reader \<open>f\<close> is in step with the writer \<open>e\<close>.\<close>

definition seals ::
    "'e ssl_engine \<Rightarrow> ('e \<Rightarrow> bytes \<Rightarrow> bytes) \<Rightarrow> ('e \<Rightarrow> bool) \<Rightarrow> ('e \<Rightarrow> bytes) \<Rightarrow> ('e \<Rightarrow> 'e \<Rightarrow> bool) \<Rightarrow> bool" where
  "seals G opens I wire P \<longleftrightarrow>
     (\<forall>e. wbio_pending G e = length (wire e)) \<and>
     (\<forall>e n buf e'. wbio_read G n e = (buf, e') \<longrightarrow>
        buf = take n (wire e) \<and> wire e' = drop n (wire e) \<and> (\<forall>f. P e f \<longrightarrow> P e' f)) \<and>
     (\<forall>e f d r e'. P e f \<and> I f \<and> d \<noteq> [] \<and> wire e = [] \<and> ssl_write G d e = (r, e') \<longrightarrow>
        (\<exists>k. r = SslDone k \<and> 1 \<le> k \<and> k \<le> length d \<and> wire e' \<noteq> [] \<and> opens f (wire e') = take k d \<and>
           P e' (snd (rbio_write G (wire e') f))))"

lemma seals_write:
  assumes "seals G opens I wire P" and "P e f" and "I f" and "d \<noteq> []" and "wire e = []" and "ssl_write G d e = (r, e')"
  obtains k where "r = SslDone k" and "1 \<le> k" and "k \<le> length d" and "wire e' \<noteq> []"
    and "opens f (wire e') = take k d" and "P e' (snd (rbio_write G (wire e') f))"
  using assms unfolding seals_def by blast

section \<open>Reading\<close>

definition rr_chunk :: "bytes \<Rightarrow> recv_result" where
  "rr_chunk c = rr_of c (int (length c))"

lemma rr_of_simps [simp]:
  "rr_eof (rr_of d r) = (r = 0)" "rr_error (rr_of d r) = (r < 0)" "rr_ok (rr_of d r) = (r > 0)"
  "rr_data (rr_of d r) = d" "rr_result (rr_of d r) = r"
  by (simp_all add: rr_of_def rr_defs)

lemma rr_chunk_simps [simp]:
  "rr_data (rr_chunk c) = c" "rr_eof (rr_chunk c) = (c = [])" "\<not> rr_error (rr_chunk c)"
  by (simp_all add: rr_chunk_def)

text \<open>Feeding one receive of ciphertext, when there is nothing to flush.\<close>

lemma pump_chunk:
  assumes "wbio_pending G e = 0" and "st_read inner 8192 s = Some (Inr (rr_chunk c), s')" and "c \<noteq> []"
    and "rbio_write G c e = (k, e')" and "0 < k"
  shows "pump G inner \<lparr>tls_ssl = Some e, tls_inner = s\<rparr> = Some (Inr PumpOk, \<lparr>tls_ssl = Some e', tls_inner = s'\<rparr>)"
  using assms flushWriteBio.simps [of G inner "\<lparr>tls_ssl = Some e, tls_inner = s\<rparr>"]
  by (simp add: pump_def fillReadBio_def co_bind_def on_inner_def embed_def)

lemma pump_end:
  assumes "wbio_pending G e = 0" and "st_read inner 8192 s = Some (Inr r, s')" and "\<not> rr_ok r"
  shows "pump G inner \<lparr>tls_ssl = Some e, tls_inner = s\<rparr> = Some (Inr FillFailed, \<lparr>tls_ssl = Some e, tls_inner = s'\<rparr>)"
  using assms rr_trichotomy [of r] flushWriteBio.simps [of G inner "\<lparr>tls_ssl = Some e, tls_inner = s\<rparr>"]
  by (auto simp: pump_def fillReadBio_def co_bind_def on_inner_def embed_def)

text \<open>One read, on a transport that brings the receives \<open>cs\<close> and then ends.\<close>

lemma tls_read_step:
  assumes recv: "receives G plain opens I" and reader: "stream_reader (st_read inner) script"
    and "I e" and "0 < n" and "script s = map rr_chunk cs @ final # later" and "[] \<notin> set cs" and "\<not> rr_ok final"
  shows "\<exists>rr e' s'. tls_read_loop G inner n \<lparr>tls_ssl = Some e, tls_inner = s\<rparr> =
      Some (Inr rr, \<lparr>tls_ssl = Some e', tls_inner = s'\<rparr>) \<and>
    (if plain e @ opens e (concat cs) = [] then rr_eof rr
     else rr_ok rr \<and> rr_data rr \<noteq> [] \<and> I e' \<and>
       (\<exists>cs'. plain e @ opens e (concat cs) = rr_data rr @ plain e' @ opens e' (concat cs') \<and>
          script s' = map rr_chunk cs' @ final # later \<and> [] \<notin> set cs'))"
  using assms(3,5,6)
proof (induction cs arbitrary: e s)
  case (Nil e s)
  obtain r e1 where rd: "ssl_read G n e = (r, e1)"
    by fastforce
  note post = receives_read [OF recv Nil(1) assms(4) rd]
  have none: "opens e [] = []" "wbio_pending G e1 = 0"
    using receives_idle [OF recv] Nil(1) post(1) by simp_all
  obtain s1 where s1: "st_read inner 8192 s = Some (Inr final, s1)"
    using stream_reader.read_cons [OF reader, of s final later] Nil(2) by auto
  show ?case
  proof (cases r)
    case (SslDone out)
    with post none(1) rd Nil(2) show ?thesis
      by (subst tls_read_loop.simps) (auto simp: read_ok_def intro!: exI [of _ "[] :: bytes list"])
  next
    case SslWantRead
    with post(3) none(1) rd pump_end [OF none(2) s1 assms(7)] show ?thesis
      by (subst tls_read_loop.simps) (simp add: read_ok_def co_bind_def)
  next
    case SslZeroReturn
    with post(3) none(1) rd show ?thesis
      by (subst tls_read_loop.simps) (simp add: read_ok_def)
  qed (use post(3) in \<open>simp_all add: read_ok_def\<close>)
next
  case (Cons c cs e s)
  obtain r e1 where rd: "ssl_read G n e = (r, e1)"
    by fastforce
  note post = receives_read [OF recv Cons.prems(1) assms(4) rd]
  have none: "wbio_pending G e1 = 0"
    using receives_idle [OF recv post(1)] by simp
  have c: "c \<noteq> []" "[] \<notin> set cs"
    using Cons.prems(3) by auto
  obtain s1 where s1: "st_read inner 8192 s = Some (Inr (rr_chunk c), s1)" "script s1 = map rr_chunk cs @ final # later"
    using stream_reader.read_cons [OF reader, of s "rr_chunk c" "map rr_chunk cs @ final # later" 8192] Cons.prems(2) by auto
  obtain k e2 where wr: "rbio_write G c e1 = (k, e2)"
    by fastforce
  note fed = receives_feed [OF recv post(1) c(1) wr]
  show ?case
  proof (cases r)
    case (SslDone out)
    with post rd Cons.prems(2,3) show ?thesis
      by (subst tls_read_loop.simps) (auto simp: read_ok_def intro!: exI [of _ "c # cs"])
  next
    case SslWantRead
    have "tls_read_loop G inner n \<lparr>tls_ssl = Some e, tls_inner = s\<rparr> =
        tls_read_loop G inner n \<lparr>tls_ssl = Some e2, tls_inner = s1\<rparr>"
      using SslWantRead rd pump_chunk [OF none s1(1) c(1) wr fed(1)]
      by (subst tls_read_loop.simps) (simp add: co_bind_def)
    moreover have "plain e @ opens e (concat (c # cs)) = plain e2 @ opens e2 (concat cs)"
      using SslWantRead post(2,3) fed(3) fed(4) [of "concat cs"] by (simp add: read_ok_def)
    ultimately show ?thesis
      using Cons.IH [OF fed(2) s1(2) c(2)] by (simp only:)
  next
    case SslZeroReturn
    with post(3) rd show ?thesis
      by (subst tls_read_loop.simps) (simp add: read_ok_def)
  qed (use post(3) in \<open>simp_all add: read_ok_def\<close>)
qed

text \<open>Reading until the end of the stream.\<close>

partial_function (option) read_all ::
    "(nat \<Rightarrow> ('s, recv_result) co) \<Rightarrow> nat \<Rightarrow> 's \<Rightarrow> ((exn + bytes) \<times> 's) option" where
  "read_all rd n s = co_bind (rd n) (\<lambda>rr s.
     if rr_eof rr \<or> rr_error rr then Some (Inr [], s)
     else co_bind (read_all rd n) (\<lambda>more s. Some (Inr (rr_data rr @ more), s)) s) s"

lemma tls_read_all:
  assumes recv: "receives G plain opens I" and reader: "stream_reader (st_read inner) script"
    and "I e" and "0 < n" and "script s = map rr_chunk cs @ final # later" and "[] \<notin> set cs" and "\<not> rr_ok final"
  shows "\<exists>t. read_all (tls_read G inner) n \<lparr>tls_ssl = Some e, tls_inner = s\<rparr> =
    Some (Inr (plain e @ opens e (concat cs)), t)"
  using assms(3,5,6)
proof (induction "length (plain e @ opens e (concat cs))" arbitrary: e s cs rule: less_induct)
  case less
  let ?total = "plain e @ opens e (concat cs)"
  from tls_read_step [OF recv reader less.prems(1) assms(4) less.prems(2,3) assms(7)] obtain rr e' s' where
    rd: "tls_read G inner n \<lparr>tls_ssl = Some e, tls_inner = s\<rparr> = Some (Inr rr, \<lparr>tls_ssl = Some e', tls_inner = s'\<rparr>)"
    and post: "if ?total = [] then rr_eof rr
     else rr_ok rr \<and> rr_data rr \<noteq> [] \<and> I e' \<and> (\<exists>cs'. ?total = rr_data rr @ plain e' @ opens e' (concat cs') \<and>
       script s' = map rr_chunk cs' @ final # later \<and> [] \<notin> set cs')"
    unfolding tls_read_def by (metis option.distinct(1) tls.select_convs(1))
  show ?case
  proof (cases "?total = []")
    case True
    with rd post show ?thesis
      by (subst read_all.simps) (simp add: co_bind_def)
  next
    case False
    with post obtain cs' where cs': "?total = rr_data rr @ plain e' @ opens e' (concat cs')" "rr_ok rr" "rr_data rr \<noteq> []"
      "I e'" "script s' = map rr_chunk cs' @ final # later" "[] \<notin> set cs'"
      unfolding if_not_P [OF False] by blast
    then have "length (plain e' @ opens e' (concat cs')) < length ?total"
      by (metis length_append length_greater_0_conv less_add_same_cancel2)
    from less.hyps [OF this cs'(4-6)] obtain t where
      "read_all (tls_read G inner) n \<lparr>tls_ssl = Some e', tls_inner = s'\<rparr> = Some (Inr (plain e' @ opens e' (concat cs')), t)"
      by auto
    with rd cs'(2) have "read_all (tls_read G inner) n \<lparr>tls_ssl = Some e, tls_inner = s\<rparr> =
        Some (Inr (rr_data rr @ plain e' @ opens e' (concat cs')), t)"
      by (subst read_all.simps) (simp add: co_bind_def rr_defs)
    then show ?thesis
      unfolding cs'(1) by blast
  qed
qed

section \<open>Writing\<close>

text \<open>A stream that takes every write; \<open>out\<close> is what it has taken.\<close>

definition takes_all :: "'s stream_ops \<Rightarrow> ('s \<Rightarrow> bytes) \<Rightarrow> bool" where
  "takes_all inner out \<longleftrightarrow>
     (\<forall>d s. \<exists>s'. st_writeFull inner d s = Some (Inr (int (length d)), s') \<and> out s' = out s @ d)"

lemma flush_all:
  assumes "seals G opens I wire P" and "takes_all inner out" and "P e f"
  shows "\<exists>e' s'. flushWriteBio G inner \<lparr>tls_ssl = Some e, tls_inner = s\<rparr> =
    Some (Inr True, \<lparr>tls_ssl = Some e', tls_inner = s'\<rparr>) \<and> wire e' = [] \<and> out s' = out s @ wire e \<and> P e' f"
  using assms(3)
proof (induction "length (wire e)" arbitrary: e s rule: less_induct)
  case less
  have pending: "wbio_pending G e = length (wire e)"
    using assms(1) unfolding seals_def by blast
  show ?case
  proof (cases "wire e = []")
    case True
    with pending less.prems show ?thesis
      by (subst flushWriteBio.simps) simp
  next
    case False
    obtain buf e1 where rd: "wbio_read G 16384 e = (buf, e1)"
      by fastforce
    then have e1: "buf = take 16384 (wire e)" "wire e1 = drop 16384 (wire e)" "P e1 f"
      using assms(1) less.prems unfolding seals_def by blast+
    have buf: "buf \<noteq> []" and shorter: "length (wire e1) < length (wire e)" and parts: "buf @ wire e1 = wire e"
      using False e1(1,2) by simp_all
    obtain s1 where s1: "st_writeFull inner buf s = Some (Inr (int (length buf)), s1)" "out s1 = out s @ buf"
      using assms(2) unfolding takes_all_def by blast
    have "flushWriteBio G inner \<lparr>tls_ssl = Some e, tls_inner = s\<rparr> = flushWriteBio G inner \<lparr>tls_ssl = Some e1, tls_inner = s1\<rparr>"
      using False pending rd buf s1(1)
      by (subst flushWriteBio.simps) (simp add: co_bind_def on_inner_def embed_def)
    with less.hyps [OF shorter e1(3), of s1] s1(2) parts show ?thesis
      by auto
  qed
qed

lemma tls_write_all:
  assumes recv: "receives G plain opens I" and seal: "seals G opens I wire P" and inner: "takes_all inner out"
    and "P e f" and "I f" and "wire e = []" and "offset \<le> length data"
  shows "\<exists>e' s' c. tls_write_from G inner data offset \<lparr>tls_ssl = Some e, tls_inner = s\<rparr> =
      Some (Inr (int (length data)), \<lparr>tls_ssl = Some e', tls_inner = s'\<rparr>) \<and>
    out s' = out s @ c \<and> opens f c = drop offset data"
  using assms(4-7)
proof (induction "length data - offset" arbitrary: offset e f s rule: less_induct)
  case less
  show ?case
  proof (cases "offset < length data")
    case False
    with less.prems(4) receives_idle(2) [OF recv less.prems(2)] show ?thesis
      by (subst tls_write_from.simps) (auto intro!: exI [of _ "[] :: bytes"])
  next
    case True
    obtain r e1 where wr: "ssl_write G (drop offset data) e = (r, e1)"
      by fastforce
    let ?c = "wire e1"
    let ?f = "snd (rbio_write G ?c f)"
    have "drop offset data \<noteq> []"
      using True by simp
    from seals_write [OF seal less.prems(1,2) this less.prems(3) wr] obtain k where k: "r = SslDone k" "1 \<le> k" "k \<le> length (drop offset data)" "?c \<noteq> []"
      "opens f ?c = take k (drop offset data)" "P e1 ?f"
      by blast
    obtain e2 s2 where fl: "flushWriteBio G inner \<lparr>tls_ssl = Some e1, tls_inner = s\<rparr> =
        Some (Inr True, \<lparr>tls_ssl = Some e2, tls_inner = s2\<rparr>)" "wire e2 = []" "out s2 = out s @ ?c" "P e2 ?f"
      using flush_all [OF seal inner k(6)] by blast
    obtain n f1 where fed: "rbio_write G ?c f = (n, f1)"
      by fastforce
    note f1 = receives_feed(2,4) [OF recv less.prems(2) k(4) fed]
    have "length data - (offset + k) < length data - offset" "offset + k \<le> length data"
      using True k(2,3) by auto
    from less.hyps [OF this(1) fl(4) _ fl(2) this(2), of s2] fed f1(1) obtain e' s' c where rest:
      "tls_write_from G inner data (offset + k) \<lparr>tls_ssl = Some e2, tls_inner = s2\<rparr> =
        Some (Inr (int (length data)), \<lparr>tls_ssl = Some e', tls_inner = s'\<rparr>)"
      "out s' = out s2 @ c" "opens f1 c = drop (offset + k) data"
      by auto
    have "tls_write_from G inner data offset \<lparr>tls_ssl = Some e, tls_inner = s\<rparr> =
        Some (Inr (int (length data)), \<lparr>tls_ssl = Some e', tls_inner = s'\<rparr>)"
      using True wr k(1) fl(1) rest(1) by (subst tls_write_from.simps) (simp add: co_bind_def)
    moreover have "opens f (?c @ c) = drop offset data"
      using f1(2) [of c] k(5) rest(3) by (simp add: add.commute flip: drop_drop)
    ultimately show ?thesis
      using rest(2) fl(3) by (intro exI [of _ e'] exI [of _ s'] exI [of _ "?c @ c"]) simp
  qed
qed

section \<open>Property\<close>


text \<open>A record layer that masks every byte, with the decrypted data and the write BIO as its state.\<close>

definition mask_bytes :: "bytes \<Rightarrow> bytes" where
  "mask_bytes = map (\<lambda>b. b XOR 90)"

definition mask_engine :: "(bytes \<times> bytes) ssl_engine" where
  "mask_engine = \<lparr>ssl_handshake = (\<lambda>_ e. (SslDone (), e)),
     ssl_read = (\<lambda>n (p, w). if p = [] then (SslWantRead, (p, w)) else (SslDone (take n p), (drop n p, w))),
     ssl_write = (\<lambda>d (p, w). (SslDone (min 2 (length d)), (p, w @ mask_bytes (take 2 d)))),
     ssl_shutdown = (\<lambda>e. e), rbio_write = (\<lambda>c (p, w). (int (length c), (p @ mask_bytes c, w))),
     wbio_pending = (\<lambda>(p, w). length w), wbio_read = (\<lambda>n (p, w). (take n w, (p, drop n w)))\<rparr>"

lemma mask_receives: "receives mask_engine fst (\<lambda>_. mask_bytes) (\<lambda>(p, w). w = [])"
  by (auto simp: receives_def mask_engine_def read_ok_def mask_bytes_def split: if_splits)

lemma mask_seals: "seals mask_engine (\<lambda>_. mask_bytes) (\<lambda>(p, w). w = []) snd (\<lambda>_ _. True)"
proof -
  have "mask_bytes (mask_bytes d) = d" for d
    by (simp add: mask_bytes_def comp_def xor.assoc)
  moreover have "mask_bytes d = [] \<longleftrightarrow> d = []" for d
    by (simp add: mask_bytes_def)
  ultimately show ?thesis
    by (auto simp: seals_def mask_engine_def min_def Suc_le_eq intro!: exI [of _ "min 2 (length d)" for d])
qed

definition sink_ops :: "bytes stream_ops" where
  "sink_ops = \<lparr>st_read = (\<lambda>_ _. None), st_writeFull = (\<lambda>d s. Some (Inr (int (length d)), s @ d)),
     st_shutdownWrite = co_return 0\<rparr>"


end
