(* ===== verification/Duplex.thy ===== *)
theory Duplex
  imports Streams_Props
begin

text \<open>
  The two relays of a connection, interleaved. A coroutine gives up control where it awaits an
  operation, so \<open>copyStream\<close> over \<open>AsyncStream\<close>s is cut there into steps (\<open>copy_step\<close>), which compute what
  \<open>copy_stream\<close> does; the relays of both directions are then run in any order of their completions.
  The locale \<open>independent_steps\<close> states when two processes do not disturb each other and shows that
  any interleaving of them is the one after the other.
\<close>

section \<open>Processes that share a state\<close>

primrec iterate :: "nat \<Rightarrow> ('p \<Rightarrow> 's \<Rightarrow> ('p \<times> 's) option) \<Rightarrow> 'p \<times> 's \<Rightarrow> ('p \<times> 's) option" where
  "iterate 0 step x = Some x"
| "iterate (Suc n) step x = (case step (fst x) (snd x) of None \<Rightarrow> None | Some y \<Rightarrow> iterate n step y)"

inductive interleave ::
    "('p \<Rightarrow> 's \<Rightarrow> ('p \<times> 's) option) \<Rightarrow> ('q \<Rightarrow> 's \<Rightarrow> ('q \<times> 's) option) \<Rightarrow> 'p \<times> 'q \<times> 's \<Rightarrow> 'p \<times> 'q \<times> 's \<Rightarrow> bool"
  for step1 step2 where
  first_moves: "step1 p s = Some (p', s') \<Longrightarrow> interleave step1 step2 (p, q, s) (p', q, s')"
| second_moves: "step2 q s = Some (q', s') \<Longrightarrow> interleave step1 step2 (p, q, s) (p, q', s')"

inductive_cases interleave_cases: "interleave step1 step2 (p, q, s) (p', q', s')"

lemma interleaveE [consumes 1, case_names first second]:
  assumes "interleave step1 step2 (p, q, s) (p', q', s')"
  obtains "step1 p s = Some (p', s')" "q' = q" | "step2 q s = Some (q', s')" "p' = p"
  using assms by (auto elim: interleave_cases)

lemma iterate_add:
  "iterate m step x = Some y \<Longrightarrow> iterate n step y = z \<Longrightarrow> iterate (m + n) step x = z"
  by (induction m arbitrary: x) (auto split: option.splits)

text \<open>A step of one process neither disables nor changes a step of the other.\<close>

locale independent_steps =
  fixes step1 :: "'p \<Rightarrow> 's \<Rightarrow> ('p \<times> 's) option" and step2 :: "'q \<Rightarrow> 's \<Rightarrow> ('q \<times> 's) option"
  assumes commute: "step1 p s = Some (p', s1) \<Longrightarrow> step2 q s = Some (q', s2) \<Longrightarrow>
      \<exists>t. step2 q s1 = Some (q', t) \<and> step1 p s2 = Some (p', t)"
    and second_before: "step1 p s = Some (p', s1) \<Longrightarrow> step2 q s1 = Some (q', t) \<Longrightarrow> \<exists>s2. step2 q s = Some (q', s2)"
    and first_before: "step2 q s = Some (q', s2) \<Longrightarrow> step1 p s2 = Some (p', t) \<Longrightarrow> \<exists>s1. step1 p s = Some (p', s1)"
begin

lemma first_over_second:
  "iterate n step2 (q, s) = Some (q', t) \<Longrightarrow> step1 p t = Some (p', t') \<Longrightarrow>
    \<exists>v. step1 p s = Some (p', v) \<and> iterate n step2 (q, v) = Some (q', t')"
proof (induction n arbitrary: q s)
  case (Suc n)
  then obtain q1 s2 where s2: "step2 q s = Some (q1, s2)" "iterate n step2 (q1, s2) = Some (q', t)"
    by (auto split: option.splits)
  from Suc.IH [OF s2(2) Suc.prems(2)] obtain v2 where v2: "step1 p s2 = Some (p', v2)" "iterate n step2 (q1, v2) = Some (q', t')"
    by blast
  obtain v where v: "step1 p s = Some (p', v)"
    using first_before [OF s2(1) v2(1)] by blast
  from commute [OF v s2(1)] v2 have "step2 q v = Some (q1, v2)"
    by auto
  with v v2 show ?case by auto
qed simp

lemma second_over_first:
  "iterate n step1 (p, s) = Some (p', v) \<Longrightarrow> step2 q s = Some (q', s2) \<Longrightarrow>
    \<exists>v'. step2 q v = Some (q', v') \<and> iterate n step1 (p, s2) = Some (p', v')"
proof (induction n arbitrary: p s s2)
  case (Suc n)
  then obtain p1 s1 where s1: "step1 p s = Some (p1, s1)" "iterate n step1 (p1, s1) = Some (p', v)"
    by (auto split: option.splits)
  from commute [OF s1(1) Suc.prems(2)] obtain t where t: "step2 q s1 = Some (q', t)" "step1 p s2 = Some (p1, t)"
    by blast
  from Suc.IH [OF s1(2) t(1)] t(2) show ?case by auto
qed simp

lemma sequential:
  "(interleave step1 step2)\<^sup>*\<^sup>* (p, q, s) (p', q', t) \<Longrightarrow>
    \<exists>m n v. iterate m step1 (p, s) = Some (p', v) \<and> iterate n step2 (q, v) = Some (q', t)"
proof (induction "(p', q', t)" arbitrary: p' q' t rule: rtranclp_induct)
  case base
  have "iterate 0 step1 (p, s) = Some (p, s)" "iterate 0 step2 (q, s) = Some (q, s)"
    by simp_all
  with base show ?case by blast
next
  case (step y)
  obtain p1 q1 u where y: "y = (p1, q1, u)"
    by (cases y)
  from step(3) [OF y] obtain m n v where mn: "iterate m step1 (p, s) = Some (p1, v)" "iterate n step2 (q, v) = Some (q1, u)"
    by blast
  from step(2) [unfolded y] show ?case
  proof (cases rule: interleaveE)
    case first
    then obtain v' where v': "step1 p1 v = Some (p', v')" "iterate n step2 (q, v') = Some (q', t)"
      using first_over_second [OF mn(2)] by blast
    then have "iterate (m + 1) step1 (p, s) = Some (p', v')"
      by (intro iterate_add [OF mn(1)]) simp
    with v' show ?thesis by blast
  next
    case second
    then have "iterate (n + 1) step2 (q, v) = Some (q', t)"
      by (intro iterate_add [OF mn(2)]) simp
    with mn second show ?thesis by blast
  qed
qed

text \<open>If the one after the other ends, then every schedule ends there, after the same number of steps.\<close>

lemma step_towards_end:
  assumes "iterate m step1 (p, s) = Some (p', v)" and "iterate n step2 (q, v) = Some (q', t)"
    and "\<And>s. step1 p' s = None" and "\<And>s. step2 q' s = None" and "interleave step1 step2 (p, q, s) (p1, q1, s1)"
  shows "\<exists>m' n' v'. m + n = Suc (m' + n') \<and> iterate m' step1 (p1, s1) = Some (p', v') \<and> iterate n' step2 (q1, v') = Some (q', t)"
  using assms(5)
proof (cases rule: interleaveE)
  case first
  with assms(1,3) obtain k where "m = Suc k" "iterate k step1 (p1, s1) = Some (p', v)"
    by (cases m) auto
  with first assms(2) show ?thesis
    by (intro exI [of _ k] exI [of _ n] exI [of _ v]) simp
next
  case second
  from second_over_first [OF assms(1) second(1)] obtain v' where
    v': "step2 q v = Some (q1, v')" "iterate m step1 (p, s1) = Some (p', v')"
    by blast
  with assms(2,4) obtain k where "n = Suc k" "iterate k step2 (q1, v') = Some (q', t)"
    by (cases n) auto
  with second v' show ?thesis
    by (intro exI [of _ m] exI [of _ k] exI [of _ v']) simp
qed

lemma one_after_other:
  "iterate m step1 (p, s) = Some (p', v) \<Longrightarrow> iterate n step2 (q, v) = Some (q', t) \<Longrightarrow>
    (interleave step1 step2 ^^ (m + n)) (p, q, s) (p', q', t)"
proof (induction m arbitrary: p s)
  case 0
  have "(interleave step1 step2 ^^ n) (p, q, s) (p, q', t)" if "iterate n step2 (q, s) = Some (q', t)"
    using that
  proof (induction n arbitrary: q s)
    case (Suc n)
    then obtain q1 s1 where q1: "step2 q s = Some (q1, s1)" "iterate n step2 (q1, s1) = Some (q', t)"
      by (auto split: option.splits)
    from Suc.IH [of q1 s1] q1 have "(interleave step1 step2 ^^ n) (p, q1, s1) (p, q', t)"
      by simp
    with second_moves [of step2 q s q1 s1 step1 p] q1(1) show ?case
      by (metis relpowp_Suc_I2)
  qed simp
  with 0 show ?case by simp
next
  case (Suc m)
  then obtain p1 s1 where p1: "step1 p s = Some (p1, s1)" "iterate m step1 (p1, s1) = Some (p', v)"
    by (auto split: option.splits)
  from Suc.IH [OF p1(2) Suc.prems(2)] first_moves [of step1 p s p1 s1 step2 q] p1(1) show ?case
    by (metis add_Suc relpowp_Suc_I2)
qed

lemma every_schedule:
  assumes "iterate m step1 (p, s) = Some (p', v)" and "iterate n step2 (q, v) = Some (q', t)"
    and "\<And>s. step1 p' s = None" and "\<And>s. step2 q' s = None" and "(interleave step1 step2 ^^ k) (p, q, s) x"
  shows "k \<le> m + n \<and> (interleave step1 step2 ^^ (m + n - k)) x (p', q', t)"
  using assms(1,2,5)
proof (induction k arbitrary: p q s m n v)
  case 0
  then show ?case using one_after_other by auto
next
  case (Suc k)
  then obtain y where y: "interleave step1 step2 (p, q, s) y" "(interleave step1 step2 ^^ k) y x"
    by (metis relpowp_Suc_D2)
  obtain p1 q1 s1 where "y = (p1, q1, s1)"
    by (cases y)
  with step_towards_end [OF Suc.prems(1,2) assms(3,4)] y obtain m' n' v' where
    "m + n = Suc (m' + n')" "iterate m' step1 (p1, s1) = Some (p', v')" "iterate n' step2 (q1, v') = Some (q', t)"
    by blast
  with Suc.IH [of m' p1 s1 v' n' q1] y \<open>y = (p1, q1, s1)\<close> show ?case
    by simp
qed

end

section \<open>copyStream in steps\<close>

text \<open>
  Where \<open>copyStream\<close> over two \<open>AsyncStream\<close>s is suspended: in \<open>src.read()\<close>, in \<open>AsyncStream::writeFull\<close>
  at \<open>offset\<close>, in \<open>dst.shutdownWrite()\<close>, at its end. \<open>copy_loop\<close> is the test of the \<open>while\<close>, \<open>copy_write\<close> the
  test of the loop in \<open>writeFull\<close> and what follows it; \<open>copy_step\<close> is one completion.
\<close>

datatype copy_at = CopyRead | CopyWrite bytes nat | CopyShut bool | CopyDone bool

definition copy_loop :: "bool \<Rightarrow> copy_at" where
  "copy_loop stop = (if stop then CopyDone False else CopyRead)"

definition copy_written :: "bool \<Rightarrow> int \<Rightarrow> copy_at" where
  "copy_written stop written = (if written \<le> 0 then CopyDone False else copy_loop stop)"

definition copy_write :: "bool \<Rightarrow> bytes \<Rightarrow> nat \<Rightarrow> copy_at" where
  "copy_write stop data offset =
     (if offset < length data then CopyWrite data offset else copy_written stop (int (length data)))"

fun copy_step :: "bool \<Rightarrow> int \<Rightarrow> int \<Rightarrow> copy_at \<Rightarrow> net \<Rightarrow> (copy_at \<times> net) option" where
  "copy_step stop dst src CopyRead w =
     (case rx w src of
        [] \<Rightarrow> None
      | c # cs \<Rightarrow>
          (let rr = recv_complete c in
           Some (if rr_eof rr then CopyShut True
                 else if rr_error rr then CopyShut False
                 else copy_write stop (rr_data rr) 0,
                 w\<lparr>rx := (rx w)(src := cs)\<rparr>)))"
| "copy_step stop dst src (CopyWrite data offset) w =
     (case async_send dst (drop offset data) w of
        Some (Inr r, w') \<Rightarrow>
          Some (if r \<le> 0 then copy_written stop (if offset > 0 then int offset else r)
                else copy_write stop data (offset + nat r), w')
      | _ \<Rightarrow> None)"
| "copy_step stop dst src (CopyShut result) w =
     (case async_shutdown dst w of
        Some (Inr _, w') \<Rightarrow> Some (CopyDone result, w')
      | _ \<Rightarrow> None)"
| "copy_step stop dst src (CopyDone result) w = None"

text \<open>What is left of \<open>copy_stream\<close> at such a place.\<close>

fun copy_rest :: "bool \<Rightarrow> int \<Rightarrow> int \<Rightarrow> copy_at \<Rightarrow> (net, bool) co" where
  "copy_rest stop dst src CopyRead =
     co_bind (async_recv src 8192) (\<lambda>rr w.
       if rr_eof rr then co_bind (async_shutdown dst) (\<lambda>_. co_return True) w
       else if rr_error rr then co_bind (async_shutdown dst) (\<lambda>_. co_return False) w
       else co_bind (async_writeFull dst (rr_data rr)) (\<lambda>written w.
         if written \<le> 0 then Some (Inr False, w)
         else copy_stream (async_stream dst) (async_stream src) (\<lambda>_. stop) w) w)"
| "copy_rest stop dst src (CopyWrite data offset) =
     co_bind (write_full_from (async_send dst) data offset) (\<lambda>written w.
       if written \<le> 0 then Some (Inr False, w)
       else copy_stream (async_stream dst) (async_stream src) (\<lambda>_. stop) w)"
| "copy_rest stop dst src (CopyShut result) = co_bind (async_shutdown dst) (\<lambda>_. co_return result)"
| "copy_rest stop dst src (CopyDone result) = co_return result"

lemma copy_rest_loop:
  "copy_rest stop dst src (copy_loop stop) = copy_stream (async_stream dst) (async_stream src) (\<lambda>_. stop)"
proof (cases stop)
  case True
  then show ?thesis
    by (intro ext, subst copy_stream.simps) (simp add: copy_loop_def co_return_def)
next
  case False
  then show ?thesis
    by (intro ext, subst copy_stream.simps) (simp add: copy_loop_def cong: if_cong)
qed

lemma copy_rest_written:
  "copy_rest stop dst src (copy_written stop r) w =
     (if r \<le> 0 then Some (Inr False, w)
      else copy_stream (async_stream dst) (async_stream src) (\<lambda>_. stop) w)"
  by (simp add: copy_written_def copy_rest_loop co_return_def)

lemma copy_rest_write:
  "copy_rest stop dst src (copy_write stop data offset) w =
     co_bind (write_full_from (async_send dst) data offset) (\<lambda>written w.
       if written \<le> 0 then Some (Inr False, w)
       else copy_stream (async_stream dst) (async_stream src) (\<lambda>_. stop) w) w"
  by (simp add: copy_write_def copy_rest_written write_full_from.simps [of _ data offset] co_bind_def)

fun copy_ok :: "copy_at \<Rightarrow> bool" where
  "copy_ok (CopyWrite data offset) = (offset < length data)"
| "copy_ok _ = True"

lemma copy_ok_places [simp]: "copy_ok (copy_loop stop)" "copy_ok (copy_written stop r)" "copy_ok (copy_write stop data offset)"
  by (simp_all add: copy_loop_def copy_written_def copy_write_def)

lemma copy_step_ok: "copy_step stop dst src p w = Some (p', w') \<Longrightarrow> copy_ok p'"
  by (cases p) (auto simp: Let_def split: list.splits option.splits sum.splits if_splits)

lemma copy_step_rest:
  assumes "copy_step stop dst src p w = Some (p', w')" and "copy_ok p"
  shows "copy_rest stop dst src p w = copy_rest stop dst src p' w'"
proof (cases p)
  case CopyRead
  with assms show ?thesis
    by (auto simp: co_bind_def [of "async_recv _ _"] async_recv_def async_writeFull_def copy_rest_write Let_def split: list.splits)
next
  case (CopyWrite data offset)
  with assms show ?thesis
    by (auto simp: copy_rest_write copy_rest_written co_bind_def write_full_from.simps [of _ data offset]
        split: option.splits sum.splits if_splits)
qed (use assms in \<open>auto simp: co_bind_def async_shutdown_def co_return_def\<close>)

text \<open>Without a completion to come, the coroutine stays where it is.\<close>

lemma copy_step_stuck:
  "copy_step stop dst src p w = None \<Longrightarrow> copy_ok p \<Longrightarrow> copy_rest stop dst src p w \<noteq> None \<Longrightarrow> \<exists>b. p = CopyDone b"
  by (cases p)
    (auto simp: co_bind_def async_recv_def async_shutdown_def async_send_def Let_def
      write_full_from.simps [of "async_send _"] split: list.splits option.splits sum.splits)

lemma copy_steps_rest:
  "iterate n (copy_step stop dst src) (p, w) = Some (p', w') \<Longrightarrow> copy_ok p \<Longrightarrow>
    copy_rest stop dst src p w = copy_rest stop dst src p' w' \<and> copy_ok p'"
proof (induction n arbitrary: p w)
  case (Suc n)
  then obtain q v where "copy_step stop dst src p w = Some (q, v)" "iterate n (copy_step stop dst src) (q, v) = Some (p', w')"
    by (auto split: option.splits)
  with Suc.IH [of q v] Suc.prems(2) copy_step_rest [of stop dst src p w q v] copy_step_ok show ?case
    by auto
qed simp

text \<open>Every step takes a completion, and the shutdown comes last.\<close>

definition copy_left :: "int \<Rightarrow> int \<Rightarrow> copy_at \<times> net \<Rightarrow> nat" where
  "copy_left dst src x = (case x of (p, w) \<Rightarrow> length (rx w src) + length (tx w dst) +
     (case p of CopyDone _ \<Rightarrow> 0 | CopyShut _ \<Rightarrow> 1 | _ \<Rightarrow> 2))"

lemma copy_step_left:
  "copy_step stop dst src p w = Some x \<Longrightarrow> copy_left dst src x < copy_left dst src (p, w)"
  by (cases p)
    (auto simp: copy_left_def async_send_def async_shutdown_def Let_def copy_loop_def copy_written_def copy_write_def
      split: list.splits if_splits)

lemma copy_steps_end:
  "\<exists>n p' w'. iterate n (copy_step stop dst src) (p, w) = Some (p', w') \<and> copy_step stop dst src p' w' = None"
proof (induction "copy_left dst src (p, w)" arbitrary: p w rule: less_induct)
  case less
  show ?case
  proof (cases "copy_step stop dst src p w")
    case None
    then show ?thesis by (intro exI [of _ 0]) simp
  next
    case (Some x)
    obtain q v where x: "x = (q, v)"
      by (cases x)
    from less [of q v] copy_step_left [OF Some] x obtain n p' w' where
      "iterate n (copy_step stop dst src) (q, v) = Some (p', w')" "copy_step stop dst src p' w' = None"
      by blast
    with Some x show ?thesis
      by (intro exI [of _ "Suc n"]) simp
  qed
qed

text \<open>The steps compute \<open>copy_stream\<close>.\<close>

lemma copy_steps_iff:
  "(\<exists>n. iterate n (copy_step stop dst src) (copy_loop stop, w) = Some (CopyDone b, w')) \<longleftrightarrow>
    copy_stream (async_stream dst) (async_stream src) (\<lambda>_. stop) w = Some (Inr b, w')"
proof
  assume "\<exists>n. iterate n (copy_step stop dst src) (copy_loop stop, w) = Some (CopyDone b, w')"
  then show "copy_stream (async_stream dst) (async_stream src) (\<lambda>_. stop) w = Some (Inr b, w')"
    by (auto dest!: copy_steps_rest simp: copy_rest_loop co_return_def)
next
  assume run: "copy_stream (async_stream dst) (async_stream src) (\<lambda>_. stop) w = Some (Inr b, w')"
  obtain n p v where n: "iterate n (copy_step stop dst src) (copy_loop stop, w) = Some (p, v)" "copy_step stop dst src p v = None"
    using copy_steps_end by blast
  from copy_steps_rest [OF n(1)] run have "copy_rest stop dst src p v = Some (Inr b, w')" "copy_ok p"
    by (simp_all add: copy_rest_loop)
  moreover from this copy_step_stuck [OF n(2)] obtain c where "p = CopyDone c"
    by auto
  ultimately show "\<exists>n. iterate n (copy_step stop dst src) (copy_loop stop, w) = Some (CopyDone b, w')"
    using n(1) by (auto simp: co_return_def)
qed

section \<open>Both directions at once\<close>

lemma copy_steps_commute:
  assumes "c \<noteq> t" and "copy_step stop t c p w = Some (p', w1)" and "copy_step stop c t q w = Some (q', w2)"
  shows "\<exists>v. copy_step stop c t q w1 = Some (q', v) \<and> copy_step stop t c p w2 = Some (p', v)"
  using assms
  by (cases w; cases p; cases q)
    (auto simp: async_send_def async_shutdown_def Let_def fun_upd_twist [of c t] split: list.splits)

lemma copy_steps_before:
  assumes "c \<noteq> t" and "copy_step stop t c p w = Some (p', w1)" and "copy_step stop c t q w1 = Some (q', v)"
  shows "\<exists>w2. copy_step stop c t q w = Some (q', w2)"
  using assms
  by (cases p; cases q)
    (auto simp: async_send_def async_shutdown_def Let_def split: list.splits)

text \<open>The two relays of a connection with the descriptors \<open>c\<close> and \<open>t\<close>. They never are the same descriptor; the
interpretation gives such a connection no second relay.\<close>

interpretation relays: independent_steps "copy_step stop t c" "if c = t then (\<lambda>_ _. None) else copy_step stop c t"
  for stop c t
  by unfold_locales (auto split: if_splits dest: copy_steps_commute copy_steps_before copy_steps_before [OF not_sym])

abbreviation duplex :: "int \<Rightarrow> int \<Rightarrow> copy_at \<times> copy_at \<times> net \<Rightarrow> copy_at \<times> copy_at \<times> net \<Rightarrow> bool" where
  "duplex c t \<equiv> interleave (copy_step False t c) (copy_step False c t)"

text \<open>A relay leaves the other direction alone.\<close>

lemma copy_step_other:
  "copy_step stop t c p w = Some (p', w') \<Longrightarrow> c \<noteq> t \<Longrightarrow>
    rx w' t = rx w t \<and> tx w' c = tx w c \<and> sent w' c = sent w c \<and> wr_shut w' c = wr_shut w c"
  by (cases p) (auto simp: async_send_def async_shutdown_def Let_def split: list.splits)

lemma copy_steps_other:
  "iterate n (copy_step stop t c) (p, w) = Some (p', w') \<Longrightarrow> c \<noteq> t \<Longrightarrow>
    rx w' t = rx w t \<and> tx w' c = tx w c \<and> sent w' c = sent w c \<and> wr_shut w' c = wr_shut w c"
proof (induction n arbitrary: p w)
  case (Suc n)
  then obtain q v where "copy_step stop t c p w = Some (q, v)" "iterate n (copy_step stop t c) (q, v) = Some (p', w')"
    by (auto split: option.splits)
  with Suc.IH [of q v] Suc.prems(2) copy_step_other [of stop t c p w q v] show ?case
    by simp
qed simp

lemma copy_stream_iterate:
  "copy_stream (async_stream dst) (async_stream src) (\<lambda>_. False) w = Some (Inr b, w') \<Longrightarrow>
    \<exists>n. iterate n (copy_step False dst src) (CopyRead, w) = Some (CopyDone b, w')"
  using copy_steps_iff [of False dst src w b w'] by (simp add: copy_loop_def)

text \<open>An interleaving that ends is the one relay after the other, whichever order is thought of.\<close>

lemma duplex_sequential:
  assumes "c \<noteq> t" and "(duplex c t)\<^sup>*\<^sup>* (CopyRead, CopyRead, w) (CopyDone a, CopyDone b, w')"
  shows "\<exists>v. copy_stream (async_stream t) (async_stream c) (\<lambda>_. False) w = Some (Inr a, v) \<and>
    copy_stream (async_stream c) (async_stream t) (\<lambda>_. False) v = Some (Inr b, w')"
proof -
  obtain m n v where "iterate m (copy_step False t c) (CopyRead, w) = Some (CopyDone a, v)"
    "iterate n (copy_step False c t) (CopyRead, v) = Some (CopyDone b, w')"
    using relays.sequential [of False t c CopyRead CopyRead w "CopyDone a" "CopyDone b" w'] assms by auto
  then show ?thesis
    using copy_steps_iff [of False t c w a v] copy_steps_iff [of False c t v b w'] by (auto simp: copy_loop_def)
qed

lemma duplex_every_schedule:
  assumes "c \<noteq> t" and "copy_stream (async_stream t) (async_stream c) (\<lambda>_. False) w = Some (Inr a, v)"
    and "copy_stream (async_stream c) (async_stream t) (\<lambda>_. False) v = Some (Inr b, w')"
  shows "\<exists>N. \<forall>k x. (duplex c t ^^ k) (CopyRead, CopyRead, w) x \<longrightarrow>
    k \<le> N \<and> (duplex c t ^^ (N - k)) x (CopyDone a, CopyDone b, w')"
proof -
  obtain m n where mn: "iterate m (copy_step False t c) (CopyRead, w) = Some (CopyDone a, v)"
    "iterate n (copy_step False c t) (CopyRead, v) = Some (CopyDone b, w')"
    using copy_stream_iterate [OF assms(2)] copy_stream_iterate [OF assms(3)] by blast
  have "k \<le> m + n \<and> (duplex c t ^^ (m + n - k)) x (CopyDone a, CopyDone b, w')"
    if "(duplex c t ^^ k) (CopyRead, CopyRead, w) x" for k x
    using relays.every_schedule [of m False t c CopyRead w "CopyDone a" v n CopyRead "CopyDone b" w' k x] mn that assms(1)
    by simp
  then show ?thesis by blast
qed

text \<open>C4: The two relays of a TCP connection, run in any interleaving of their completions: no schedule gets
stuck or goes on for ever, all take the same number of steps and end in the same state, in which the
target has received what the client sent and the client what the target sent, each in order and
followed by the end of the stream; the result of each relay tells how its source ended.\<close>

theorem relays_interleaved:
  assumes "c \<noteq> t" and "rx w c = map (\<lambda>d. (int (length d), d)) up @ (rc, bc) # latec" and "[] \<notin> set up" and "rc \<le> 0"
    and "rx w t = map (\<lambda>d. (int (length d), d)) down @ (rt, bt) # latet" and "[] \<notin> set down" and "rt \<le> 0"
    and "accept_all up (tx w t) = Some restt" and "accept_all down (tx w c) = Some restc"
  shows "\<exists>N w'. (\<forall>k x. (duplex c t ^^ k) (CopyRead, CopyRead, w) x \<longrightarrow>
        k \<le> N \<and> (duplex c t ^^ (N - k)) x (CopyDone (rc = 0), CopyDone (rt = 0), w')) \<and>
    sent w' t = sent w t @ concat up \<and> wr_shut w' t \<and> sent w' c = sent w c @ concat down \<and> wr_shut w' c"
proof -
  obtain v where v: "copy_stream (async_stream t) (async_stream c) (\<lambda>_. False) w = Some (Inr (rc = 0), v)"
    "sent v t = sent w t @ concat up" "wr_shut v t"
    using copy_stream_chunks [OF assms(2,4,3,8)] by blast
  have other: "rx v t = rx w t" "tx v c = tx w c" "sent v c = sent w c"
    using copy_stream_iterate [OF v(1)] copy_steps_other assms(1) by blast+
  obtain w' where w': "copy_stream (async_stream c) (async_stream t) (\<lambda>_. False) v = Some (Inr (rt = 0), w')"
    "sent w' c = sent v c @ concat down" "wr_shut w' c"
    using copy_stream_chunks [of v t down rt bt latet c restc] assms(5-7,9) other by auto
  have "sent w' t = sent v t" "wr_shut w' t = wr_shut v t"
    using copy_stream_iterate [OF w'(1)] copy_steps_other assms(1) by blast+
  with duplex_every_schedule [OF assms(1) v(1) w'(1)] v w' other show ?thesis
    by auto
qed

lemma relays_interleaved_witness:
  "\<exists>N w'. (duplex 3 4 ^^ N) (CopyRead, CopyRead,
      net0\<lparr>rx := (\<lambda>fd. if fd = 3 then [(2, [1, 2]), (0, [])] else [(1, [7]), (-104, [])]), tx := (\<lambda>_. [1, 1])\<rparr>)
      (CopyDone True, CopyDone False, w') \<and> sent w' 4 = [1, 2] \<and> sent w' 3 = [7] \<and> wr_shut w' 3"
proof -
  let ?w = "net0\<lparr>rx := (\<lambda>fd. if fd = 3 then [(2, [1, 2]), (0, [])] else [(1, [7]), (-104, [])]), tx := (\<lambda>_. [1, 1])\<rparr>"
  obtain N w' where "\<forall>k x. (duplex 3 4 ^^ k) (CopyRead, CopyRead, ?w) x \<longrightarrow>
        k \<le> N \<and> (duplex 3 4 ^^ (N - k)) x (CopyDone True, CopyDone False, w')"
    and w': "sent w' 4 = [1, 2]" "sent w' 3 = [7]" "wr_shut w' 3"
    using relays_interleaved [of 3 4 ?w "[[1, 2]]" 0 "[]" "[]" "[[7]]" "-104" "[]" "[]" "[]" "[1]"]
    by (auto simp: net0_def accept.simps)
  then have "(duplex 3 4 ^^ 0) (CopyRead, CopyRead, ?w) (CopyRead, CopyRead, ?w) \<longrightarrow>
      (duplex 3 4 ^^ (N - 0)) (CopyRead, CopyRead, ?w) (CopyDone True, CopyDone False, w')"
    by blast
  with w' show ?thesis
    by (intro exI [of _ N] exI [of _ w']) simp
qed

end
