(* ===== verification/Spec2Isabelle.thy ===== *)
theory Spec2Isabelle
  imports Main_Props Tasks_Props Share_Link_Props Logger_Props Tls_Context_Props Sockets_Props Server_Loop Client_Loop
    Uuid Streams_Props Protocol_Props Vision_Props Socks5_Props Udp_Relay_Props Config_Props Uring_Props Ring
    Encryption_Props Server_Vision Client_Props Tls_Props Duplex
begin

text \<open>
  A verification development of cppvless: a VLESS proxy server and a SOCKS5 client for it, written
  in C++20 with coroutines on io_uring.

  \<^bold>\<open>The program.\<close> An application speaks SOCKS5 to the client (src/client), which opens a tunnel to the
  server, sends a VLESS request (src/proxy/vless/encoder.cpp) and relays. The server (src/server)
  decodes the request, checks the user's UUID, answers with two bytes, connects to the target and
  relays in both directions, plainly or with Vision padding; UDP travels in length-prefixed packets.
  Both sides run on one event loop per worker (src/server/event_loop.cpp) whose operations are io_uring
  requests (include/coro); src/main.cpp and src/client/client_main.cpp start them from a configuration
  file and a command line.

  \<^bold>\<open>How code is modelled.\<close> A coroutine is a state function \<open>('s, 'a) co\<close> (Vless_Prelude): \<open>None\<close> is a
  coroutine that stays suspended, \<open>Inl\<close> an exception, \<open>Inr\<close> its value; \<open>co_bind\<close> is \<open>co_await\<close>. Loops
  that may run for ever are \<open>partial_function (option)\<close>; loops over finite data are functions with a
  measure. The kernel is the record \<open>net\<close> (Streams): for every descriptor the completions its receives
  and sends will get, in order; what was sent is logged. Each statement about a run thus holds for
  every segmentation of the byte stream. Bytes are \<open>8 word\<close>, ports and lengths on the wire \<open>16 word\<close>,
  varints \<open>64 word\<close>. Logging, which returns nothing, is left out.

  \<^bold>\<open>The theories.\<close>
  \<^item> Vless_Prelude: bytes, decimal numerals, the coroutine type and its rules.
  \<^item> Streams, Streams_Props: src/coro (AsyncStream, copyStream, UringBufferedStream); the locales
    \<open>stream_reader\<close> and \<open>byte_source\<close>, which carry the simulation of a parser over a buffered stream by
    the same parser over a byte list. Stream_Frames: which receives a parser consumes.
  \<^item> Uuid: src/proxy/vless/validator.cpp and \<open>generateUuid\<close> of src/common/config.cpp.
  \<^item> Protocol, Protocol_Props: decoder.cpp and encoder.cpp of src/proxy/vless.
  \<^item> Vision, Vision_Props: vision.cpp, the padding and the TLS record detection.
  \<^item> Encryption, Encryption_Props: encryption.cpp, AEAD ciphers, key exchange, session.
  \<^item> Socks5, Socks5_Props: src/proxy/socks5. Udp_Relay, Udp_Relay_Props: the server's UDP relay and
    the client's packet framing.
  \<^item> Json, Config, Config_Props: src/common/config.cpp, parser, printer and the configuration files.
  \<^item> Uring_Ops, Uring_Props: include/coro/uring_awaitable.h, the operations in flight, their table and
    the dispatch of completions over a memory of coroutine frames (\<open>inductive\<close> reachability). Ring:
    src/net/io_uring.cpp, the owners of a ring and the loop over the completion queue.
  \<^item> Sys_Interface: socket addresses, logged system calls, and \<open>embed\<close>, which runs a coroutine of the
    network inside an object (locale \<open>part\<close>).
  \<^item> Server, Server_Props: src/server/vless_connection*.cpp, every coroutine of a connection, and the
    life of the two coroutines as a step relation (\<open>life_step\<close>). Server_Vision: its sessions with the
    Vision flow, composed with the reader and writer of Vision.
  \<^item> Tls_Stream, Tls_Props: src/net/tls_stream.cpp over an OpenSSL object that is a parameter.
  \<^item> Vless_Client, Client_Udp, Socks5_Connection, Client_Props: src/client.
  \<^item> Event_Loop, Event_Loop_Props: src/server/event_loop.cpp as a transition system between the loop's
    thread, the connections and calls of \<open>stop\<close>, over any implementation of \<open>EventLoopConnection\<close>
    (locale \<open>loop_connection\<close>), and event_loop_runner.cpp with its worker threads. Server_Loop and
    Client_Loop interpret the locale with the lives of the two kinds of connection.
  \<^item> Share_Link, Share_Link_Props: src/common/link.cpp. Logger, Logger_Props: src/common/log.cpp, the
    queue and its worker thread under any interleaving. Tls_Context, Tls_Context_Props: src/net/tls.cpp.
  \<^item> Server_Main, Client_Main, Main_Props: both programs from their arguments to their event loops.
  \<^item> Tasks, Tasks_Props: include/coro/task.h on a machine of coroutine frames; \<open>tasks_implement_co\<close> shows
    that it computes the state functions used everywhere else.
  \<^item> Sockets, Sockets_Props: src/net/socket.cpp, the blocking socket classes of the tests.
  \<^item> Duplex: \<open>copyStream\<close> cut into steps at its suspension points, and the two relays of a connection under any
    interleaving of their steps (locale \<open>independent_steps\<close>).
  \<^item> This theory: the properties that span client and server.

  \<^bold>\<open>What is shown.\<close> Round trips: requests, addons, responses, SOCKS5 requests and datagrams, UUIDs,
  Vision frames, encryption, TLS streams, configuration files, share links, command lines, stored
  certificates, IPv4 addresses, lines over a blocking socket. Functional behaviour under any segmentation: writing,
  relaying, both handshakes, both UDP directions, a whole server session and a whole client session,
  and the two composed, there (\<open>socks5_to_target\<close>) and back (\<open>target_to_socks5\<close>), and both directions at once
  under any schedule (\<open>relays_interleaved\<close>). Types: the keys and ciphers of a session. Safety and invariants: only registered users are served,
  completions never reach a destroyed operation and resume each wait once, a connection is reclaimed
  exactly when neither coroutine runs, the loop's table holds every connection under its own open
  descriptor and destroys each with its descriptors closed once, a server or client that starts is
  fit to run, log lines are written once and in order or counted as dropped, every socket and every ring has one
  owner, nonces do not repeat, no EVP object leaks. Liveness: a stopped loop returns, a closed connection
  is reclaimed, the logger drains. Errors: partial writes, lost and empty datagrams, failing workers,
  a \<open>stop\<close> that comes before \<open>run\<close>, bad certificates.

  \<^bold>\<open>Fuel.\<close> The JSON parser takes fuel; \<open>json_parse\<close> starts it with twice the length of the text plus one,
  and \<open>json_parse_terminates\<close> shows that this is enough for every text.

  \<^bold>\<open>Parameters and hypotheses.\<close> Name resolution, socket creation, connect, \<open>inet_pton\<close>, \<open>inet_ntop\<close>,
  \<open>strtod\<close>, the random generators, the clock, the file system's permissions, TLS, the vendored QR code
  generator and the functions OpenSSL computes are parameters. Where a
  property needs them it says so: \<open>crypto_ok\<close> (decryption inverts encryption, the two sides of X25519
  agree), \<open>receives\<close> and \<open>seals\<close> (an established TLS record layer), \<open>strtod_decimal\<close> (it reads decimal integers), \<open>inet_pton\<close> on 0.0.0.0; a connect that succeeds
  and sends that make progress are hypotheses on the kernel's completions (\<open>accept\<close>). That the loop's thread
  keeps moving is a hypothesis of the liveness of a stopped loop; that the kernel returns no open
  descriptor is part of the steps of the event loop and of the socket classes.

  \<^bold>\<open>Not modelled.\<close> The memory shared with the kernel behind liburing, apart from the entries submitted and
  the completions delivered; the vendored QR code generator (third_party), a parameter; the tests. The two
  relays of a connection are interleaved for plain TCP (Duplex), where they share nothing; with Vision they
  share the TLS state, which Server_Vision leaves arbitrary at each call, and elsewhere the coroutines of one
  connection are run one at a time. Their interleaving is also covered for the life of the object
  (\<open>life_step\<close>, \<open>sc_life_step\<close>), for the operations in flight (Uring_Ops) and for the loop (\<open>loop_step\<close>).
  Socket options, usage texts and progress messages are left out.
\<close>

section \<open>Client and server together\<close>



text \<open>C2: The way back, end to end: what the target sends, in receives of any shape, the server's target coroutine
passes to the client in order, followed by the end of the stream; and in whatever pieces it then arrives at
the SOCKS5 client, some of it perhaps already passed on with the handshake's response, the application
gets exactly the target's bytes after the SOCKS5 replies, and then the end of the stream. No TLS, no flow, no
encryption; the sends succeed on both sides.\<close>

theorem target_to_socks5:
  assumes "se_tls F = None" and "vc_command s = TCP" and "\<not> useVision s" and "\<not> useEncryption s" and "\<not> vc_closed s"
    and "rx (vc_net s) tfd = map chunk ds @ [(res, buf)]" and "res \<le> 0" and "[] \<notin> set ds"
    and "accept_all ds (tx (vc_net s) (clientFd s)) \<noteq> None"
  shows "\<exists>s'. targetTask F tfd s = Some (Inr (), s') \<and> targetReadDone s' \<and>
    sent (vc_net s') (clientFd s) = sent (vc_net s) (clientFd s) @ concat ds \<and> wr_shut (vc_net s') (clientFd s) \<and>
    (\<forall>c cs early before. \<not> sc_closed c \<and> sent (sc_net c) (appFd c) = before @ early \<and> early @ concat cs = concat ds \<and>
       [] \<notin> set cs \<and> rx (sc_net c) (remoteFd c) = map chunk cs @ [(0, [])] \<and>
       accept_all cs (tx (sc_net c) (appFd c)) \<noteq> None \<longrightarrow>
       (\<exists>c'. remoteTask (async_stream (remoteFd c)) c = Some (Inr (), c') \<and> remoteReadDone c' \<and>
          sent (sc_net c') (appFd c) = before @ concat ds \<and> wr_shut (sc_net c') (appFd c)))"
proof -
  obtain rest where "accept_all ds (tx (vc_net s) (clientFd s)) = Some rest"
    using assms(9) by blast
  from copy_in_connection [OF assms(5-8) this] obtain s1 where
    s1: "copy_stream (on_net_ops (async_stream (clientFd s))) (on_net_ops (async_stream tfd)) vc_closed s = Some (Inr (res = 0), s1)"
    "sent (vc_net s1) (clientFd s) = sent (vc_net s) (clientFd s) @ concat ds" "wr_shut (vc_net s1) (clientFd s)"
    by blast
  have server: "targetTask F tfd s = Some (Inr (), targetTask_end s1)"
    using s1(1) assms(1-4) by (simp add: targetTask_def target_relay_def clientStream_def client_ops_def)
  have ending: "targetReadDone (targetTask_end s1)" "vc_net (targetTask_end s1) = vc_net s1"
    by (simp_all add: targetTask_end_def vc_logs_def vc_net_def Let_def)
  have wire: "sent (vc_net (targetTask_end s1)) (clientFd s) = sent (vc_net s) (clientFd s) @ concat ds"
    "wr_shut (vc_net (targetTask_end s1)) (clientFd s)"
    by (simp_all add: ending(2) s1(2,3))
  from server ending(1) wire reply_to_application show ?thesis
    by (intro exI [of _ "targetTask_end s1"]) blast
qed

definition sample_reply_server :: vconn where
  "sample_reply_server = VlessConnection 5 (sample_evp 0) (net0\<lparr>rx := (\<lambda>_. [chunk [72], chunk [73, 33], (0, [])]), tx := (\<lambda>_. [1, 2])\<rparr>)"

definition sample_reply_client :: sconn where
  "sample_reply_client = (Socks5Connection 5 sample_client_config (net0\<lparr>rx := (\<lambda>_. [chunk [73], chunk [33], (0, [])]),
     tx := (\<lambda>_. [1, 1]), sent := (\<lambda>_. socks_ok_reply @ [72])\<rparr>))\<lparr>remoteFd := 7\<rparr>"

lemma target_to_socks5_witness:
  "\<exists>s c. targetTask sample_env 9 sample_reply_server = Some (Inr (), s) \<and> sent (vc_net s) 5 = [72, 73, 33] \<and>
    remoteTask (async_stream 7) sample_reply_client = Some (Inr (), c) \<and> sent (sc_net c) 5 = socks_ok_reply @ [72, 73, 33]"
proof -
  have "\<exists>s'. targetTask sample_env 9 sample_reply_server = Some (Inr (), s') \<and> targetReadDone s' \<and>
    sent (vc_net s') 5 = [72, 73, 33] \<and> wr_shut (vc_net s') 5 \<and>
    (\<forall>c cs early before. \<not> sc_closed c \<and> sent (sc_net c) (appFd c) = before @ early \<and> early @ concat cs = [72, 73, 33] \<and>
       [] \<notin> set cs \<and> rx (sc_net c) (remoteFd c) = map chunk cs @ [(0, [])] \<and>
       accept_all cs (tx (sc_net c) (appFd c)) \<noteq> None \<longrightarrow>
       (\<exists>c'. remoteTask (async_stream (remoteFd c)) c = Some (Inr (), c') \<and> remoteReadDone c' \<and>
          sent (sc_net c') (appFd c) = before @ [72, 73, 33] \<and> wr_shut (sc_net c') (appFd c)))"
    using target_to_socks5 [of sample_env sample_reply_server 9 "[[72], [73, 33]]" 0 "[]"]
    by (simp add: sample_reply_server_def sample_env_def VlessConnection_def vc_net_def ubs_init_def net0_def accept.simps)
  then obtain s' where s': "targetTask sample_env 9 sample_reply_server = Some (Inr (), s')" "sent (vc_net s') 5 = [72, 73, 33]"
    and client: "\<forall>c cs early before. \<not> sc_closed c \<and> sent (sc_net c) (appFd c) = before @ early \<and> early @ concat cs = [72, 73, 33] \<and>
       [] \<notin> set cs \<and> rx (sc_net c) (remoteFd c) = map chunk cs @ [(0, [])] \<and>
       accept_all cs (tx (sc_net c) (appFd c)) \<noteq> None \<longrightarrow>
       (\<exists>c'. remoteTask (async_stream (remoteFd c)) c = Some (Inr (), c') \<and> remoteReadDone c' \<and>
          sent (sc_net c') (appFd c) = before @ [72, 73, 33] \<and> wr_shut (sc_net c') (appFd c))"
    by blast
  have "\<not> sc_closed sample_reply_client" "sent (sc_net sample_reply_client) (appFd sample_reply_client) = socks_ok_reply @ [72]"
    "rx (sc_net sample_reply_client) (remoteFd sample_reply_client) = map chunk [[73], [33]] @ [(0, [])]"
    "accept_all [[73], [33]] (tx (sc_net sample_reply_client) (appFd sample_reply_client)) \<noteq> None"
    "remoteFd sample_reply_client = 7" "appFd sample_reply_client = 5"
    by (simp_all add: sample_reply_client_def Socks5Connection_def sc_net_def ubs_init_def net0_def accept.simps)
  with client [rule_format, of sample_reply_client "socks_ok_reply" "[72]" "[[73], [33]]"] s' show ?thesis
    by auto
qed

end
